(* ===== verification/Codecs.thy ===== *)
theory Codecs
  imports Prelude
begin

text \<open>
  The external text codecs and hash functions the code calls: the \<open>hex\<close> crate, the \<open>bs58\<close> crate and
  Keccak-256 (\<open>tiny-keccak\<close>). Their sources are not part of the repository, so the model takes
  them as arguments; the locales below name the documented behaviour that properties rely on.
  The reference codecs at the end of the theory show that the laws can hold: they are instances,
  not models of those crates, and no definition that models the code mentions them.
\<close>

section \<open>Interfaces\<close>

text \<open>
  \<open>hex::encode\<close> writes two lower-case digits per byte. \<open>hex::decode\<close> accepts digits of both cases
  and an even length; its error is the \<open>Display\<close> text of \<open>FromHexError\<close>.
\<close>

type_synonym hex_encoder = "bytes \<Rightarrow> string"
type_synonym hex_decoder = "string \<Rightarrow> (bytes, string) result"
type_synonym b58_encoder = "bytes \<Rightarrow> string"
type_synonym b58_decoder = "string \<Rightarrow> (bytes, string) result"
type_synonym hash_fn = "bytes \<Rightarrow> bytes"

definition is_lower_hexdigit :: "char \<Rightarrow> bool" where
  "is_lower_hexdigit c = (let n = of_char c :: nat in 48 \<le> n \<and> n \<le> 57 \<or> 97 \<le> n \<and> n \<le> 102)"

locale hex_codec =
  fixes hex_enc :: hex_encoder
    and hex_dec :: hex_decoder
  assumes enc_length: "length (hex_enc bs) = 2 * length bs"
    and enc_lower: "list_all is_lower_hexdigit (hex_enc bs)"
    and dec_iff: "hex_dec s = Inr bs \<longleftrightarrow> list_all is_hexdigit s \<and> map to_lower s = hex_enc bs"
    and dec_total: "even (length s) \<Longrightarrow> list_all is_hexdigit s \<Longrightarrow> \<exists>bs. hex_dec s = Inr bs"

lemma lower_hexdigit_is_hexdigit: "is_lower_hexdigit c \<Longrightarrow> is_hexdigit c"
  by (auto simp: is_lower_hexdigit_def is_hexdigit_def Let_def)

lemma lower_hexdigit_to_lower: "is_lower_hexdigit c \<Longrightarrow> to_lower c = c"
  by (auto simp: is_lower_hexdigit_def to_lower_def Let_def)

lemma of_char_to_lower_hexdigit:
  "is_hexdigit c \<Longrightarrow> of_char (to_lower c) =
    (let n = of_char c :: nat in if 65 \<le> n \<and> n \<le> 90 then n + 32 else n)"
  by (auto simp: is_hexdigit_def to_lower_def Let_def)

lemma to_lower_lower_hexdigit: "is_hexdigit c \<Longrightarrow> is_lower_hexdigit (to_lower c)"
  using of_char_to_lower_hexdigit [of c]
  by (auto simp: is_hexdigit_def is_lower_hexdigit_def Let_def split: if_splits)

lemma to_lower_idem_hex: "is_hexdigit c \<Longrightarrow> to_lower (to_lower c) = to_lower c"
  by (simp add: lower_hexdigit_to_lower to_lower_lower_hexdigit)

lemma to_upper_hexdigit:
  assumes "is_lower_hexdigit c"
  shows "is_hexdigit (to_upper c)" and "to_lower (to_upper c) = c"
proof -
  let ?n = "of_char c :: nat"
  show "is_hexdigit (to_upper c)"
    using assms by (auto simp: is_lower_hexdigit_def is_hexdigit_def to_upper_def Let_def)
  show "to_lower (to_upper c) = c"
    using assms by (auto simp: is_lower_hexdigit_def to_lower_def to_upper_def Let_def)
qed

context hex_codec
begin

lemma enc_hexdigit: "list_all is_hexdigit (hex_enc bs)"
  using enc_lower [of bs] by (auto simp: list_all_iff lower_hexdigit_is_hexdigit)

lemma enc_to_lower: "map to_lower (hex_enc bs) = hex_enc bs"
  using enc_lower [of bs] by (simp add: list_all_iff lower_hexdigit_to_lower map_idI)

lemma dec_enc [simp]: "hex_dec (hex_enc bs) = Inr bs"
  by (simp add: dec_iff enc_hexdigit enc_to_lower)

lemma enc_inj: "hex_enc xs = hex_enc ys \<longleftrightarrow> xs = ys"
  by (metis dec_enc sum.inject(2))

lemma dec_length: "hex_dec s = Inr bs \<Longrightarrow> length s = 2 * length bs"
  using enc_length [of bs] by (metis dec_iff length_map)

lemma dec_lower: "hex_dec s = Inr bs \<Longrightarrow> hex_enc bs = map to_lower s"
  by (simp add: dec_iff)

lemma dec_case: "list_all is_hexdigit s \<Longrightarrow> map to_lower s = hex_enc bs \<Longrightarrow> hex_dec s = Inr bs"
  by (simp add: dec_iff)

lemma dec_error: "hex_dec s = Inl e \<Longrightarrow> \<not> list_all is_hexdigit s \<or> odd (length s)"
  using dec_total by fastforce

end

text \<open>
  \<open>bs58::encode\<close> and \<open>bs58::decode\<close> with the Bitcoin alphabet: decoding accepts exactly the
  strings over the alphabet, and the two are inverse. The numeric laws say what the codec computes:
  the base-58 value of the text is the big-endian value of the bytes, and leading \<open>1\<close>s stand for
  leading zero bytes.
\<close>

definition b58_alphabet :: string where
  "b58_alphabet = ''123456789ABCDEFGHJKLMNPQRSTUVWXYZabcdefghijkmnopqrstuvwxyz''"

locale base58_codec =
  fixes b58_enc :: b58_encoder
    and b58_dec :: b58_decoder
  assumes dec_iff: "b58_dec s = Inr bs \<longleftrightarrow> b58_enc bs = s"
    and enc_alphabet: "set (b58_enc bs) \<subseteq> set b58_alphabet"
    and dec_total: "set s \<subseteq> set b58_alphabet \<Longrightarrow> \<exists>bs. b58_dec s = Inr bs"

context base58_codec
begin

lemma dec_enc [simp]: "b58_dec (b58_enc bs) = Inr bs"
  by (simp add: dec_iff)

lemma enc_dec: "b58_dec s = Inr bs \<Longrightarrow> b58_enc bs = s"
  by (simp add: dec_iff)

lemma enc_inj: "b58_enc xs = b58_enc ys \<longleftrightarrow> xs = ys"
  by (metis dec_enc sum.inject(2))

lemma dec_alphabet: "b58_dec s = Inr bs \<Longrightarrow> set s \<subseteq> set b58_alphabet"
  using enc_alphabet by (auto simp: dec_iff)

lemma dec_error_iff: "(\<exists>e. b58_dec s = Inl e) \<longleftrightarrow> \<not> set s \<subseteq> set b58_alphabet"
  using dec_alphabet dec_total by (metis Inl_Inr_False sum.exhaust)

end

definition b58_index :: "char \<Rightarrow> nat" where
  "b58_index c = length (takeWhile (\<lambda>d. d \<noteq> c) b58_alphabet)"

definition b58_value :: "string \<Rightarrow> nat" where
  "b58_value s = foldl (\<lambda>a c. a * 58 + b58_index c) 0 s"

definition leading :: "'a \<Rightarrow> 'a list \<Rightarrow> nat" where
  "leading x xs = length (takeWhile (\<lambda>y. y = x) xs)"

locale base58_numeric = base58_codec +
  assumes enc_value: "b58_value (b58_enc bs) = be_val bs"
    and enc_leading: "leading CHR ''1'' (b58_enc bs) = leading 0 bs"

text \<open>Keccak-256 is used through the length of its digest only.\<close>

locale hash32 =
  fixes h :: hash_fn
  assumes hash_length: "length (h bs) = 32"

section \<open>A reference hex codec\<close>

definition hex_char :: "nat \<Rightarrow> char" where
  "hex_char n = char_of (if n < 10 then 48 + n else 87 + n)"

definition hex_value :: "char \<Rightarrow> nat" where
  "hex_value c = (let n = of_char c :: nat in
     if n \<le> 57 then n - 48 else if n \<le> 70 then n - 55 else n - 87)"

definition ref_hex_enc :: hex_encoder where
  "ref_hex_enc bs = concat (map (\<lambda>b. [hex_char (unat b div 16), hex_char (unat b mod 16)]) bs)"

fun ref_hex_dec :: hex_decoder where
  "ref_hex_dec [] = Inr []"
| "ref_hex_dec [c] = Inl ''Odd number of digits''"
| "ref_hex_dec (c # d # s) =
     (if is_hexdigit c \<and> is_hexdigit d
      then and_then (ref_hex_dec s) (\<lambda>bs. Inr (word_of_nat (hex_value c * 16 + hex_value d) # bs))
      else Inl ''Invalid character'')"

lemma hex_char_lower: "n < 16 \<Longrightarrow> is_lower_hexdigit (hex_char n)"
  by (auto simp: hex_char_def is_lower_hexdigit_def Let_def)

lemma hex_value_char: "n < 16 \<Longrightarrow> hex_value (hex_char n) = n"
  by (auto simp: hex_char_def hex_value_def Let_def)

lemma hex_value_lt: "is_hexdigit c \<Longrightarrow> hex_value c < 16"
  by (auto simp: is_hexdigit_def hex_value_def Let_def)

lemma hex_char_value: "is_hexdigit c \<Longrightarrow> hex_char (hex_value c) = to_lower c"
  by (auto simp: is_hexdigit_def hex_value_def hex_char_def to_lower_def Let_def)

lemma ref_hex_dec_enc: "ref_hex_dec (ref_hex_enc bs) = Inr bs"
proof (induction bs)
  case (Cons b bs)
  have lt: "unat b div 16 < 16" "unat b mod 16 < 16"
    using unat_byte_lt [of b] by (auto simp: less_mult_imp_div_less)
  then have "is_hexdigit (hex_char (unat b div 16))" "is_hexdigit (hex_char (unat b mod 16))"
    by (simp_all add: hex_char_lower lower_hexdigit_is_hexdigit)
  moreover have "word_of_nat (unat b div 16 * 16 + unat b mod 16) = b"
    by (simp add: div_mult_mod_eq)
  ultimately show ?case
    using Cons lt by (simp add: ref_hex_enc_def hex_value_char)
qed (simp add: ref_hex_enc_def)

lemma ref_hex_dec_sound:
  "ref_hex_dec s = Inr bs \<Longrightarrow> list_all is_hexdigit s \<and> map to_lower s = ref_hex_enc bs"
proof (induction s arbitrary: bs rule: ref_hex_dec.induct)
  case (3 c d s)
  then obtain bs' where hex: "is_hexdigit c" "is_hexdigit d" and rest: "ref_hex_dec s = Inr bs'"
    and bs: "bs = word_of_nat (hex_value c * 16 + hex_value d) # bs'"
    by (auto simp: and_then_eq_Inr split: if_splits)
  have lt: "hex_value c < 16" "hex_value d < 16"
    using hex by (simp_all add: hex_value_lt)
  then have "unat (word_of_nat (hex_value c * 16 + hex_value d) :: byte) = hex_value c * 16 + hex_value d"
    by (intro unat_of_nat_small) simp
  then show ?case
    using "3.IH" [OF _ rest] hex lt bs by (simp add: ref_hex_enc_def hex_char_value)
qed (auto simp: ref_hex_enc_def)

lemma ref_hex_dec_total:
  "even (length s) \<Longrightarrow> list_all is_hexdigit s \<Longrightarrow> \<exists>bs. ref_hex_dec s = Inr bs"
  by (induction s rule: ref_hex_dec.induct) (auto simp: and_then_eq_Inr)

lemma ref_hex_dec_lower:
  "list_all is_hexdigit s \<Longrightarrow> ref_hex_dec (map to_lower s) = Inr bs \<Longrightarrow> ref_hex_dec s = Inr bs"
proof (induction s arbitrary: bs rule: ref_hex_dec.induct)
  case (3 c d s)
  have "hex_value (to_lower c) = hex_value c" if "is_hexdigit c" for c
    using that hex_char_value hex_value_char hex_value_lt by metis
  with 3 show ?case
    by (auto simp: and_then_eq_Inr to_lower_lower_hexdigit lower_hexdigit_is_hexdigit split: if_splits)
qed auto

interpretation ref_hex: hex_codec ref_hex_enc ref_hex_dec
proof unfold_locales
  fix bs s
  show "length (ref_hex_enc bs) = 2 * length bs"
    by (induction bs) (simp_all add: ref_hex_enc_def)
  show "list_all is_lower_hexdigit (ref_hex_enc bs)"
  proof (induction bs)
    case (Cons b bs)
    moreover have "unat b div 16 < 16"
      using unat_byte_lt [of b] by (simp add: less_mult_imp_div_less)
    ultimately show ?case by (simp add: ref_hex_enc_def hex_char_lower)
  qed (simp add: ref_hex_enc_def)
  show "ref_hex_dec s = Inr bs \<longleftrightarrow> list_all is_hexdigit s \<and> map to_lower s = ref_hex_enc bs"
    using ref_hex_dec_sound ref_hex_dec_lower ref_hex_dec_enc by metis
  assume "even (length s)" "list_all is_hexdigit s"
  then show "\<exists>bs. ref_hex_dec s = Inr bs" by (rule ref_hex_dec_total)
qed

section \<open>A reference base-58 codec\<close>

fun to_digits :: "nat \<Rightarrow> nat \<Rightarrow> nat list" where
  "to_digits b n = (if n = 0 \<or> b < 2 then [] else to_digits b (n div b) @ [n mod b])"

declare to_digits.simps [simp del]

definition digits_val :: "nat \<Rightarrow> nat list \<Rightarrow> nat" where
  "digits_val b ds = foldl (\<lambda>a d. a * b + d) 0 ds"

lemma digits_val_snoc [simp]: "digits_val b (ds @ [d]) = digits_val b ds * b + d"
  by (simp add: digits_val_def)

lemma digits_val_Nil [simp]: "digits_val b [] = 0"
  by (simp add: digits_val_def)

lemma to_digits_0 [simp]: "to_digits b 0 = []"
  by (simp add: to_digits.simps)

lemma digits_val_to_digits: "2 \<le> b \<Longrightarrow> digits_val b (to_digits b n) = n"
proof (induction b n rule: to_digits.induct)
  case (1 b n)
  then show ?case
    by (subst to_digits.simps) (auto simp: div_mult_mod_eq)
qed

lemma to_digits_bound: "d \<in> set (to_digits b n) \<Longrightarrow> d < b"
proof (induction b n rule: to_digits.induct)
  case (1 b n)
  from "1.prems" have "n \<noteq> 0" "\<not> b < 2"
    by (auto simp: to_digits.simps [of b n] split: if_splits)
  with 1 show ?case
    by (auto simp: to_digits.simps [of b n])
qed

lemma to_digits_hd: "2 \<le> b \<Longrightarrow> to_digits b n = d # ds \<Longrightarrow> d \<noteq> 0"
proof (induction b n arbitrary: d ds rule: to_digits.induct)
  case (1 b n)
  then have n: "n \<noteq> 0" "\<not> b < 2"
    by (auto simp: to_digits.simps [of b n] split: if_splits)
  show ?case
  proof (cases "to_digits b (n div b)")
    case Nil
    with n 1(2) have "n div b = 0"
      using digits_val_to_digits [of b "n div b"] by simp
    with n 1(2,3) Nil show ?thesis
      by (auto simp: to_digits.simps [of b n] div_eq_0_iff)
  next
    case (Cons e es)
    with n 1 show ?thesis by (auto simp: to_digits.simps [of b n])
  qed
qed

lemma digits_val_eq_0: "0 < b \<Longrightarrow> digits_val b ds = 0 \<longleftrightarrow> (\<forall>d \<in> set ds. d = 0)"
  by (induction ds rule: rev_induct) auto

lemma to_digits_val:
  "2 \<le> b \<Longrightarrow> \<forall>d \<in> set ds. d < b \<Longrightarrow>
   to_digits b (digits_val b ds) = dropWhile (\<lambda>d. d = 0) ds"
proof (induction ds rule: rev_induct)
  case (snoc d ds)
  let ?v = "digits_val b ds"
  from snoc.prems have d: "d < b" and b: "2 \<le> b" "0 < b" by auto
  from d b have dm: "(?v * b + d) div b = ?v" "(?v * b + d) mod b = d" by auto
  show ?case
  proof (cases "digits_val b (ds @ [d]) = 0")
    case True
    then have "\<forall>x \<in> set (ds @ [d]). x = 0"
      using digits_val_eq_0 [OF b(2)] by blast
    then have "dropWhile (\<lambda>d. d = 0) (ds @ [d]) = []" by (simp only: dropWhile_eq_Nil_conv)
    with True show ?thesis by (simp only: to_digits_0)
  next
    case False
    have step: "to_digits b (digits_val b (ds @ [d])) = to_digits b ?v @ [d]"
      using False b dm by (simp add: to_digits.simps [of b "?v * b + d"])
    show ?thesis
    proof (cases "\<forall>x \<in> set ds. x = 0")
      case True
      then have "?v = 0" using digits_val_eq_0 [OF b(2)] by blast
      with step True False show ?thesis by (auto simp: dropWhile_append)
    next
      case False
      with step snoc show ?thesis by (auto simp: dropWhile_append)
    qed
  qed
qed simp

definition b58_char :: "nat \<Rightarrow> char" where
  "b58_char d = b58_alphabet ! d"

definition ref_b58_enc :: b58_encoder where
  "ref_b58_enc bs = replicate (leading 0 bs) CHR ''1'' @ map b58_char (to_digits 58 (be_val bs))"

definition ref_b58_dec :: b58_decoder where
  "ref_b58_dec s =
     (if list_all (\<lambda>c. c \<in> set b58_alphabet) s
      then Inr (replicate (leading CHR ''1'' s) 0 @ map word_of_nat (to_digits 256 (b58_value s)))
      else Inl ''provided string contained invalid character'')"

lemma b58_alphabet_length [simp]: "length b58_alphabet = 58"
  by (simp add: b58_alphabet_def)

lemma b58_alphabet_distinct: "distinct b58_alphabet"
  by (simp add: b58_alphabet_def)

lemma takeWhile_nth: "distinct xs \<Longrightarrow> i < length xs \<Longrightarrow> length (takeWhile (\<lambda>d. d \<noteq> xs ! i) xs) = i"
proof (induction xs arbitrary: i)
  case (Cons x xs)
  then show ?case by (cases i) (auto simp: nth_eq_iff_index_eq)
qed simp

lemma b58_index_char: "d < 58 \<Longrightarrow> b58_index (b58_char d) = d"
  by (simp add: b58_index_def b58_char_def takeWhile_nth b58_alphabet_distinct)

lemma b58_char_in: "d < 58 \<Longrightarrow> b58_char d \<in> set b58_alphabet"
  by (simp add: b58_char_def)

lemma b58_char_index: "c \<in> set b58_alphabet \<Longrightarrow> b58_char (b58_index c) = c \<and> b58_index c < 58"
  by (metis b58_alphabet_length b58_char_def b58_index_char in_set_conv_nth)

lemma b58_char_zero: "c \<in> set b58_alphabet \<Longrightarrow> c = CHR ''1'' \<longleftrightarrow> b58_index c = 0"
  using b58_char_index [of c] by (auto simp: b58_char_def b58_alphabet_def b58_index_def)

lemma b58_value_digits: "b58_value s = digits_val 58 (map b58_index s)"
  by (simp add: b58_value_def digits_val_def foldl_map)

lemma be_val_digits: "be_val bs = digits_val 256 (map unat bs)"
  by (simp add: be_val_def digits_val_def foldl_map)

lemma leading_split: "xs = replicate (leading x xs) x @ dropWhile (\<lambda>y. y = x) xs"
  by (induction xs) (simp_all add: leading_def)

lemma leading_replicate [simp]: "leading x (replicate n x @ xs) = n + leading x xs"
  by (induction n) (simp_all add: leading_def)

lemma leading_map:
  "(\<And>y. y \<in> set xs \<Longrightarrow> f y = b \<longleftrightarrow> y = a) \<Longrightarrow> leading b (map f xs) = leading a xs"
  by (induction xs) (auto simp: leading_def)

lemma digits_val_replicate_0 [simp]: "digits_val b (replicate n 0 @ ds) = digits_val b ds"
  by (induction n) (simp_all add: digits_val_def)

lemma leading_to_digits: "2 \<le> b \<Longrightarrow> leading 0 (to_digits b n) = 0"
  using to_digits_hd [of b n] by (cases "to_digits b n") (auto simp: leading_def)

lemma dropWhile_zero_map:
  "(\<And>y. y \<in> set xs \<Longrightarrow> f y = b \<longleftrightarrow> y = a) \<Longrightarrow>
   dropWhile (\<lambda>y. y = b) (map f xs) = map f (dropWhile (\<lambda>y. y = a) xs)"
  by (induction xs) auto

lemma ref_b58_enc_facts:
  shows ref_b58_enc_set: "set (ref_b58_enc bs) \<subseteq> set b58_alphabet"
    and ref_b58_enc_value: "b58_value (ref_b58_enc bs) = be_val bs"
    and ref_b58_enc_leading: "leading CHR ''1'' (ref_b58_enc bs) = leading 0 bs"
proof -
  let ?ds = "to_digits 58 (be_val bs)"
  have lt: "\<And>d. d \<in> set ?ds \<Longrightarrow> d < 58" by (rule to_digits_bound)
  have one: "CHR ''1'' \<in> set b58_alphabet" by (simp add: b58_alphabet_def)
  show "set (ref_b58_enc bs) \<subseteq> set b58_alphabet"
    using lt b58_char_in one by (auto simp: ref_b58_enc_def)
  have "map b58_index (map b58_char ?ds) = ?ds"
    using lt b58_index_char by (simp add: map_idI)
  moreover have "b58_index CHR ''1'' = 0"
    by (simp add: b58_index_def b58_alphabet_def)
  ultimately show "b58_value (ref_b58_enc bs) = be_val bs"
    by (simp add: b58_value_digits ref_b58_enc_def digits_val_to_digits)
  have "leading CHR ''1'' (map b58_char ?ds) = leading 0 ?ds"
  proof (rule leading_map)
    fix d assume "d \<in> set ?ds"
    then have "d < 58" by (rule lt)
    then show "b58_char d = CHR ''1'' \<longleftrightarrow> d = 0"
      using b58_char_zero [OF b58_char_in] b58_index_char by simp
  qed
  then show "leading CHR ''1'' (ref_b58_enc bs) = leading 0 bs"
    by (simp add: ref_b58_enc_def leading_to_digits)
qed

lemma ref_b58_dec_enc: "ref_b58_dec (ref_b58_enc bs) = Inr bs"
proof -
  have "to_digits 256 (be_val bs) = dropWhile (\<lambda>d. d = 0) (map unat bs)"
    unfolding be_val_digits by (rule to_digits_val) (auto simp: unat_byte_lt)
  also have "\<dots> = map unat (dropWhile (\<lambda>b. b = 0) bs)"
    by (rule dropWhile_zero_map) (simp add: unat_eq_zero)
  finally have "map word_of_nat (to_digits 256 (be_val bs)) = dropWhile (\<lambda>b. b = 0) bs"
    by (simp add: comp_def)
  with leading_split [of bs 0] show ?thesis
    using ref_b58_enc_set [of bs]
    by (simp add: ref_b58_dec_def ref_b58_enc_value ref_b58_enc_leading list_all_iff subset_iff)
qed

lemma ref_b58_enc_dec: "ref_b58_dec s = Inr bs \<Longrightarrow> ref_b58_enc bs = s"
proof -
  assume *: "ref_b58_dec s = Inr bs"
  then have in_set: "\<And>c. c \<in> set s \<Longrightarrow> c \<in> set b58_alphabet"
    and bs: "bs = replicate (leading CHR ''1'' s) 0 @ map word_of_nat (to_digits 256 (b58_value s))"
    by (auto simp: ref_b58_dec_def list_all_iff split: if_splits)
  let ?ds = "to_digits 256 (b58_value s)"
  have small: "\<And>d. d \<in> set ?ds \<Longrightarrow> d < 256" by (rule to_digits_bound)
  have un: "map unat (map word_of_nat ?ds :: bytes) = ?ds"
    using small by (auto simp: unat_of_nat intro!: map_idI)
  have val: "be_val bs = b58_value s"
    using un by (simp add: be_val_digits bs digits_val_to_digits comp_def)
  have "leading (0::byte) (map word_of_nat ?ds) = leading 0 ?ds"
  proof (rule leading_map)
    fix d assume "d \<in> set ?ds"
    then have "unat (word_of_nat d :: byte) = d"
      using small unat_of_nat_small by blast
    then show "(word_of_nat d = (0::byte)) = (d = 0)"
      by (metis unat_eq_zero)
  qed
  then have lead: "leading 0 bs = leading CHR ''1'' s"
    by (simp add: bs leading_to_digits)
  have "to_digits 58 (b58_value s) = dropWhile (\<lambda>d. d = 0) (map b58_index s)"
    unfolding b58_value_digits using b58_char_index in_set by (intro to_digits_val) auto
  also have "\<dots> = map b58_index (dropWhile (\<lambda>c. c = CHR ''1'') s)"
    using b58_char_zero in_set by (intro dropWhile_zero_map) auto
  finally have "map b58_char (to_digits 58 (b58_value s)) = dropWhile (\<lambda>c. c = CHR ''1'') s"
    using b58_char_index in_set by (auto simp: comp_def intro!: map_idI dest: set_dropWhileD)
  with leading_split [of s "CHR ''1''"] show ?thesis
    by (simp add: ref_b58_enc_def val lead)
qed

interpretation ref_b58: base58_numeric ref_b58_enc ref_b58_dec
proof unfold_locales
  fix s :: string and bs :: bytes
  show "ref_b58_dec s = Inr bs \<longleftrightarrow> ref_b58_enc bs = s"
    using ref_b58_dec_enc ref_b58_enc_dec by blast
  show "set (ref_b58_enc bs) \<subseteq> set b58_alphabet" by (rule ref_b58_enc_set)
  show "b58_value (ref_b58_enc bs) = be_val bs" by (rule ref_b58_enc_value)
  show "leading CHR ''1'' (ref_b58_enc bs) = leading 0 bs" by (rule ref_b58_enc_leading)
  assume "set s \<subseteq> set b58_alphabet"
  then show "\<exists>bs. ref_b58_dec s = Inr bs"
    by (auto simp: ref_b58_dec_def list_all_iff)
qed

end
