(* ===== verification/Chain.thy ===== *)
theory Chain
  imports Codecs
begin

text \<open>
  The chain identity primitives of the common crate (\<open>crates/common/src/chain.rs\<close>,
  \<open>error.rs\<close>): \<open>Chain\<close>, \<open>Address\<close>, \<open>TxHash\<close>, \<open>BlockRef\<close> and \<open>CommonError\<close>, and
  the streaming event types of \<open>event.rs\<close>. The base-58 and hex codecs are arguments.
\<close>

section \<open>Errors of the common crate\<close>

text \<open>The \<open>f64\<close> of \<open>ConfidenceOutOfRange\<close> is kept as its 64-bit pattern.\<close>

datatype common_error =
    InvalidAddress string string
  | AddressByteLength usize usize
  | ConfidenceOutOfRange u64
  | InvalidAmount string
  | InvalidTxHash string string
  | UnknownChain string

text \<open>The \<open>Display\<close> texts; printing an \<open>f64\<close> is an argument.\<close>

fun common_error_display :: "(u64 \<Rightarrow> string) \<Rightarrow> common_error \<Rightarrow> string" where
  "common_error_display show_f64 (InvalidAddress chain reason) =
     ''invalid '' @ chain @ '' address: '' @ reason"
| "common_error_display show_f64 (AddressByteLength expected actual) =
     ''wrong address byte length: expected '' @ show_nat expected @ '', got '' @ show_nat actual"
| "common_error_display show_f64 (ConfidenceOutOfRange v) =
     ''confidence '' @ show_f64 v @ '' out of range [0.0, 1.0]''"
| "common_error_display show_f64 (InvalidAmount s) = ''invalid decimal amount string: '' @ s"
| "common_error_display show_f64 (InvalidTxHash chain reason) =
     ''invalid tx hash for '' @ chain @ '': '' @ reason"
| "common_error_display show_f64 (UnknownChain s) = ''unknown chain: '' @ s"

section \<open>Chain\<close>

datatype chain = Solana | Ethereum | Bsc | Base | Arbitrum | Polygon | Tron

fun chain_as_str :: "chain \<Rightarrow> string" where
  "chain_as_str Solana = ''solana''"
| "chain_as_str Ethereum = ''ethereum''"
| "chain_as_str Bsc = ''bsc''"
| "chain_as_str Base = ''base''"
| "chain_as_str Arbitrum = ''arbitrum''"
| "chain_as_str Polygon = ''polygon''"
| "chain_as_str Tron = ''tron''"

definition is_evm :: "chain \<Rightarrow> bool" where
  "is_evm c = (c \<in> {Ethereum, Bsc, Base, Arbitrum, Polygon})"

definition is_solana :: "chain \<Rightarrow> bool" where
  "is_solana c = (c = Solana)"

definition chain_from_str :: "string \<Rightarrow> (chain, common_error) result" where
  "chain_from_str s =
     (if s = ''solana'' \<or> s = ''sol'' then Ok Solana
      else if s = ''ethereum'' \<or> s = ''eth'' then Ok Ethereum
      else if s = ''bsc'' \<or> s = ''bnb'' then Ok Bsc
      else if s = ''base'' then Ok Base
      else if s = ''arbitrum'' \<or> s = ''arb'' then Ok Arbitrum
      else if s = ''polygon'' \<or> s = ''matic'' then Ok Polygon
      else if s = ''tron'' \<or> s = ''trx'' then Ok Tron
      else Err (UnknownChain s))"

lemma is_evm_simps [simp]:
  "is_evm Ethereum" "is_evm Bsc" "is_evm Base" "is_evm Arbitrum" "is_evm Polygon"
  "\<not> is_evm Solana" "\<not> is_evm Tron"
  by (simp_all add: is_evm_def)

text \<open>The derived order of \<open>Chain\<close> is the declaration order.\<close>

fun chain_rank :: "chain \<Rightarrow> nat" where
  "chain_rank Solana = 0"
| "chain_rank Ethereum = 1"
| "chain_rank Bsc = 2"
| "chain_rank Base = 3"
| "chain_rank Arbitrum = 4"
| "chain_rank Polygon = 5"
| "chain_rank Tron = 6"

lemma chain_rank_inj: "chain_rank a = chain_rank b \<longleftrightarrow> a = b"
  by (cases a; cases b) auto

instantiation chain :: linorder
begin

definition less_eq_chain :: "chain \<Rightarrow> chain \<Rightarrow> bool" where
  "less_eq_chain a b = (chain_rank a \<le> chain_rank b)"

definition less_chain :: "chain \<Rightarrow> chain \<Rightarrow> bool" where
  "less_chain a b = (chain_rank a < chain_rank b)"

instance
  by standard (auto simp: less_eq_chain_def less_chain_def chain_rank_inj)

end

section \<open>Address\<close>

record address =
  addr_chain :: chain
  canonical :: string

definition invalid_address :: "chain \<Rightarrow> string \<Rightarrow> common_error" where
  "invalid_address c reason = InvalidAddress (chain_as_str c) reason"

definition evm_canonical :: "chain \<Rightarrow> string \<Rightarrow> (string, common_error) result" where
  "evm_canonical c raw =
     and_then (ok_or (invalid_address c (''EVM address must start with '' @ quoted ''0x'')) (strip_0x raw))
       (\<lambda>hex_part.
          if length hex_part \<noteq> 40
          then Err (invalid_address c
                 (''expected 40 hex characters after '' @ quoted ''0x'' @ '', got '' @ show_nat (length hex_part)))
          else if \<not> list_all is_hexdigit hex_part
          then Err (invalid_address c ''EVM address contains non-hex characters'')
          else Ok (''0x'' @ map to_lower hex_part))"

definition address_parse ::
  "b58_encoder \<Rightarrow> b58_decoder \<Rightarrow> chain \<Rightarrow> string \<Rightarrow> (address, common_error) result" where
  "address_parse b58_enc b58_dec c raw =
     and_then
       (case c of
          Solana \<Rightarrow>
            and_then (map_err (invalid_address c) (b58_dec raw))
              (\<lambda>bytes.
                 if length bytes \<noteq> 32
                 then Err (invalid_address c
                        (''expected 32 bytes from Base58, got '' @ show_nat (length bytes)))
                 else Ok (b58_enc bytes))
        | Tron \<Rightarrow>
            (if strip_prefix ''T'' raw \<noteq> None \<and> length raw = 34 \<and> list_all is_alphanumeric raw
             then Ok raw
             else Err (invalid_address c
                    (''expected Base58Check starting with '' @ quoted ''T'' @ '', length 34'')))
        | _ \<Rightarrow> evm_canonical c raw)
       (\<lambda>can. Ok \<lparr>addr_chain = c, canonical = can\<rparr>)"

definition address_as_str :: "address \<Rightarrow> string" where
  "address_as_str a = canonical a"

text \<open>\<open>Deserialize for Address\<close>: verbatim, with the placeholder chain tag.\<close>

definition address_deserialize :: "string \<Rightarrow> address" where
  "address_deserialize s = \<lparr>addr_chain = Solana, canonical = s\<rparr>"

section \<open>TxHash\<close>

datatype tx_hash = TxSolana bytes | TxEvm bytes

fun wf_tx_hash :: "tx_hash \<Rightarrow> bool" where
  "wf_tx_hash (TxSolana b) = (length b = 64)"
| "wf_tx_hash (TxEvm b) = (length b = 32)"

definition solana_from_base58 :: "b58_decoder \<Rightarrow> string \<Rightarrow> (tx_hash, common_error) result" where
  "solana_from_base58 b58_dec s =
     and_then (map_err (InvalidTxHash ''solana'') (b58_dec s))
       (\<lambda>bytes.
          if length bytes \<noteq> 64
          then Err (InvalidTxHash ''solana'' (''expected 64 bytes, got '' @ show_nat (length bytes)))
          else Ok (TxSolana bytes))"

definition evm_from_hex :: "hex_decoder \<Rightarrow> string \<Rightarrow> (tx_hash, common_error) result" where
  "evm_from_hex hex_dec s =
     and_then (ok_or (InvalidTxHash ''evm'' (''must start with '' @ quoted ''0x'')) (strip_0x s))
       (\<lambda>hex_part.
          if length hex_part \<noteq> 64
          then Err (InvalidTxHash ''evm''
                 (''expected 64 hex characters, got '' @ show_nat (length hex_part)))
          else and_then (map_err (InvalidTxHash ''evm'') (hex_dec hex_part))
                 (\<lambda>decoded. Ok (TxEvm decoded)))"

definition tx_hash_parse ::
  "b58_decoder \<Rightarrow> hex_decoder \<Rightarrow> chain \<Rightarrow> string \<Rightarrow> (tx_hash, common_error) result" where
  "tx_hash_parse b58_dec hex_dec c raw =
     (case c of
        Solana \<Rightarrow> solana_from_base58 b58_dec raw
      | Tron \<Rightarrow> evm_from_hex hex_dec raw
      | _ \<Rightarrow> evm_from_hex hex_dec raw)"

fun tx_hash_display :: "b58_encoder \<Rightarrow> hex_encoder \<Rightarrow> tx_hash \<Rightarrow> string" where
  "tx_hash_display b58_enc hex_enc (TxSolana b) = b58_enc b"
| "tx_hash_display b58_enc hex_enc (TxEvm b) = ''0x'' @ hex_enc b"

text \<open>\<open>Deserialize for TxHash\<close>: hex when the text starts with \<open>0x\<close> or \<open>0X\<close>, else base-58.\<close>

definition tx_hash_deserialize ::
  "b58_decoder \<Rightarrow> hex_decoder \<Rightarrow> string \<Rightarrow> (tx_hash, common_error) result" where
  "tx_hash_deserialize b58_dec hex_dec s =
     (if strip_prefix ''0x'' s \<noteq> None \<or> strip_prefix ''0X'' s \<noteq> None
      then evm_from_hex hex_dec s else solana_from_base58 b58_dec s)"

section \<open>BlockRef\<close>

datatype block_ref = BlockRef (br_chain: chain) (br_height: u64)

definition block_ref_new :: "chain \<Rightarrow> u64 \<Rightarrow> block_ref" where
  "block_ref_new c height = BlockRef c height"

definition block_ref_display :: "block_ref \<Rightarrow> string" where
  "block_ref_display b = chain_as_str (br_chain b) @ '':'' @ show_nat (unat (br_height b))"

text \<open>The derived order compares the chain first and the height second.\<close>

instantiation block_ref :: linorder
begin

definition less_eq_block_ref :: "block_ref \<Rightarrow> block_ref \<Rightarrow> bool" where
  "less_eq_block_ref a b =
     (br_chain a < br_chain b \<or> br_chain a = br_chain b \<and> br_height a \<le> br_height b)"

definition less_block_ref :: "block_ref \<Rightarrow> block_ref \<Rightarrow> bool" where
  "less_block_ref a b =
     (br_chain a < br_chain b \<or> br_chain a = br_chain b \<and> br_height a < br_height b)"

instance
proof
  fix x y z :: block_ref
  show "x < y \<longleftrightarrow> x \<le> y \<and> \<not> y \<le> x"
    by (auto simp: less_block_ref_def less_eq_block_ref_def)
  show "x \<le> x" by (simp add: less_eq_block_ref_def)
  show "x \<le> y \<Longrightarrow> y \<le> z \<Longrightarrow> x \<le> z"
    by (auto simp: less_eq_block_ref_def)
  show "x \<le> y \<Longrightarrow> y \<le> x \<Longrightarrow> x = y"
    by (auto simp: less_eq_block_ref_def intro: block_ref.expand)
  show "x \<le> y \<or> y \<le> x"
    by (auto simp: less_eq_block_ref_def)
qed

end

section \<open>Streaming event types\<close>

text \<open>
  \<open>rust_decimal::Decimal\<close> is its mantissa and scale, \<open>DateTime<Utc>\<close> a number of nanoseconds
  since the epoch; both are carried unchanged.
\<close>

type_synonym decimal = "int \<times> nat"
type_synonym date_time = int

datatype dex_kind =
    RaydiumV4 | RaydiumClmm | RaydiumCpmm | OrcaWhirlpool | OrcaLegacy | Meteora
  | JupiterAggregator | PumpFun | UniswapV2 | UniswapV3 | UniswapV4 | PancakeSwapV2
  | PancakeSwapV3 | Aerodrome | UnknownDex string

record transfer =
  t_chain :: chain
  t_tx_hash :: tx_hash
  t_block :: block_ref
  t_block_time :: date_time
  t_token :: address
  t_from :: address
  t_to :: address
  t_amount_raw :: u128
  t_decimals :: byte
  t_log_index :: u32

definition is_zero_address :: "address \<Rightarrow> bool" where
  "is_zero_address a =
     (case addr_chain a of
        Solana \<Rightarrow> address_as_str a = ''11111111111111111111111111111111''
      | Tron \<Rightarrow> address_as_str a = ''T9yD14Nj9j7xAB4dbGeiX9h8unkKHxuWwb''
      | _ \<Rightarrow> address_as_str a = ''0x0000000000000000000000000000000000000000'')"

definition transfer_is_mint :: "transfer \<Rightarrow> bool" where
  "transfer_is_mint t = is_zero_address (t_from t)"

definition transfer_is_burn :: "transfer \<Rightarrow> bool" where
  "transfer_is_burn t = is_zero_address (t_to t)"

record swap =
  s_chain :: chain
  s_tx_hash :: tx_hash
  s_block :: block_ref
  s_block_time :: date_time
  s_pool :: address
  s_dex :: dex_kind
  s_sender :: address
  s_token_in :: address
  s_token_out :: address
  s_amount_in_raw :: u128
  s_decimals_in :: byte
  s_amount_out_raw :: u128
  s_decimals_out :: byte
  s_usd_value :: "decimal option"
  s_log_index :: u32

datatype token2022_instruction_kind =
    WithdrawWithheldFromMint
  | WithdrawWithheldFromAccounts
  | HarvestWithheldToMint
  | SetAuthorityWithdrawWithheld

fun as_db_str :: "token2022_instruction_kind \<Rightarrow> string" where
  "as_db_str WithdrawWithheldFromMint = ''withdraw_withheld_from_mint''"
| "as_db_str WithdrawWithheldFromAccounts = ''withdraw_withheld_from_accounts''"
| "as_db_str HarvestWithheldToMint = ''harvest_withheld_to_mint''"
| "as_db_str SetAuthorityWithdrawWithheld = ''set_authority_withdraw_withheld''"

datatype pool_event_kind =
    PoolMint u128 u128 u128
  | PoolBurn u128 u128 u128
  | PoolSync u128 u128
  | PoolInitialize address address

record pool_event =
  p_chain :: chain
  p_tx_hash :: tx_hash
  p_block :: block_ref
  p_block_time :: date_time
  p_pool :: address
  p_dex :: dex_kind
  p_kind :: pool_event_kind
  p_actor :: address
  p_log_index :: u32

section \<open>Canonical addresses\<close>

lemma evm_canonical_Ok:
  "evm_canonical c raw = Ok s \<longleftrightarrow>
    (\<exists>h. (raw = ''0x'' @ h \<or> raw = ''0X'' @ h) \<and> length h = 40 \<and> list_all is_hexdigit h \<and>
         s = ''0x'' @ map to_lower h)"
  by (auto simp: evm_canonical_def and_then_eq_Inr ok_or_def strip_0x_Some
      split: option.splits if_splits)

lemma is_evm_cases: "is_evm c \<longleftrightarrow> c \<noteq> Solana \<and> c \<noteq> Tron"
  by (cases c) auto

lemma address_parse_evm:
  "is_evm c \<Longrightarrow> address_parse be bd c raw =
     and_then (evm_canonical c raw) (\<lambda>s. Ok \<lparr>addr_chain = c, canonical = s\<rparr>)"
  by (cases c) (simp_all add: address_parse_def)

lemma address_parse_chain: "address_parse be bd c raw = Ok a \<Longrightarrow> addr_chain a = c"
  by (auto simp: address_parse_def and_then_eq_Inr)

lemma to_lower_idem: "list_all is_hexdigit h \<Longrightarrow> map to_lower (map to_lower h) = map to_lower h"
  by (simp add: list_all_iff to_lower_idem_hex)

lemma list_all_hex_lower: "list_all is_hexdigit h \<Longrightarrow> list_all is_hexdigit (map to_lower h)"
  by (auto simp: list_all_iff to_lower_lower_hexdigit lower_hexdigit_is_hexdigit)

lemma evm_canonical_idem: "evm_canonical c raw = Ok s \<Longrightarrow> evm_canonical c s = Ok s"
  by (auto simp: evm_canonical_Ok to_lower_idem list_all_hex_lower simp del: map_map)

lemma evm_canonical_lower: "evm_canonical c raw = Ok s \<Longrightarrow> s = map to_lower raw"
  by (auto simp: evm_canonical_Ok)

lemma map_err_Ok_bind:
  "and_then (map_err f r) g = Inr b \<longleftrightarrow> (\<exists>a. r = Inr a \<and> g a = Inr b)"
  by (simp add: and_then_eq_Inr)

text \<open>
  C1: The text an \<open>Address\<close> stores is canonical: parsing it again, for the same chain, gives
  the same address, and the chain tag is the one asked for. This holds for every chain, with any
  base-58 codec that inverts itself.
\<close>

theorem address_parse_canonical:
  assumes codec: "base58_codec b58_enc b58_dec"
    and parsed: "address_parse b58_enc b58_dec c raw = Ok a"
  shows "addr_chain a = c \<and> address_parse b58_enc b58_dec c (address_as_str a) = Ok a"
proof (cases "is_evm c")
  case True
  with parsed show ?thesis
    by (auto simp: address_parse_evm and_then_eq_Inr address_as_str_def evm_canonical_idem)
next
  case False
  with parsed show ?thesis
    using base58_codec.dec_enc [OF codec]
    by (cases c) (auto simp: address_parse_def and_then_eq_Inr address_as_str_def split: if_splits)
qed

lemma address_parse_canonical_witness:
  "address_parse ref_b58_enc ref_b58_dec Ethereum
     (canonical \<lparr>addr_chain = Ethereum, canonical = ''0x'' @ replicate 40 CHR ''a''\<rparr>) =
   Ok \<lparr>addr_chain = Ethereum, canonical = ''0x'' @ replicate 40 CHR ''a''\<rparr>"
proof -
  have "address_parse ref_b58_enc ref_b58_dec Ethereum (''0X'' @ replicate 40 CHR ''A'') =
        Ok \<lparr>addr_chain = Ethereum, canonical = ''0x'' @ replicate 40 CHR ''a''\<rparr>"
    by code_simp
  from address_parse_canonical [OF ref_b58.base58_codec_axioms this] show ?thesis
    by (simp add: address_as_str_def)
qed

text \<open>
  C2: On an EVM chain an address text is accepted exactly when it is \<open>0x\<close> or \<open>0X\<close> followed by
  40 hex digits of either case, and two accepted texts give the same address exactly when they
  are equal up to case.
\<close>

theorem address_parse_evm_case_insensitive:
  assumes "is_evm c"
  shows "((\<exists>a. address_parse b58_enc b58_dec c raw = Ok a) \<longleftrightarrow>
          (\<exists>h. strip_0x raw = Some h \<and> length h = 40 \<and> list_all is_hexdigit h)) \<and>
         (\<forall>raw' a a'. address_parse b58_enc b58_dec c raw = Ok a \<longrightarrow>
            address_parse b58_enc b58_dec c raw' = Ok a' \<longrightarrow>
            (a = a' \<longleftrightarrow> map to_lower raw = map to_lower raw'))"
proof (intro conjI allI impI)
  show "(\<exists>a. address_parse b58_enc b58_dec c raw = Ok a) \<longleftrightarrow>
        (\<exists>h. strip_0x raw = Some h \<and> length h = 40 \<and> list_all is_hexdigit h)"
    using assms
    by (auto simp: address_parse_evm evm_canonical_Ok and_then_eq_Inr strip_0x_Some)
next
  fix raw' a a'
  assume "address_parse b58_enc b58_dec c raw = Ok a"
    and "address_parse b58_enc b58_dec c raw' = Ok a'"
  with assms show "a = a' \<longleftrightarrow> map to_lower raw = map to_lower raw'"
    by (auto simp: address_parse_evm and_then_eq_Inr dest!: evm_canonical_lower)
qed

lemma address_parse_evm_case_insensitive_witness:
  "address_parse ref_b58_enc ref_b58_dec Base (''0x'' @ replicate 40 CHR ''F'') =
   address_parse ref_b58_enc ref_b58_dec Base (''0X'' @ replicate 40 CHR ''f'')"
proof -
  have base: "is_evm Base" by simp
  note T = address_parse_evm_case_insensitive [OF base, of ref_b58_enc ref_b58_dec]
  have "\<exists>a. address_parse ref_b58_enc ref_b58_dec Base (''0x'' @ replicate 40 CHR ''F'') = Ok a"
    unfolding T [THEN conjunct1]
    by (rule exI [of _ "replicate 40 CHR ''F''"]) code_simp
  moreover have "\<exists>a. address_parse ref_b58_enc ref_b58_dec Base (''0X'' @ replicate 40 CHR ''f'') = Ok a"
    unfolding T [THEN conjunct1]
    by (rule exI [of _ "replicate 40 CHR ''f''"]) code_simp
  moreover have "map to_lower (''0x'' @ replicate 40 CHR ''F'') = map to_lower (''0X'' @ replicate 40 CHR ''f'')"
    by code_simp
  ultimately show ?thesis
    using T [THEN conjunct2] by metis
qed

section \<open>Transaction hashes\<close>

lemma evm_from_hex_Ok:
  assumes "hex_codec hex_enc hex_dec"
  shows "evm_from_hex hex_dec s = Ok h \<longleftrightarrow>
    (\<exists>r b. strip_0x s = Some r \<and> hex_dec r = Inr b \<and> length b = 32 \<and> h = TxEvm b)"
  using hex_codec.dec_length [OF assms]
  by (force simp: evm_from_hex_def and_then_eq_Inr ok_or_def split: option.splits if_splits)

text \<open>
  Printing a transaction hash and reading it back is the identity, through \<open>TxHash::parse\<close>
  with the hash's own chain and through the chain-less \<open>Deserialize\<close>: the base-58 alphabet has
  no \<open>0\<close>, so a Solana signature is never taken for a hex hash.
\<close>

theorem tx_hash_roundtrip:
  assumes hex: "hex_codec hex_enc hex_dec"
    and b58: "base58_codec b58_enc b58_dec"
    and wf: "wf_tx_hash h"
    and c: "is_solana c \<longleftrightarrow> (\<exists>b. h = TxSolana b)"
  shows "tx_hash_parse b58_dec hex_dec c (tx_hash_display b58_enc hex_enc h) = Ok h \<and>
         tx_hash_deserialize b58_dec hex_dec (tx_hash_display b58_enc hex_enc h) = Ok h"
proof (cases h)
  case (TxSolana b)
  have "hd (b58_enc b) \<noteq> CHR ''0'' \<or> b58_enc b = []"
    using base58_codec.enc_alphabet [OF b58, of b]
    by (cases "b58_enc b") (auto simp: b58_alphabet_def)
  then have "strip_prefix ''0x'' (b58_enc b) = None" "strip_prefix ''0X'' (b58_enc b) = None"
    by (cases "b58_enc b"; auto)+
  with TxSolana wf c show ?thesis
    using base58_codec.dec_enc [OF b58]
    by (simp add: tx_hash_parse_def tx_hash_deserialize_def solana_from_base58_def is_solana_def)
next
  case (TxEvm b)
  have "evm_from_hex hex_dec (''0x'' @ hex_enc b) = Ok h"
    using TxEvm wf hex_codec.dec_enc [OF hex]
    by (simp add: evm_from_hex_Ok [OF hex])
  with TxEvm c show ?thesis
    by (cases c) (auto simp: tx_hash_parse_def tx_hash_deserialize_def is_solana_def)
qed

lemma tx_hash_roundtrip_witness:
  "tx_hash_parse ref_b58_dec ref_hex_dec Base
     (tx_hash_display ref_b58_enc ref_hex_enc (TxEvm (replicate 32 171))) =
   Ok (TxEvm (replicate 32 171))"
  using tx_hash_roundtrip [OF ref_hex.hex_codec_axioms ref_b58.base58_codec_axioms,
      of "TxEvm (replicate 32 171)" Base]
  by (simp add: is_solana_def)

section \<open>Zero addresses\<close>

lemma b58_index_one [simp]: "b58_index CHR ''1'' = 0"
  by (simp add: b58_index_def b58_alphabet_def)

lemma b58_value_ones: "set s \<subseteq> set b58_alphabet \<Longrightarrow> b58_value s = 0 \<Longrightarrow> set s \<subseteq> {CHR ''1''}"
  using b58_char_zero by (auto simp: b58_value_digits digits_val_eq_0)

lemma be_val_eq_0: "be_val bs = 0 \<longleftrightarrow> (\<forall>b \<in> set bs. b = 0)"
  by (simp add: be_val_digits digits_val_eq_0 unat_eq_zero)

lemma leading_all: "set xs \<subseteq> {x} \<Longrightarrow> leading x xs = length xs"
  by (induction xs) (auto simp: leading_def)

lemma all_replicate: "set xs \<subseteq> {x} \<Longrightarrow> xs = replicate (length xs) x"
  by (induction xs) auto

lemma b58_enc_zeros:
  assumes "base58_numeric b58_enc b58_dec"
  shows "b58_enc bs = replicate n CHR ''1'' \<longleftrightarrow> bs = replicate n 0"
proof
  assume *: "b58_enc bs = replicate n CHR ''1''"
  have "be_val bs = b58_value (replicate n CHR ''1'')"
    using base58_numeric.enc_value [OF assms, of bs] * by simp
  also have "\<dots> = 0" by (simp add: b58_value_digits digits_val_eq_0)
  finally have z: "set bs \<subseteq> {0}" by (auto simp: be_val_eq_0)
  moreover have "leading 0 bs = n"
    using base58_numeric.enc_leading [OF assms, of bs] * leading_all [of "replicate n CHR ''1''"]
    by (simp add: set_replicate_conv_if)
  ultimately show "bs = replicate n 0"
    using leading_all [OF z] all_replicate [OF z] by simp
next
  assume *: "bs = replicate n 0"
  have codec: "base58_codec b58_enc b58_dec"
    using assms by (simp add: base58_numeric_def)
  have "b58_value (b58_enc bs) = 0"
    using base58_numeric.enc_value [OF assms, of bs] * by simp
  then have ones: "set (b58_enc bs) \<subseteq> {CHR ''1''}"
    by (rule b58_value_ones [OF base58_codec.enc_alphabet [OF codec]])
  moreover have "leading CHR ''1'' (b58_enc bs) = n"
    using base58_numeric.enc_leading [OF assms, of bs] * leading_all [of "replicate n (0::byte)" 0]
    by (simp add: set_replicate_conv_if)
  ultimately show "b58_enc bs = replicate n CHR ''1''"
    using leading_all [OF ones] all_replicate [OF ones] by simp
qed

text \<open>
  \<open>is_mint\<close> and \<open>is_burn\<close> test for the zero address by comparing texts. On Solana the text
  compared with is the base-58 form of 32 zero bytes, so for parsed addresses the test is true
  exactly when the decoded key is all zero.
\<close>

theorem zero_address_solana:
  assumes codec: "base58_numeric b58_enc b58_dec"
    and parsed: "address_parse b58_enc b58_dec Solana raw = Ok a"
    and t: "t_from t = a"
  shows "transfer_is_mint t \<longleftrightarrow> b58_dec raw = Inr (replicate 32 0)"
proof -
  have ones: "''11111111111111111111111111111111'' = replicate 32 CHR ''1''"
    by (simp add: numeral_eq_Suc)
  from parsed obtain bs where bs: "b58_dec raw = Inr bs" and a: "a = \<lparr>addr_chain = Solana, canonical = b58_enc bs\<rparr>"
    by (auto simp: address_parse_def and_then_eq_Inr split: if_splits)
  then have "transfer_is_mint t \<longleftrightarrow> b58_enc bs = replicate 32 CHR ''1''"
    unfolding transfer_is_mint_def is_zero_address_def t address_as_str_def ones by simp
  with bs show ?thesis by (simp add: b58_enc_zeros [OF codec])
qed

lemma zero_address_solana_witness:
  "\<exists>a. address_parse ref_b58_enc ref_b58_dec Solana (replicate 32 CHR ''1'') = Ok a \<and>
       transfer_is_mint \<lparr>t_chain = Solana, t_tx_hash = TxSolana (replicate 64 1),
         t_block = BlockRef Solana 7, t_block_time = 0, t_token = a, t_from = a, t_to = a,
         t_amount_raw = 5, t_decimals = 9, t_log_index = 0\<rparr>"
proof -
  let ?a = "\<lparr>addr_chain = Solana, canonical = replicate 32 CHR ''1''\<rparr>"
  have dec: "ref_b58_dec (replicate 32 CHR ''1'') = Inr (replicate 32 0)"
    by code_simp
  have parsed: "address_parse ref_b58_enc ref_b58_dec Solana (replicate 32 CHR ''1'') = Ok ?a"
    by code_simp
  have "transfer_is_mint \<lparr>t_chain = Solana, t_tx_hash = TxSolana (replicate 64 1),
         t_block = BlockRef Solana 7, t_block_time = 0, t_token = ?a, t_from = ?a, t_to = ?a,
         t_amount_raw = 5, t_decimals = 9, t_log_index = 0\<rparr>"
    unfolding zero_address_solana [OF ref_b58.base58_numeric_axioms parsed, where t = "\<lparr>t_chain = Solana, t_tx_hash = TxSolana (replicate 64 1),
         t_block = BlockRef Solana 7, t_block_time = 0, t_token = ?a, t_from = ?a, t_to = ?a,
         t_amount_raw = 5, t_decimals = 9, t_log_index = 0\<rparr>", simplified]
    by (rule dec)
  with parsed show ?thesis by blast
qed

end
