(* ===== verification/EvmTypes.thy ===== *)
theory EvmTypes
  imports Chain
begin

text \<open>
  The in-tree EVM primitive types (\<open>crates/evm-types/src\<close>): the \<open>U256\<close> helpers and \<open>I256\<close> of
  \<open>uint.rs\<close>, \<open>Address\<close> with its EIP-55 checksum of \<open>address.rs\<close>, \<open>B256\<close> of \<open>hash.rs\<close>, the
  Keccak wrappers of \<open>keccak.rs\<close> and \<open>event/signature.rs\<close>, and \<open>RawLog\<close> of \<open>log.rs\<close>.
  \<open>U256\<close> is the 256-bit machine integer, \<open>256 word\<close>; fixed-size byte arrays are byte lists with a
  length invariant. The hex codec and Keccak-256 are arguments.
\<close>

section \<open>U256 helpers\<close>

text \<open>\<open>U256([l0, l1, l2, l3])\<close>: little-endian 64-bit limbs, and limb 0 of a value.\<close>

definition u256_of_limbs :: "u64 \<Rightarrow> u64 \<Rightarrow> u64 \<Rightarrow> u64 \<Rightarrow> u256" where
  "u256_of_limbs l0 l1 l2 l3 =
     ucast l0 OR push_bit 64 (ucast l1) OR push_bit 128 (ucast l2) OR push_bit 192 (ucast l3)"

definition u256_limb0 :: "u256 \<Rightarrow> u64" where
  "u256_limb0 v = ucast v"

text \<open>\<open>U256::from_big_endian\<close> and \<open>to_big_endian\<close> on 32 bytes.\<close>

definition u256_from_big_endian :: "bytes \<Rightarrow> u256" where
  "u256_from_big_endian bs = word_of_nat (be_val bs)"

definition u256_to_be_bytes :: "u256 \<Rightarrow> bytes" where
  "u256_to_be_bytes u = be_bytes 32 (unat u)"

text \<open>\<open>None\<close> is the panic of the length assertion.\<close>

definition u256_from_be_slice :: "bytes \<Rightarrow> u256 option" where
  "u256_from_be_slice bs =
     (if length bs \<le> 32
      then Some (u256_from_big_endian (replicate (32 - length bs) 0 @ bs))
      else None)"

definition u256_from_hex_str :: "hex_decoder \<Rightarrow> string \<Rightarrow> u256 option" where
  "u256_from_hex_str hex_dec s =
     (let stripped = (case strip_0x s of Some r \<Rightarrow> r | None \<Rightarrow> s) in
      if stripped = [] \<or> length stripped > 64 then None
      else
        let padded_len = (if length stripped mod 2 = 0 then length stripped else length stripped + 1);
            padded = replicate (padded_len - length stripped) CHR ''0'' @ stripped
        in (case hex_dec padded of Inl _ \<Rightarrow> None | Inr bytes \<Rightarrow> u256_from_be_slice bytes))"

section \<open>I256\<close>

datatype i256 = I256 (i256_raw: u256)

definition i256_sign_bit :: u256 where
  "i256_sign_bit = u256_of_limbs 0 0 0 0x8000000000000000"

definition i256_zero :: i256 where
  "i256_zero = I256 (u256_of_limbs 0 0 0 0)"

definition i256_min :: i256 where
  "i256_min = I256 i256_sign_bit"

definition i256_max :: i256 where
  "i256_max = I256 (u256_of_limbs (- 1) (- 1) (- 1) 0x7FFFFFFFFFFFFFFF)"

definition i256_from_raw :: "u256 \<Rightarrow> i256" where
  "i256_from_raw raw = I256 raw"

definition i256_into_raw :: "i256 \<Rightarrow> u256" where
  "i256_into_raw x = i256_raw x"

definition i256_is_negative :: "i256 \<Rightarrow> bool" where
  "i256_is_negative x = (i256_raw x \<ge> i256_sign_bit)"

definition i256_is_zero :: "i256 \<Rightarrow> bool" where
  "i256_is_zero x = (i256_raw x = 0)"

definition i256_is_positive :: "i256 \<Rightarrow> bool" where
  "i256_is_positive x = (\<not> i256_is_negative x \<and> \<not> i256_is_zero x)"

definition i256_abs_as_u256 :: "i256 \<Rightarrow> u256" where
  "i256_abs_as_u256 x = (if i256_is_negative x then NOT (i256_raw x) + 1 else i256_raw x)"

text \<open>\<open>-(v as i128) as u64\<close> goes through a 128-bit signed negation.\<close>

definition i256_from_i64 :: "u64 \<Rightarrow> i256" where
  "i256_from_i64 v =
     (if 0 \<le> sint v then I256 (ucast v)
      else let abs = ucast (- (scast v :: u128)) :: u64; pos = ucast abs :: u256
           in I256 (NOT pos + 1))"

definition i256_display :: "i256 \<Rightarrow> string" where
  "i256_display x =
     (if i256_is_negative x then ''-'' @ show_nat (unat (i256_abs_as_u256 x))
      else show_nat (unat (i256_raw x)))"

text \<open>\<open>derive(PartialOrd, Ord)\<close> compares the wrapped \<open>U256\<close>.\<close>

definition i256_less :: "i256 \<Rightarrow> i256 \<Rightarrow> bool" where
  "i256_less x y = (i256_raw x < i256_raw y)"

section \<open>Address\<close>

datatype evm_address = EvmAddress (evm_address_bytes: bytes)

definition wf_evm_address :: "evm_address \<Rightarrow> bool" where
  "wf_evm_address a = (length (evm_address_bytes a) = 20)"

datatype address_error = AddressWrongLength usize | AddressInvalidHex string

definition evm_address_zero :: evm_address where
  "evm_address_zero = EvmAddress (replicate 20 0)"

definition checksum_char :: "bytes \<Rightarrow> nat \<Rightarrow> char \<Rightarrow> char" where
  "checksum_char hash i ch =
     (let hash_byte = hash ! (i div 2);
          nibble = (if i mod 2 = 0 then drop_bit 4 hash_byte else hash_byte AND 0x0f)
      in if 8 \<le> nibble then to_upper ch else ch)"

definition to_checksum :: "hex_encoder \<Rightarrow> hash_fn \<Rightarrow> evm_address \<Rightarrow> string" where
  "to_checksum hex_enc keccak a =
     (let lower_hex = hex_enc (evm_address_bytes a);
          hash = keccak (bytes_of_string lower_hex)
      in map (\<lambda>(i, ch). checksum_char hash i ch) (enumerate 0 lower_hex))"

definition to_checksum_0x :: "hex_encoder \<Rightarrow> hash_fn \<Rightarrow> evm_address \<Rightarrow> string" where
  "to_checksum_0x hex_enc keccak a = ''0x'' @ to_checksum hex_enc keccak a"

text \<open>\<open>Display\<close> and \<open>Serialize\<close> both print the checksummed form.\<close>

definition evm_address_display :: "hex_encoder \<Rightarrow> hash_fn \<Rightarrow> evm_address \<Rightarrow> string" where
  "evm_address_display hex_enc keccak a = ''0x'' @ to_checksum hex_enc keccak a"

definition evm_address_parse_hex :: "hex_decoder \<Rightarrow> string \<Rightarrow> (evm_address, address_error) result" where
  "evm_address_parse_hex hex_dec s =
     (let stripped = (case strip_0x s of Some r \<Rightarrow> r | None \<Rightarrow> s) in
      if length stripped \<noteq> 40 then Err (AddressWrongLength (length stripped))
      else and_then (map_err AddressInvalidHex (hex_dec stripped)) (\<lambda>bytes. Ok (EvmAddress bytes)))"

text \<open>\<open>{:x}\<close> and \<open>{:X}\<close>, with the \<open>0x\<close> prefix of the alternate form.\<close>

definition fmt_02x :: "byte \<Rightarrow> string" where
  "fmt_02x b = [hex_char (unat b div 16), hex_char (unat b mod 16)]"

definition evm_address_lower_hex :: "bool \<Rightarrow> evm_address \<Rightarrow> string" where
  "evm_address_lower_hex alternate a =
     (if alternate then ''0x'' else []) @ concat (map fmt_02x (evm_address_bytes a))"

definition evm_address_upper_hex :: "bool \<Rightarrow> evm_address \<Rightarrow> string" where
  "evm_address_upper_hex alternate a =
     (if alternate then ''0x'' else []) @ concat (map (map to_upper \<circ> fmt_02x) (evm_address_bytes a))"

section \<open>B256\<close>

datatype b256 = B256 (b256_bytes: bytes)

definition wf_b256 :: "b256 \<Rightarrow> bool" where
  "wf_b256 b = (length (b256_bytes b) = 32)"

datatype b256_error = B256WrongLength usize | B256InvalidHex string

definition b256_zero :: b256 where
  "b256_zero = B256 (replicate 32 0)"

text \<open>\<open>None\<close> is the panic of the length assertion.\<close>

definition b256_from_be_slice :: "bytes \<Rightarrow> b256 option" where
  "b256_from_be_slice bs =
     (if length bs \<le> 32 then Some (B256 (replicate (32 - length bs) 0 @ bs)) else None)"

definition b256_parse_hex :: "hex_decoder \<Rightarrow> string \<Rightarrow> (b256, b256_error) result" where
  "b256_parse_hex hex_dec s =
     (let stripped = (case strip_0x s of Some r \<Rightarrow> r | None \<Rightarrow> s) in
      if length stripped \<noteq> 64 then Err (B256WrongLength (length stripped))
      else and_then (map_err B256InvalidHex (hex_dec stripped)) (\<lambda>bytes. Ok (B256 bytes)))"

definition b256_display :: "hex_encoder \<Rightarrow> b256 \<Rightarrow> string" where
  "b256_display hex_enc b = ''0x'' @ hex_enc (b256_bytes b)"

section \<open>Keccak wrappers\<close>

definition keccak256 :: "hash_fn \<Rightarrow> bytes \<Rightarrow> b256" where
  "keccak256 keccak data = B256 (keccak data)"

definition event_topic0 :: "hash_fn \<Rightarrow> string \<Rightarrow> b256" where
  "event_topic0 keccak canonical_sig = keccak256 keccak (bytes_of_string canonical_sig)"

definition event_selector :: "hash_fn \<Rightarrow> string \<Rightarrow> b256" where
  "event_selector keccak canonical_sig = keccak256 keccak (bytes_of_string canonical_sig)"

section \<open>Raw logs\<close>

record typed_raw_log =
  trl_address :: evm_address
  trl_topics :: "b256 list"
  trl_data :: bytes

definition topic0 :: "typed_raw_log \<Rightarrow> b256 option" where
  "topic0 log = (case trl_topics log of [] \<Rightarrow> None | t # _ \<Rightarrow> Some t)"

section \<open>256-bit integers: what the code computes\<close>

lemma i256_sign_bit_eq: "i256_sign_bit = 2 ^ 255"
  by (simp add: i256_sign_bit_def u256_of_limbs_def)

lemma u256_from_be_slice_32: "length bs = 32 \<Longrightarrow> u256_from_be_slice bs = Some (word_of_nat (be_val bs))"
  by (simp add: u256_from_be_slice_def u256_from_big_endian_def)

lemma unat_u256_of_be:
  assumes "length bs \<le> 32"
  shows "unat (word_of_nat (be_val bs) :: u256) = be_val bs"
proof -
  have "be_val bs < 256 ^ length bs" by (rule be_val_bound)
  also have "\<dots> \<le> 256 ^ 32" by (rule power_increasing) (use assms in auto)
  finally have "be_val bs < 2 ^ 256" by simp
  then show ?thesis by (simp add: unat_of_nat)
qed

lemma unat_u256_lt: "unat (v :: u256) < 256 ^ 32"
  using unsigned_less [of v, where 'a = nat] by simp

lemma be_val_to_be_bytes [simp]: "be_val (u256_to_be_bytes v) = unat v"
  using unat_u256_lt [of v] by (simp add: u256_to_be_bytes_def)

lemma length_u256_to_be_bytes [simp]: "length (u256_to_be_bytes v) = 32"
  by (simp add: u256_to_be_bytes_def)

lemma be_val_pad [simp]: "be_val (replicate n 0 @ bs) = be_val bs"
  by (simp add: be_val_append)

lemma u256_from_be_slice_val: "length bs \<le> 32 \<Longrightarrow> u256_from_be_slice bs = Some (word_of_nat (be_val bs))"
  by (simp add: u256_from_be_slice_def u256_from_big_endian_def)

lemma i256_is_negative_iff: "i256_is_negative x \<longleftrightarrow> sint (i256_raw x) < 0"
proof -
  have "i256_is_negative x \<longleftrightarrow> 2 ^ 255 \<le> uint (i256_raw x)"
    by (simp add: i256_is_negative_def i256_sign_bit_eq word_le_def)
  moreover have "uint (i256_raw x) < 2 ^ 256"
    using uint_lt2p [of "i256_raw x"] by simp
  ultimately show ?thesis
    using uint_ge_0 [of "i256_raw x"] by (auto simp: sint_cases not_le)
qed

lemma i256_abs_uint: "uint (i256_abs_as_u256 x) = \<bar>sint (i256_raw x)\<bar>"
proof (cases "i256_is_negative x")
  case True
  then have neg: "sint (i256_raw x) < 0" by (simp add: i256_is_negative_iff)
  then have "i256_raw x \<noteq> 0" by auto
  then have "uint (NOT (i256_raw x) + 1) = 2 ^ 256 - uint (i256_raw x)"
    unfolding not_plus_one by (subst uint_minus) auto
  moreover have "sint (i256_raw x) = uint (i256_raw x) - 2 ^ 256"
    using neg uint_ge_0 [of "i256_raw x"] by (simp add: sint_cases split: if_splits)
  ultimately show ?thesis
    using True neg by (simp add: i256_abs_as_u256_def)
next
  case False
  then have "0 \<le> sint (i256_raw x)" by (simp add: i256_is_negative_iff)
  moreover from this have "sint (i256_raw x) = uint (i256_raw x)"
    using uint_lt2p [of "i256_raw x"] by (simp add: sint_cases split: if_splits)
  ultimately show ?thesis
    using False by (simp add: i256_abs_as_u256_def)
qed

lemma i256_from_i64_sint: "sint (i256_raw (i256_from_i64 v)) = sint v"
proof (cases "0 \<le> sint v")
  case True
  then have "sint v = uint v" and "uint v < 2 ^ 63"
    using uint_lt2p [of v] by (auto simp: sint_cases split: if_splits)
  moreover have "uint (ucast v :: u256) = uint v"
    by (rule uint_up_ucast) (simp add: is_up)
  ultimately show ?thesis
    using True by (simp add: i256_from_i64_def sint_cases)
next
  case False
  let ?n = "- sint v"
  have n: "0 < ?n" "?n \<le> 2 ^ 63"
    using False sint_ge [of v] by auto
  let ?w = "- (scast v :: u128)"
  have "uint ?w = ?n"
  proof -
    have "scast v = (word_of_int (sint v) :: u128)" by simp
    then have "?w = word_of_int ?n" by (simp only: wi_hom_neg)
    then have "uint ?w = ?n mod 2 ^ 128" by (simp only: uint_word_of_int) simp
    also have "\<dots> = ?n" by (rule mod_pos_pos_trivial) (use n in auto)
    finally show ?thesis .
  qed
  then have "uint (ucast ?w :: u64) = ?n"
    using n by (subst uint_ucast_small) auto
  then have u: "uint (ucast (ucast ?w :: u64) :: u256) = ?n" (is "uint ?pos = _")
    using n by (subst uint_ucast_small) auto
  then have "?pos \<noteq> 0" using n by auto
  then have "uint (NOT ?pos + 1) = 2 ^ 256 - ?n"
    unfolding not_plus_one using u by (subst uint_minus) auto
  then have "sint (NOT ?pos + 1) = sint v"
    using n by (simp add: sint_cases)
  with False show ?thesis
    by (simp add: i256_from_i64_def Let_def)
qed


section \<open>Hex forms\<close>

lemma checksum_char_lower:
  "is_lower_hexdigit c \<Longrightarrow> to_lower (checksum_char hash i c) = c \<and> is_hexdigit (checksum_char hash i c)"
  unfolding checksum_char_def Let_def
  using to_upper_hexdigit [of c] lower_hexdigit_is_hexdigit [of c] lower_hexdigit_to_lower [of c]
  by auto

lemma to_checksum_lower:
  assumes "hex_codec hex_enc hex_dec"
  shows "map to_lower (to_checksum hex_enc keccak a) = hex_enc (evm_address_bytes a)"
    and "list_all is_hexdigit (to_checksum hex_enc keccak a)"
    and "length (to_checksum hex_enc keccak a) = 2 * length (evm_address_bytes a)"
proof -
  let ?h = "hex_enc (evm_address_bytes a)"
  have low: "list_all is_lower_hexdigit ?h"
    using hex_codec.enc_lower [OF assms] .
  show "map to_lower (to_checksum hex_enc keccak a) = ?h"
    using low checksum_char_lower
    by (auto simp: to_checksum_def Let_def list_all_iff intro!: nth_equalityI)
       (simp add: nth_enumerate_eq)
  show "list_all is_hexdigit (to_checksum hex_enc keccak a)"
    using low checksum_char_lower
    by (auto simp: to_checksum_def Let_def list_all_iff in_set_enumerate_eq)
  show "length (to_checksum hex_enc keccak a) = 2 * length (evm_address_bytes a)"
    using hex_codec.enc_length [OF assms] by (simp add: to_checksum_def Let_def)
qed

section \<open>Properties\<close>

text \<open>
  C3: Printing an EVM address with its EIP-55 checksum and parsing the text gives the address
  back, whatever the hash function capitalises; the lower-case text of a checksummed address is
  its plain hex form, and parsing accepts every other capitalisation of the 40 digits as well.
\<close>

theorem evm_checksum_roundtrip:
  assumes hex: "hex_codec hex_enc hex_dec"
    and wf: "wf_evm_address a"
  shows "evm_address_parse_hex hex_dec (to_checksum_0x hex_enc keccak a) = Ok a \<and>
         map to_lower (to_checksum_0x hex_enc keccak a) = ''0x'' @ hex_enc (evm_address_bytes a) \<and>
         (\<forall>s. list_all is_hexdigit s \<longrightarrow> map to_lower s = map to_lower (to_checksum hex_enc keccak a) \<longrightarrow>
            evm_address_parse_hex hex_dec (''0x'' @ s) = Ok a)"
proof -
  note low = to_checksum_lower [OF hex, of keccak a]
  have parse: "evm_address_parse_hex hex_dec (''0x'' @ s) = Ok a"
    if "list_all is_hexdigit s" "map to_lower s = hex_enc (evm_address_bytes a)" for s
  proof -
    have "hex_dec s = Inr (evm_address_bytes a)"
      using that hex_codec.dec_iff [OF hex] by simp
    moreover have "length s = 40"
      using that wf hex_codec.enc_length [OF hex] length_map [of to_lower s]
      by (simp add: wf_evm_address_def)
    ultimately show ?thesis by (simp add: evm_address_parse_hex_def)
  qed
  then show ?thesis using low by (simp add: to_checksum_0x_def)
qed

lemma evm_checksum_roundtrip_witness:
  "evm_address_parse_hex ref_hex_dec
     (to_checksum_0x ref_hex_enc (\<lambda>_. replicate 32 0xa5) (EvmAddress (replicate 20 0xbe))) =
   Ok (EvmAddress (replicate 20 0xbe))"
  using evm_checksum_roundtrip [OF ref_hex.hex_codec_axioms,
      of "EvmAddress (replicate 20 0xbe)" "\<lambda>_. replicate 32 0xa5"]
  by (simp add: wf_evm_address_def)

text \<open>
  C4: \<open>I256\<close> is the signed reading of its raw word: the sign test, the absolute value,
  construction from \<open>i64\<close> (down to its minimum) and the decimal text all agree with the integer
  that the two's complement word denotes.
\<close>

theorem i256_semantics:
  "(i256_is_negative x \<longleftrightarrow> sint (i256_raw x) < 0) \<and>
   (i256_is_positive x \<longleftrightarrow> 0 < sint (i256_raw x)) \<and>
   int (unat (i256_abs_as_u256 x)) = \<bar>sint (i256_raw x)\<bar> \<and>
   sint (i256_raw (i256_from_i64 v)) = sint v \<and>
   i256_display x =
     (if sint (i256_raw x) < 0 then ''-'' else []) @ show_nat (nat \<bar>sint (i256_raw x)\<bar>)"
proof -
  have abs: "int (unat (i256_abs_as_u256 x)) = \<bar>sint (i256_raw x)\<bar>"
    using i256_abs_uint [of x] by simp
  then have nat: "unat (i256_abs_as_u256 x) = nat \<bar>sint (i256_raw x)\<bar>" by linarith
  have pos: "i256_is_positive x \<longleftrightarrow> 0 < sint (i256_raw x)"
    using signed_eq_0_iff [of "i256_raw x"]
    by (auto simp: i256_is_positive_def i256_is_negative_iff i256_is_zero_def not_less order_less_le
        simp del: signed_eq_0_iff)
  show ?thesis
    using abs nat pos i256_from_i64_sint [of v]
    by (auto simp: i256_is_negative_iff i256_display_def i256_abs_as_u256_def)
qed

text \<open>
  The derived order of \<open>I256\<close> compares raw words. It agrees with the signed order between
  values of equal sign and is the reverse of it between values of different sign: every negative
  value is greater than every non-negative one, and \<open>MIN\<close> is greater than \<open>MAX\<close>.
\<close>

theorem i256_derived_order:
  "(i256_is_negative x = i256_is_negative y \<longrightarrow>
     (i256_less x y \<longleftrightarrow> sint (i256_raw x) < sint (i256_raw y))) \<and>
   (i256_is_negative x \<noteq> i256_is_negative y \<longrightarrow>
     (i256_less x y \<longleftrightarrow> sint (i256_raw y) < sint (i256_raw x))) \<and>
   i256_less i256_max i256_min"
proof -
  have c: "sint (i256_raw z) = (if i256_is_negative z then uint (i256_raw z) - 2 ^ 256 else uint (i256_raw z))"
    for z
    using sint_cases [of "i256_raw z"]
    by (auto simp: i256_is_negative_def i256_sign_bit_eq word_le_def)
  have neg: "sint (i256_raw z) < 0 \<and> 2 ^ 255 \<le> uint (i256_raw z)" if "i256_is_negative z" for z
    using that by (simp add: i256_is_negative_iff)
      (use that in \<open>simp add: i256_is_negative_def i256_sign_bit_eq word_le_def\<close>)
  have pos: "0 \<le> sint (i256_raw z) \<and> uint (i256_raw z) < 2 ^ 255" if "\<not> i256_is_negative z" for z
    using that by (simp add: i256_is_negative_iff)
      (use that in \<open>simp add: i256_is_negative_def i256_sign_bit_eq word_le_def\<close>)
  have less: "i256_less x y \<longleftrightarrow> uint (i256_raw x) < uint (i256_raw y)"
    by (simp add: i256_less_def word_less_def)
  show ?thesis
  proof (intro conjI impI)
    assume "i256_is_negative x = i256_is_negative y"
    then show "i256_less x y \<longleftrightarrow> sint (i256_raw x) < sint (i256_raw y)"
      using c [of x] c [of y] unfolding less by (cases "i256_is_negative x") simp_all
  next
    assume neq: "i256_is_negative x \<noteq> i256_is_negative y"
    show "i256_less x y \<longleftrightarrow> sint (i256_raw y) < sint (i256_raw x)"
    proof (cases "i256_is_negative x")
      case True
      with neq neg [of x] pos [of y] show ?thesis unfolding less by linarith
    next
      case False
      with neq neg [of y] pos [of x] show ?thesis unfolding less by linarith
    qed
  next
    show "i256_less i256_max i256_min"
      by (simp add: i256_less_def i256_max_def i256_min_def i256_sign_bit_eq u256_of_limbs_def
          unsigned_minus_1_eq_mask mask_eq_exp_minus_1)
  qed
qed

lemma i256_derived_order_witness:
  "i256_less (i256_from_i64 1) (i256_from_i64 (- 1))"
proof -
  have "i256_is_negative (i256_from_i64 1) \<noteq> i256_is_negative (i256_from_i64 (- 1))"
    and "sint (i256_raw (i256_from_i64 (- 1))) < sint (i256_raw (i256_from_i64 1))"
    by (simp_all add: i256_is_negative_iff i256_from_i64_sint)
  then show ?thesis
    using i256_derived_order [of "i256_from_i64 1" "i256_from_i64 (- 1)"] by blast
qed

end
