(* ===== verification/AbiDecode.thy ===== *)
theory AbiDecode
  imports EvmTypes
begin

text \<open>
  The ABI decoder of \<open>crates/evm-types/src/abi\<close>: the error type of \<open>error.rs\<close>, the \<open>Token\<close> values of
  \<open>types.rs\<close>, and the slot readers and dynamic readers of \<open>decode.rs\<close>. Offsets are \<open>usize\<close>, here
  \<open>nat\<close>: every sum the code forms is bounded by twice the buffer length plus 64, which a buffer
  within Rust's allocation limit keeps far below \<open>2^64\<close>.
\<close>

section \<open>Errors and values\<close>

datatype decode_error =
    BufferTooShort (need: usize) (have_len: usize)
  | OffsetOutOfBounds (oob_offset: usize) (oob_len: usize) (oob_buf_len: usize)
  | InvalidBitWidth u16
  | InvalidBytesNSize byte
  | InvalidBool string
  | WrongTopicCount (expected_topics: usize) (got_topics: usize)
  | Topic0Mismatch (expected_topic0: string) (got_topic0: string)

datatype token =
    TokAddress evm_address
  | TokUint u256
  | TokInt i256
  | TokBool bool
  | TokFixedBytes bytes
  | TokBytes bytes
  | TokString string
  | TokArray "token list"
  | TokTuple "token list"

section \<open>UTF-8\<close>

text \<open>
  \<open>String::from_utf8_lossy\<close> of the standard library: \<open>utf8_chunk\<close> says whether a byte string
  starts with a well-formed UTF-8 sequence, and how many bytes that sequence, or the maximal
  ill-formed prefix, takes. Each ill-formed prefix is replaced by U+FFFD.
\<close>

definition between :: "nat \<Rightarrow> nat \<Rightarrow> byte \<Rightarrow> bool" where
  "between lo hi b = (lo \<le> unat b \<and> unat b \<le> hi)"

definition utf8_second_ok :: "byte \<Rightarrow> byte \<Rightarrow> bool" where
  "utf8_second_ok b c =
     (let n = unat b in
      if n = 0xe0 then between 0xa0 0xbf c
      else if n = 0xed then between 0x80 0x9f c
      else if n = 0xf0 then between 0x90 0xbf c
      else if n = 0xf4 then between 0x80 0x8f c
      else between 0x80 0xbf c)"

fun utf8_conts :: "nat \<Rightarrow> bytes \<Rightarrow> nat" where
  "utf8_conts 0 bs = 0"
| "utf8_conts (Suc n) [] = 0"
| "utf8_conts (Suc n) (b # bs) = (if between 0x80 0xbf b then Suc (utf8_conts n bs) else 0)"

definition utf8_width :: "byte \<Rightarrow> nat" where
  "utf8_width b =
     (if between 0xc2 0xdf b then 2 else if between 0xe0 0xef b then 3
      else if between 0xf0 0xf4 b then 4 else 1)"

definition utf8_chunk :: "byte \<Rightarrow> bytes \<Rightarrow> bool \<times> nat" where
  "utf8_chunk b rest =
     (if unat b < 0x80 then (True, 1)
      else if utf8_width b = 1 then (False, 1)
      else case rest of
          [] \<Rightarrow> (False, 1)
        | c # rest' \<Rightarrow>
            if \<not> utf8_second_ok b c then (False, 1)
            else let k = utf8_conts (utf8_width b - 2) rest' in (k = utf8_width b - 2, 2 + k))"

lemma utf8_chunk_pos: "0 < snd (utf8_chunk b rest)"
  by (auto simp: utf8_chunk_def Let_def split: list.split)

definition string_of_bytes :: "bytes \<Rightarrow> string" where
  "string_of_bytes bs = map (\<lambda>b. char_of (unat b)) bs"

function from_utf8_lossy :: "bytes \<Rightarrow> string" where
  "from_utf8_lossy [] = []"
| "from_utf8_lossy (b # rest) =
     (let (valid, n) = utf8_chunk b rest
      in (if valid then string_of_bytes (take n (b # rest)) else string_of_bytes [0xef, 0xbf, 0xbd])
         @ from_utf8_lossy (drop n (b # rest)))"
  by pat_completeness auto
termination
  by (relation "measure length") (auto, metis utf8_chunk_pos snd_conv diff_less zero_less_Suc)

section \<open>Static slots\<close>

definition require_slot :: "bytes \<Rightarrow> usize \<Rightarrow> (bytes, decode_error) result" where
  "require_slot buf offset =
     (if length buf < offset + 32 then Err (BufferTooShort (offset + 32) (length buf))
      else Ok (slice buf offset (offset + 32)))"

definition validate_int_bits :: "u16 \<Rightarrow> (unit, decode_error) result" where
  "validate_int_bits bits =
     (if \<not> (8 \<le> bits \<and> bits \<le> 256) \<or> bits mod 8 \<noteq> 0 then Err (InvalidBitWidth bits) else Ok ())"

definition decode_address :: "bytes \<Rightarrow> usize \<Rightarrow> (evm_address, decode_error) result" where
  "decode_address buf offset =
     and_then (require_slot buf offset) (\<lambda>slot. Ok (EvmAddress (slice slot 12 32)))"

text \<open>The assertion of \<open>from_be_slice\<close> cannot fail here: a slot has 32 bytes.\<close>

definition decode_uint :: "bytes \<Rightarrow> usize \<Rightarrow> u16 \<Rightarrow> (u256, decode_error) result" where
  "decode_uint buf offset bits =
     and_then (validate_int_bits bits) (\<lambda>_.
     and_then (require_slot buf offset) (\<lambda>slot.
     Ok (the (u256_from_be_slice slot))))"

definition decode_int :: "bytes \<Rightarrow> usize \<Rightarrow> u16 \<Rightarrow> (i256, decode_error) result" where
  "decode_int buf offset bits =
     and_then (validate_int_bits bits) (\<lambda>_.
     and_then (require_slot buf offset) (\<lambda>slot.
     Ok (i256_from_raw (the (u256_from_be_slice slot)))))"

definition decode_bytes_fixed :: "bytes \<Rightarrow> usize \<Rightarrow> byte \<Rightarrow> (bytes, decode_error) result" where
  "decode_bytes_fixed buf offset n =
     (if n = 0 \<or> n > 32 then Err (InvalidBytesNSize n)
      else and_then (require_slot buf offset) (\<lambda>slot. Ok (take (unat n) slot)))"

definition decode_bool :: "hex_encoder \<Rightarrow> bytes \<Rightarrow> usize \<Rightarrow> (bool, decode_error) result" where
  "decode_bool hex_enc buf offset =
     and_then (require_slot buf offset) (\<lambda>slot.
       if slot ! 31 = 0 then
         if list_all (\<lambda>b. b = 0) (take 31 slot) then Ok False else Err (InvalidBool (hex_enc slot))
       else if slot ! 31 = 1 then
         if list_all (\<lambda>b. b = 0) (take 31 slot) then Ok True else Err (InvalidBool (hex_enc slot))
       else Err (InvalidBool (hex_enc slot)))"

section \<open>Dynamic values\<close>

definition usize_from_u256 :: "u256 \<Rightarrow> usize \<Rightarrow> (usize, decode_error) result" where
  "usize_from_u256 v buf_len =
     (if v > word_of_nat buf_len then Err (OffsetOutOfBounds (buf_len + 1) 0 buf_len)
      else Ok (unat (u256_limb0 v)))"

definition read_dynamic_bytes :: "bytes \<Rightarrow> usize \<Rightarrow> (bytes, decode_error) result" where
  "read_dynamic_bytes buf start =
     and_then (decode_uint buf start 256) (\<lambda>len_u256.
     and_then (usize_from_u256 len_u256 (length buf)) (\<lambda>len.
       let data_start = start + 32; data_end = data_start + len in
       if data_end > length buf then Err (OffsetOutOfBounds data_start len (length buf))
       else Ok (slice buf data_start data_end)))"

definition decode_bytes_dynamic :: "bytes \<Rightarrow> usize \<Rightarrow> usize \<Rightarrow> (bytes, decode_error) result" where
  "decode_bytes_dynamic buf head_offset base =
     and_then (decode_uint buf head_offset 256) (\<lambda>ptr_raw.
     and_then (usize_from_u256 ptr_raw (length buf)) (\<lambda>ptr.
       let data_start = base + ptr in read_dynamic_bytes buf data_start))"

definition decode_string :: "bytes \<Rightarrow> usize \<Rightarrow> usize \<Rightarrow> (string, decode_error) result" where
  "decode_string buf head_offset base =
     and_then (decode_bytes_dynamic buf head_offset base) (\<lambda>bytes. Ok (from_utf8_lossy bytes))"

section \<open>Field offsets\<close>

definition resolve_one :: "bytes \<Rightarrow> nat \<times> bool \<Rightarrow> (usize, decode_error) result" where
  "resolve_one buf = (\<lambda>(i, is_dynamic).
     let head_pos = i * 32 in
     if is_dynamic then
       and_then (decode_uint buf head_pos 256) (\<lambda>ptr_raw. usize_from_u256 ptr_raw (length buf))
     else Ok head_pos)"

definition resolve_field_offsets :: "bytes \<Rightarrow> bool list \<Rightarrow> (usize list, decode_error) result" where
  "resolve_field_offsets buf specs =
     (let head_size = length specs * 32 in
      if length buf < head_size then Err (BufferTooShort head_size (length buf))
      else collect_results (resolve_one buf) (enumerate 0 specs))"

section \<open>What the readers compute\<close>

named_theorems slot_simps \<open>Readers on a buffer that is long enough\<close>

text \<open>The number in the 32-byte slot at an offset.\<close>

definition slot_val :: "bytes \<Rightarrow> nat \<Rightarrow> nat" where
  "slot_val buf off = be_val (slice buf off (off + 32))"

lemma require_slot_eq: 
  "require_slot buf off = Ok s \<longleftrightarrow> off + 32 \<le> length buf \<and> s = slice buf off (off + 32)"
  by (auto simp: require_slot_def)

lemma require_slot_ok [slot_simps]:
  "off + 32 \<le> length buf \<Longrightarrow> require_slot buf off = Ok (slice buf off (off + 32))"
  by (simp add: require_slot_def)

lemma validate_256 [simp]: "validate_int_bits 256 = Ok ()"
  by (simp add: validate_int_bits_def)

lemma slot_val_bound: "off + 32 \<le> length buf \<Longrightarrow> slot_val buf off < 2 ^ 256"
  using be_val_bound [of "slice buf off (off + 32)"] by (simp add: slot_val_def)

lemma slot_word: "off + 32 \<le> length buf \<Longrightarrow>
    the (u256_from_be_slice (slice buf off (off + 32))) = word_of_nat (slot_val buf off)"
  by (simp add: u256_from_be_slice_32 slot_val_def)

lemma decode_uint_256: 
  "decode_uint buf off 256 =
    (if off + 32 \<le> length buf then Ok (word_of_nat (slot_val buf off))
     else Err (BufferTooShort (off + 32) (length buf)))"
  by (auto simp: decode_uint_def require_slot_def slot_word)

lemma decode_int_256:
  "decode_int buf off 256 =
    (if off + 32 \<le> length buf then Ok (I256 (word_of_nat (slot_val buf off)))
     else Err (BufferTooShort (off + 32) (length buf)))"
  by (auto simp: decode_int_def require_slot_def slot_word i256_from_raw_def)

lemma usize_from_u256_nat:
  assumes "n < 2 ^ 256" and "len < 2 ^ 64"
  shows "usize_from_u256 (word_of_nat n) len =
    (if n \<le> len then Ok n else Err (OffsetOutOfBounds (len + 1) 0 len))"
proof -
  have n: "unat (word_of_nat n :: u256) = n"
    using assms(1) by (simp add: unat_of_nat)
  have l: "unat (word_of_nat len :: u256) = len"
    using assms(2) by (simp add: unat_of_nat)
  have "word_of_nat len < (word_of_nat n :: u256) \<longleftrightarrow> len < n"
    by (simp only: word_less_nat_alt n l)
  moreover have "unat (u256_limb0 (word_of_nat n)) = n" if "n \<le> len"
    using that assms unat_ucast_small [of "word_of_nat n :: u256", where 'b = 64]
    by (simp add: u256_limb0_def n)
  ultimately show ?thesis by (auto simp: usize_from_u256_def)
qed

lemma read_dynamic_bytes_eq:
  assumes "length buf < 2 ^ 64"
  shows "read_dynamic_bytes buf start =
    (if length buf < start + 32 then Err (BufferTooShort (start + 32) (length buf))
     else if length buf < slot_val buf start then Err (OffsetOutOfBounds (length buf + 1) 0 (length buf))
     else if length buf < start + 32 + slot_val buf start
       then Err (OffsetOutOfBounds (start + 32) (slot_val buf start) (length buf))
     else Ok (slice buf (start + 32) (start + 32 + slot_val buf start)))"
  using assms slot_val_bound [of start buf]
  by (auto simp: read_dynamic_bytes_def decode_uint_256 usize_from_u256_nat Let_def)


lemma decode_bytes_dynamic_eq:
  assumes "length buf < 2 ^ 64"
  shows "decode_bytes_dynamic buf head 0 =
    (if length buf < head + 32 then Err (BufferTooShort (head + 32) (length buf))
     else if length buf < slot_val buf head then Err (OffsetOutOfBounds (length buf + 1) 0 (length buf))
     else read_dynamic_bytes buf (slot_val buf head))"
  using assms slot_val_bound [of head buf]
  by (auto simp: decode_bytes_dynamic_def decode_uint_256 usize_from_u256_nat Let_def)

lemma utf8_conts_le: "utf8_conts n bs \<le> n" and utf8_conts_len: "utf8_conts n bs \<le> length bs"
  by (induction n bs rule: utf8_conts.induct) auto

lemma utf8_conts_full: "utf8_conts n bs = n \<Longrightarrow> utf8_conts n (take n bs @ xs) = n"
proof (induction n bs rule: utf8_conts.induct)
  case (3 n b bs)
  then show ?case by (auto split: if_splits)
qed auto

lemma utf8_chunk_len: "snd (utf8_chunk b rest) \<le> Suc (length rest)"
  by (cases rest) (auto simp: utf8_chunk_def Let_def utf8_conts_len)

lemma utf8_chunk_local:
  assumes "utf8_chunk b rest = (True, n)"
  shows "utf8_chunk b (take (n - 1) rest @ xs) = (True, n)"
proof (cases "unat b < 0x80")
  case True
  with assms show ?thesis by (auto simp: utf8_chunk_def)
next
  case False
  from assms False obtain c rest' where rest: "rest = c # rest'"
    by (cases rest) (auto simp: utf8_chunk_def split: if_splits)
  from assms False rest
  have w: "utf8_width b \<noteq> 1" and ok: "utf8_second_ok b c"
    and k: "utf8_conts (utf8_width b - 2) rest' = utf8_width b - 2"
    and n: "n = 2 + (utf8_width b - 2)"
    by (auto simp: utf8_chunk_def Let_def split: if_splits)
  have "take (n - 1) rest @ xs = c # take (utf8_width b - 2) rest' @ xs"
    using rest n by simp
  moreover have "utf8_conts (utf8_width b - 2) (take (utf8_width b - 2) rest' @ xs) = utf8_width b - 2"
    using k by (rule utf8_conts_full)
  ultimately show ?thesis
    using False ok n w by (simp add: utf8_chunk_def)
qed

lemma bytes_of_string_of_bytes [simp]: "bytes_of_string (string_of_bytes bs) = bs"
  using unat_byte_lt by (induction bs) (simp_all add: bytes_of_string_def string_of_bytes_def)

lemma bytes_of_string_append [simp]:
  "bytes_of_string (s @ t) = bytes_of_string s @ bytes_of_string t"
  by (simp add: bytes_of_string_def)

lemma lossy_valid_chunk:
  assumes "utf8_chunk b rest = (True, n)"
  shows "from_utf8_lossy (take n (b # rest) @ xs) = string_of_bytes (take n (b # rest)) @ from_utf8_lossy xs"
proof -
  have n: "0 < n" "n \<le> Suc (length rest)"
    using utf8_chunk_pos [of b rest] utf8_chunk_len [of b rest] assms by auto
  then have t: "take n (b # rest) @ xs = b # take (n - 1) rest @ xs"
    by (cases n) auto
  have "from_utf8_lossy (b # take (n - 1) rest @ xs) =
      string_of_bytes (take n (b # take (n - 1) rest @ xs)) @ from_utf8_lossy (drop n (b # take (n - 1) rest @ xs))"
    using utf8_chunk_local [OF assms, of xs] by simp
  then show ?thesis using n by (simp only: flip: t) simp
qed

lemma utf8_replacement_chunk: "utf8_chunk 0xef [0xbf, 0xbd] = (True, 3)"
  by code_simp

section \<open>Properties\<close>

text \<open>
  C5: Reading a dynamic value at the top level succeeds exactly when the head slot, the length
  slot it points to and the announced bytes all lie inside the buffer, and then returns exactly
  those bytes; every failure says either that the buffer is shorter than a slot that was read or
  that an offset points past its end. No read is ever out of bounds.
\<close>

theorem abi_dynamic_decode:
  assumes "length buf < 2 ^ 64"
  shows "(decode_bytes_dynamic buf head 0 = Ok bs \<longleftrightarrow>
           head + 32 \<le> length buf \<and>
           slot_val buf head + 32 + slot_val buf (slot_val buf head) \<le> length buf \<and>
           bs = slice buf (slot_val buf head + 32)
                  (slot_val buf head + 32 + slot_val buf (slot_val buf head))) \<and>
         (decode_bytes_dynamic buf head 0 = Err e \<longrightarrow>
           (\<exists>n. e = BufferTooShort n (length buf) \<and> length buf < n) \<or>
           (\<exists>offset len. e = OffsetOutOfBounds offset len (length buf) \<and> length buf < offset + len))"
  using assms by (auto simp: decode_bytes_dynamic_eq read_dynamic_bytes_eq)

lemma abi_dynamic_decode_witness:
  "decode_bytes_dynamic (be_bytes 32 32 @ be_bytes 32 2 @ [0x68, 0x69]) 0 0 = Ok [0x68, 0x69]"
proof -
  let ?buf = "be_bytes 32 32 @ be_bytes 32 2 @ [0x68, 0x69]"
  have "slot_val ?buf 0 = 32" and "slot_val ?buf 32 = 2"
    by (simp_all add: slot_val_def slice_def)
  moreover have "slice ?buf 64 66 = [0x68, 0x69]"
    by (simp add: slice_def)
  ultimately show ?thesis
    using abi_dynamic_decode [of ?buf 0 "[0x68, 0x69]"] by simp
qed

text \<open>
  C6: For a dynamic field, \<open>resolve_field_offsets\<close> returns the position of the length prefix,
  so the field is what \<open>read_dynamic_bytes\<close> reads there, which is what \<open>decode_bytes_dynamic\<close>
  reads at the head slot. Passing the returned offset to \<open>decode_bytes_dynamic\<close> itself, as the
  documentation of the function tells callers to do, follows the length as if it were a pointer and
  fails on a well-formed buffer.
\<close>

theorem resolve_offsets_meaning:
  "(length buf < 2 ^ 64 \<longrightarrow> resolve_field_offsets buf specs = Ok offs \<longrightarrow> i < length specs \<longrightarrow>
      (if specs ! i then decode_bytes_dynamic buf (i * 32) 0 = read_dynamic_bytes buf (offs ! i)
       else offs ! i = i * 32 \<and> offs ! i + 32 \<le> length buf)) \<and>
   (let doc = be_bytes 32 32 @ be_bytes 32 3 @ [0x61, 0x62, 0x63] in
      resolve_field_offsets doc [True] = Ok [32] \<and>
      decode_bytes_dynamic doc 0 0 = Ok [0x61, 0x62, 0x63] \<and>
      (\<exists>e. decode_bytes_dynamic doc 32 0 = Err e))"
proof -
  have A: "if specs ! i then decode_bytes_dynamic buf (i * 32) 0 = read_dynamic_bytes buf (offs ! i)
       else offs ! i = i * 32 \<and> offs ! i + 32 \<le> length buf"
    if len: "length buf < 2 ^ 64" and ok: "resolve_field_offsets buf specs = Ok offs" and i: "i < length specs"
  proof -
    have "list_all2 (\<lambda>x y. resolve_one buf x = Ok y) (enumerate 0 specs) offs"
      and head: "length specs * 32 \<le> length buf"
      using ok by (auto simp: resolve_field_offsets_def Let_def collect_results_Ok split: if_splits)
    then have one: "resolve_one buf (i, specs ! i) = Ok (offs ! i)"
      using i by (auto simp: list_all2_conv_all_nth nth_enumerate_eq)
    have fits: "i * 32 + 32 \<le> length buf"
      using head i by linarith
    show ?thesis
    proof (cases "specs ! i")
      case True
      with one fits len slot_val_bound [OF fits]
      show ?thesis
        by (simp add: resolve_one_def decode_uint_256 usize_from_u256_nat decode_bytes_dynamic_eq
            split: if_splits)
    next
      case False
      with one fits show ?thesis by (simp add: resolve_one_def)
    qed
  qed
  have B: "let doc = be_bytes 32 32 @ be_bytes 32 3 @ [0x61, 0x62, 0x63] in
      resolve_field_offsets doc [True] = Ok [32] \<and>
      decode_bytes_dynamic doc 0 0 = Ok [0x61, 0x62, 0x63] \<and>
      (\<exists>e. decode_bytes_dynamic doc 32 0 = Err e)"
  proof -
    let ?doc = "be_bytes 32 32 @ be_bytes 32 3 @ [0x61, 0x62, 0x63]"
    have v: "slot_val ?doc 0 = 32" "slot_val ?doc 32 = 3"
      by (simp_all add: slot_val_def slice_def)
    have s: "slice ?doc 64 67 = [0x61, 0x62, 0x63]" by (simp add: slice_def)
    have "slice ?doc 3 35 = replicate 28 0 @ [32] @ replicate 3 0"
      by (simp add: slice_def be_bytes_small [of _ 31, simplified])
    then have w: "slot_val ?doc 3 = 536870912"
      by (simp add: slot_val_def be_val_append be_val_Cons del: append.simps)
    have len: "length ?doc = 67" by simp
    have "usize_from_u256 (word_of_nat 32) 67 = Ok 32"
      by (subst usize_from_u256_nat) simp_all
    then have "resolve_field_offsets ?doc [True] = Ok [32]"
      by (simp add: resolve_field_offsets_def resolve_one_def decode_uint_256 len v
          del: length_append)
    moreover have "decode_bytes_dynamic ?doc 0 0 = Ok [0x61, 0x62, 0x63]"
      by (simp add: decode_bytes_dynamic_eq read_dynamic_bytes_eq len v s del: length_append)
    moreover have "decode_bytes_dynamic ?doc 32 0 = Err (OffsetOutOfBounds 68 0 67)"
      by (simp add: decode_bytes_dynamic_eq read_dynamic_bytes_eq len v w del: length_append)
    ultimately show ?thesis by (simp add: Let_def)
  qed
  show ?thesis using A B by blast
qed

lemma resolve_offsets_meaning_witness:
  "decode_bytes_dynamic (be_bytes 32 32 @ be_bytes 32 0) 0 0 =
   read_dynamic_bytes (be_bytes 32 32 @ be_bytes 32 0) 32"
proof -
  let ?buf = "be_bytes 32 32 @ be_bytes 32 0"
  have v: "slot_val ?buf 0 = 32"
    by (simp add: slot_val_def slice_def)
  have "usize_from_u256 (word_of_nat 32) 64 = Ok 32"
    by (subst usize_from_u256_nat) simp_all
  then have "resolve_field_offsets ?buf [True] = Ok [32]"
    by (simp add: resolve_field_offsets_def resolve_one_def decode_uint_256 v [simplified])
  then show ?thesis
    using resolve_offsets_meaning [of ?buf "[True]" "[32]" 0] by simp
qed

text \<open>
  A decoded Solidity string is always well-formed UTF-8: lossy decoding leaves its own output
  unchanged. ASCII data is returned as it is.
\<close>

theorem utf8_lossy_idem:
  "from_utf8_lossy (bytes_of_string (from_utf8_lossy bs)) = from_utf8_lossy bs \<and>
   ((\<forall>b \<in> set bs. unat b < 128) \<longrightarrow> from_utf8_lossy bs = string_of_bytes bs)"
proof (induction bs rule: from_utf8_lossy.induct)
  case 1
  then show ?case by (simp add: bytes_of_string_def string_of_bytes_def)
next
  case (2 b rest)
  obtain v n where c: "utf8_chunk b rest = (v, n)" by (cases "utf8_chunk b rest")
  note IH = "2.IH" [OF c [symmetric] refl]
  have idem: "from_utf8_lossy (bytes_of_string (from_utf8_lossy (b # rest))) = from_utf8_lossy (b # rest)"
  proof (cases v)
    case True
    with c IH lossy_valid_chunk [of b rest n] show ?thesis by simp
  next
    case False
    with c IH lossy_valid_chunk [OF utf8_replacement_chunk] show ?thesis by simp
  qed
  moreover have "from_utf8_lossy (b # rest) = string_of_bytes (b # rest)"
    if "\<forall>x \<in> set (b # rest). unat x < 128"
  proof -
    have "v" and "n = 1" using that c by (auto simp: utf8_chunk_def)
    with that c IH show ?thesis by (simp add: string_of_bytes_def)
  qed
  ultimately show ?case by blast
qed

lemma utf8_lossy_idem_witness: "from_utf8_lossy [0x68, 0x69] = ''hi''"
proof -
  have "string_of_bytes [0x68, 0x69] = ''hi''" by code_simp
  moreover have "\<forall>b \<in> set [0x68, 0x69 :: byte]. unat b < 128" by simp
  ultimately show ?thesis using utf8_lossy_idem [of "[0x68, 0x69]"] by metis
qed

end
