(* ===== verification/EventSignature.thy ===== *)
theory EventSignature
  imports AbiDecode
begin

text \<open>
  The \<open>event_signature!\<close> macro (\<open>crates/evm-types-macros/src\<close>): the parser for event declarations
  of \<open>parse.rs\<close>, and what the generated code of \<open>generate.rs\<close> does, given as an interpreter over the
  parsed declaration: the canonical signature, its hash, and \<open>decode_log\<close>. A decoded struct is the
  list of its fields in declaration order. The token stream is the one \<open>syn\<close> delivers: \<open>TkIdent\<close>
  is a token that \<open>syn\<close> accepts as an identifier (not a Rust keyword).
\<close>

section \<open>Declarations\<close>

datatype sol_type =
    SolAddress | SolBool | SolUint u16 | SolInt u16 | SolBytesFixed byte | SolBytes | SolString

record event_param =
  p_ty :: sol_type
  p_indexed :: bool
  p_name :: string

record event_decl =
  ev_name :: string
  ev_params :: "event_param list"

definition canonical_type :: "sol_type \<Rightarrow> string" where
  "canonical_type ty = (case ty of
     SolAddress \<Rightarrow> ''address''
   | SolBool \<Rightarrow> ''bool''
   | SolUint n \<Rightarrow> ''uint'' @ show_nat (unat n)
   | SolInt n \<Rightarrow> ''int'' @ show_nat (unat n)
   | SolBytesFixed n \<Rightarrow> ''bytes'' @ show_nat (unat n)
   | SolBytes \<Rightarrow> ''bytes''
   | SolString \<Rightarrow> ''string'')"

definition sol_is_dynamic :: "sol_type \<Rightarrow> bool" where
  "sol_is_dynamic ty = (case ty of SolBytes \<Rightarrow> True | SolString \<Rightarrow> True | _ \<Rightarrow> False)"

section \<open>Parsing\<close>

datatype tk = TkIdent string | TkLit string | TkComma | TkSemi | TkParens "tk list" | TkOther

datatype parse_error = SynExpected | Msg string

definition parse_ident :: "tk list \<Rightarrow> (string \<times> tk list, parse_error) result" where
  "parse_ident ts = (case ts of TkIdent s # rest \<Rightarrow> Ok (s, rest) | _ \<Rightarrow> Err SynExpected)"

definition int_width :: "string \<Rightarrow> string \<Rightarrow> (u16, parse_error) result" where
  "int_width kind rest =
     (case parse_uint (2 ^ 16) rest of
        None \<Rightarrow> Err (Msg (''invalid '' @ kind @ '' bit-width: `'' @ rest @ ''`''))
      | Some v \<Rightarrow>
          let n = word_of_nat v :: u16 in
          if \<not> (8 \<le> n \<and> n \<le> 256) \<or> n mod 8 \<noteq> 0
          then Err (Msg (kind @ '' bit-width must be 8..=256 and a multiple of 8, got '' @ show_nat (unat n)))
          else Ok n)"

definition sol_type_of_ident :: "string \<Rightarrow> (sol_type, parse_error) result" where
  "sol_type_of_ident s =
     (if s = ''address'' then Ok SolAddress
      else if s = ''bool'' then Ok SolBool
      else if s = ''bytes'' then Ok SolBytes
      else if s = ''string'' then Ok SolString
      else case strip_prefix ''uint'' s of
        Some rest \<Rightarrow>
          if rest = [] then Ok (SolUint 256)
          else and_then (int_width ''uint'' rest) (\<lambda>n. Ok (SolUint n))
      | None \<Rightarrow> (case strip_prefix ''int'' s of
        Some rest \<Rightarrow>
          if rest = [] then Ok (SolInt 256)
          else and_then (int_width ''int'' rest) (\<lambda>n. Ok (SolInt n))
      | None \<Rightarrow> (case strip_prefix ''bytes'' s of
        Some rest \<Rightarrow>
          (case parse_uint (2 ^ 8) rest of
             None \<Rightarrow> Err (Msg (''invalid bytesN size: `'' @ rest @ ''`''))
           | Some v \<Rightarrow>
               let n = word_of_nat v :: byte in
               if n = 0 \<or> n > 32 then Err (Msg (''bytesN size must be 1..=32, got '' @ show_nat (unat n)))
               else Ok (SolBytesFixed n))
      | None \<Rightarrow> Err (Msg (''unsupported Solidity type `'' @ s @
          ''` '' @ [CHR 0xE2, CHR 0x80, CHR 0x94] @ '' supported: address, bool, uint<N>, int<N>, bytes<N>, bytes, string'')))))"

definition parse_sol_type :: "tk list \<Rightarrow> (sol_type \<times> tk list, parse_error) result" where
  "parse_sol_type ts = (case ts of
     TkLit s # rest \<Rightarrow> Err (Msg ''string literal event signature syntax not supported in this position'')
   | _ \<Rightarrow> and_then (parse_ident ts) (\<lambda>(s, rest).
           and_then (sol_type_of_ident s) (\<lambda>ty. Ok (ty, rest))))"

definition take_indexed :: "tk list \<Rightarrow> bool \<times> tk list" where
  "take_indexed rest = (case rest of
     TkIdent s # r \<Rightarrow> if s = ''indexed'' then (True, r) else (False, rest)
   | _ \<Rightarrow> (False, rest))"

definition parse_event_param :: "tk list \<Rightarrow> (event_param \<times> tk list, parse_error) result" where
  "parse_event_param ts =
     and_then (parse_sol_type ts) (\<lambda>(ty, rest).
       let (indexed, rest') = take_indexed rest
       in and_then (parse_ident rest') (\<lambda>(name, rest'').
          Ok (\<lparr>p_ty = ty, p_indexed = indexed, p_name = name\<rparr>, rest'')))"

lemma parse_ident_shorter: "parse_ident ts = Ok (s, rest) \<Longrightarrow> length rest < length ts"
  by (auto simp: parse_ident_def split: list.splits tk.splits)

lemma parse_sol_type_shorter: "parse_sol_type ts = Ok (ty, rest) \<Longrightarrow> length rest < length ts"
  using parse_ident_shorter [of ts _ rest]
  by (cases ts) (fastforce simp: parse_sol_type_def and_then_eq_Inr split: tk.splits)+

lemma take_indexed_shorter: "length (snd (take_indexed ts)) \<le> length ts"
  by (auto simp: take_indexed_def split: list.splits tk.splits)

lemma parse_event_param_shorter:
  assumes "parse_event_param ts = Ok (p, rest)"
  shows "length rest < length ts"
proof -
  obtain ty r s where "parse_sol_type ts = Ok (ty, r)" "parse_ident (snd (take_indexed r)) = Ok (s, rest)"
    using assms by (auto simp: parse_event_param_def and_then_eq_Inr case_prod_unfold Let_def)
  then show ?thesis
    using take_indexed_shorter [of r] by (auto dest!: parse_sol_type_shorter parse_ident_shorter)
qed

text \<open>\<open>Punctuated::parse_terminated\<close> with commas, where a trailing comma is allowed.\<close>

function parse_params :: "tk list \<Rightarrow> (event_param list, parse_error) result" where
  "parse_params ts =
     (if ts = [] then Ok []
      else case parse_event_param ts of
        Inl e \<Rightarrow> Err e
      | Inr (p, rest) \<Rightarrow>
          (case rest of
             [] \<Rightarrow> Ok [p]
           | TkComma # rest' \<Rightarrow> and_then (parse_params rest') (\<lambda>ps. Ok (p # ps))
           | _ \<Rightarrow> Err SynExpected))"
  by pat_completeness auto
termination
  by (relation "measure length") (auto dest!: parse_event_param_shorter)

declare parse_params.simps [simp del]

definition parse_event_decl :: "tk list \<Rightarrow> (event_decl \<times> tk list, parse_error) result" where
  "parse_event_decl ts =
     and_then (parse_ident ts) (\<lambda>(kw, ts1).
     if kw \<noteq> ''event'' then Err (Msg ''expected `event` keyword'')
     else and_then (parse_ident ts1) (\<lambda>(name, ts2).
       case ts2 of
         TkParens content # ts3 \<Rightarrow>
           and_then (parse_params content) (\<lambda>raw_params.
             let ts4 = (case ts3 of TkSemi # r \<Rightarrow> r | _ \<Rightarrow> ts3)
             in Ok (\<lparr>ev_name = name, ev_params = raw_params\<rparr>, ts4))
       | _ \<Rightarrow> Err SynExpected))"

text \<open>\<open>parse_macro_input!\<close> refuses tokens after the declaration.\<close>

definition event_signature_input :: "tk list \<Rightarrow> (event_decl, parse_error) result" where
  "event_signature_input ts =
     and_then (parse_event_decl ts) (\<lambda>(decl, rest). if rest = [] then Ok decl else Err SynExpected)"

section \<open>Generated code\<close>

fun join :: "string \<Rightarrow> string list \<Rightarrow> string" where
  "join sep [] = []"
| "join sep [s] = s"
| "join sep (s # t # ss) = s @ sep @ join sep (t # ss)"

definition canonical_signature :: "event_decl \<Rightarrow> string" where
  "canonical_signature decl =
     ev_name decl @ ''('' @ join '','' (map (\<lambda>p. canonical_type (p_ty p)) (ev_params decl)) @ '')''"

definition signature_hash :: "hash_fn \<Rightarrow> event_decl \<Rightarrow> b256" where
  "signature_hash keccak decl = B256 (keccak (bytes_of_string (canonical_signature decl)))"

definition decode_indexed :: "hex_encoder \<Rightarrow> sol_type \<Rightarrow> b256 \<Rightarrow> (token, decode_error) result" where
  "decode_indexed hex_enc ty topic =
     (let slot = b256_bytes topic in
      case ty of
        SolAddress \<Rightarrow> and_then (decode_address slot 0) (\<lambda>v. Ok (TokAddress v))
      | SolBool \<Rightarrow> and_then (decode_bool hex_enc slot 0) (\<lambda>v. Ok (TokBool v))
      | SolUint _ \<Rightarrow> and_then (decode_uint slot 0 256) (\<lambda>v. Ok (TokUint v))
      | SolInt _ \<Rightarrow> and_then (decode_int slot 0 256) (\<lambda>v. Ok (TokInt v))
      | SolBytesFixed n \<Rightarrow> and_then (decode_bytes_fixed slot 0 n) (\<lambda>v. Ok (TokFixedBytes v))
      | SolBytes \<Rightarrow> Err (InvalidBitWidth 0)
      | SolString \<Rightarrow> Err (InvalidBitWidth 0))"

definition decode_non_indexed_at_offset ::
    "hex_encoder \<Rightarrow> bytes \<Rightarrow> sol_type \<Rightarrow> nat \<Rightarrow> (token, decode_error) result" where
  "decode_non_indexed_at_offset hex_enc data ty field_idx =
     (let head_offset = field_idx * 32 in
      case ty of
        SolAddress \<Rightarrow> and_then (decode_address data head_offset) (\<lambda>v. Ok (TokAddress v))
      | SolBool \<Rightarrow> and_then (decode_bool hex_enc data head_offset) (\<lambda>v. Ok (TokBool v))
      | SolUint _ \<Rightarrow> and_then (decode_uint data head_offset 256) (\<lambda>v. Ok (TokUint v))
      | SolInt _ \<Rightarrow> and_then (decode_int data head_offset 256) (\<lambda>v. Ok (TokInt v))
      | SolBytesFixed n \<Rightarrow> and_then (decode_bytes_fixed data head_offset n) (\<lambda>v. Ok (TokFixedBytes v))
      | SolBytes \<Rightarrow> and_then (decode_bytes_dynamic data head_offset 0) (\<lambda>v. Ok (TokBytes v))
      | SolString \<Rightarrow> and_then (decode_string data head_offset 0) (\<lambda>v. Ok (TokString v)))"

definition indexed_params :: "event_decl \<Rightarrow> event_param list" where
  "indexed_params decl = filter p_indexed (ev_params decl)"

definition non_indexed_params :: "event_decl \<Rightarrow> event_param list" where
  "non_indexed_params decl = filter (\<lambda>p. \<not> p_indexed p) (ev_params decl)"

definition expected_topic_count :: "event_decl \<Rightarrow> nat" where
  "expected_topic_count decl = 1 + length (indexed_params decl)"

definition check_topic0 ::
    "hex_encoder \<Rightarrow> hash_fn \<Rightarrow> event_decl \<Rightarrow> typed_raw_log \<Rightarrow> (unit, decode_error) result" where
  "check_topic0 hex_enc keccak decl log =
     and_then (ok_or (WrongTopicCount (expected_topic_count decl) 0) (topic0 log)) (\<lambda>t0.
       if t0 \<noteq> signature_hash keccak decl
       then Err (Topic0Mismatch (b256_display hex_enc (signature_hash keccak decl)) (b256_display hex_enc t0))
       else if length (trl_topics log) \<noteq> expected_topic_count decl
       then Err (WrongTopicCount (expected_topic_count decl) (length (trl_topics log)))
       else Ok ())"

text \<open>
  The generated \<open>let\<close> bindings run over the indexed parameters first, then over the others, and
  the struct literal reads the bindings by name, in declaration order.
\<close>

definition decode_log ::
    "hex_encoder \<Rightarrow> hash_fn \<Rightarrow> event_decl \<Rightarrow> typed_raw_log \<Rightarrow> ((string \<times> token) list, decode_error) result" where
  "decode_log hex_enc keccak decl log =
     and_then (check_topic0 hex_enc keccak decl log) (\<lambda>_.
     and_then (collect_results
        (\<lambda>(i, p). decode_indexed hex_enc (p_ty p) (trl_topics log ! (i + 1)))
        (enumerate 0 (indexed_params decl))) (\<lambda>ixs.
     and_then (collect_results
        (\<lambda>(i, p). decode_non_indexed_at_offset hex_enc (trl_data log) (p_ty p) i)
        (enumerate 0 (non_indexed_params decl))) (\<lambda>nixs.
     let bindings = zip (map p_name (indexed_params decl)) ixs @
                    zip (map p_name (non_indexed_params decl)) nixs
     in Ok (map (\<lambda>p. (p_name p, the (map_of (rev bindings) (p_name p)))) (ev_params decl)))))"


section \<open>Well-formed declarations and their tokens\<close>

fun wf_sol_type :: "sol_type \<Rightarrow> bool" where
  "wf_sol_type (SolUint n) = (8 \<le> n \<and> n \<le> 256 \<and> n mod 8 = 0)"
| "wf_sol_type (SolInt n) = (8 \<le> n \<and> n \<le> 256 \<and> n mod 8 = 0)"
| "wf_sol_type (SolBytesFixed n) = (n \<noteq> 0 \<and> n \<le> 32)"
| "wf_sol_type _ = True"

text \<open>A declaration as Solidity source prints it.\<close>

definition param_tokens :: "event_param \<Rightarrow> tk list" where
  "param_tokens p =
     TkIdent (canonical_type (p_ty p)) #
     (if p_indexed p then [TkIdent ''indexed''] else []) @ [TkIdent (p_name p)]"

fun params_tokens :: "event_param list \<Rightarrow> tk list" where
  "params_tokens [] = []"
| "params_tokens [p] = param_tokens p"
| "params_tokens (p # q # ps) = param_tokens p @ TkComma # params_tokens (q # ps)"

definition event_tokens :: "event_decl \<Rightarrow> tk list" where
  "event_tokens d =
     [TkIdent ''event'', TkIdent (ev_name d), TkParens (params_tokens (ev_params d)), TkSemi]"

definition wf_param :: "event_param \<Rightarrow> bool" where
  "wf_param p = (wf_sol_type (p_ty p) \<and> (p_indexed p \<or> p_name p \<noteq> ''indexed''))"

lemma parse_uint_unat [simp]:
  "parse_uint (2 ^ 16) (show_nat (unat (n :: u16))) = Some (unat n)"
  "parse_uint (2 ^ 8) (show_nat (unat (b :: byte))) = Some (unat b)"
  using unsigned_less [of n, where 'a = nat] unsigned_less [of b, where 'a = nat]
  by (simp_all add: parse_uint_show_nat)

lemma int_width_show: "8 \<le> n \<Longrightarrow> n \<le> 256 \<Longrightarrow> n mod 8 = 0 \<Longrightarrow> int_width k (show_nat (unat n)) = Ok n"
  unfolding int_width_def parse_uint_unat by simp

lemma int_width_Ok: "int_width k r = Ok n \<Longrightarrow> 8 \<le> n \<and> n \<le> 256 \<and> n mod 8 = 0"
  by (auto simp: int_width_def Let_def split: option.splits if_splits)

lemma sol_type_of_canonical: "wf_sol_type ty \<Longrightarrow> sol_type_of_ident (canonical_type ty) = Ok ty"
proof (induction ty rule: wf_sol_type.induct)
  case (3 n)
  then show ?case
    using parse_uint_unat(2) [of n] by (simp add: sol_type_of_ident_def canonical_type_def not_less Let_def)
qed (simp_all add: sol_type_of_ident_def canonical_type_def int_width_show)

lemma sol_type_of_ident_wf: "sol_type_of_ident s = Ok ty \<Longrightarrow> wf_sol_type ty"
  by (auto simp: sol_type_of_ident_def and_then_eq_Inr Let_def not_less
      dest!: int_width_Ok del: mod_0_imp_dvd split: if_splits option.splits)

lemma parse_param_tokens: "wf_param p \<Longrightarrow> parse_event_param (param_tokens p @ ts) = Ok (p, ts)"
  by (cases p) (auto simp: wf_param_def param_tokens_def parse_event_param_def parse_sol_type_def
      parse_ident_def take_indexed_def sol_type_of_canonical)

lemma param_tokens_not_Nil [simp]: "param_tokens p \<noteq> []"
  by (simp add: param_tokens_def)

lemma parse_params_tokens: "list_all wf_param ps \<Longrightarrow> parse_params (params_tokens ps) = Ok ps"
proof (induction ps rule: params_tokens.induct)
  case 1
  show ?case by (simp add: parse_params.simps)
next
  case (2 p)
  then show ?case
    using parse_param_tokens [of p "[]"] by (simp add: parse_params.simps)
next
  case (3 p q ps)
  then show ?case
    by (simp add: parse_params.simps [of "param_tokens p @ ts" for ts] parse_param_tokens)
qed

lemma parse_params_wf: "parse_params ts = Ok ps \<Longrightarrow> list_all (\<lambda>p. wf_sol_type (p_ty p)) ps"
proof (induction ts arbitrary: ps rule: parse_params.induct)
  case (1 ts)
  have one: "wf_sol_type (p_ty p)" if "parse_event_param ts = Ok (p, rest)" for p rest
    using that
    by (auto simp: parse_event_param_def parse_sol_type_def and_then_eq_Inr case_prod_unfold Let_def
        dest!: sol_type_of_ident_wf split: list.splits tk.splits)
  show ?case
  proof (cases "ts = []")
    case True
    with "1.prems" show ?thesis by (simp add: parse_params.simps)
  next
    case False
    then obtain p rest where p: "parse_event_param ts = Ok (p, rest)"
      using "1.prems" by (subst (asm) parse_params.simps) (auto split: sum.splits)
    with False "1.prems" consider "rest = []" "ps = [p]"
      | rest' ps' where "rest = TkComma # rest'" "parse_params rest' = Ok ps'" "ps = p # ps'"
      by (subst (asm) parse_params.simps) (auto simp: and_then_eq_Inr split: list.splits tk.splits)
    then show ?thesis
    proof cases
      case 1
      then show ?thesis using one [OF p] by simp
    next
      case 2
      then show ?thesis using one [OF p] "1.IH" [OF False p refl 2(1) refl 2(2)] by simp
    qed
  qed
qed

section \<open>ABI encoding of events\<close>

text \<open>
  The reference encoder of the ABI specification, for the values a declaration can carry: one
  32-byte head slot per value, holding a static value or the position of a dynamic one, then the
  tails. Only the properties below use it; the program has no encoder.
\<close>

fun token_ok :: "sol_type \<Rightarrow> token \<Rightarrow> bool" where
  "token_ok SolAddress (TokAddress a) = wf_evm_address a"
| "token_ok SolBool (TokBool b) = True"
| "token_ok (SolUint _) (TokUint v) = True"
| "token_ok (SolInt _) (TokInt v) = True"
| "token_ok (SolBytesFixed n) (TokFixedBytes bs) = (n \<noteq> 0 \<and> n \<le> 32 \<and> length bs = unat n)"
| "token_ok SolBytes (TokBytes bs) = True"
| "token_ok SolString (TokString s) = (from_utf8_lossy (bytes_of_string s) = s)"
| "token_ok _ _ = False"

fun static_slot :: "token \<Rightarrow> bytes" where
  "static_slot (TokAddress a) = replicate 12 0 @ evm_address_bytes a"
| "static_slot (TokBool b) = replicate 31 0 @ [if b then 1 else 0]"
| "static_slot (TokUint v) = u256_to_be_bytes v"
| "static_slot (TokInt v) = u256_to_be_bytes (i256_raw v)"
| "static_slot (TokFixedBytes bs) = bs @ replicate (32 - length bs) 0"
| "static_slot _ = []"

definition pad32 :: "bytes \<Rightarrow> bytes" where
  "pad32 bs = bs @ replicate ((32 - length bs mod 32) mod 32) 0"

fun dynamic_payload :: "token \<Rightarrow> bytes" where
  "dynamic_payload (TokBytes bs) = bs"
| "dynamic_payload (TokString s) = bytes_of_string s"
| "dynamic_payload _ = []"

fun is_dynamic_token :: "token \<Rightarrow> bool" where
  "is_dynamic_token (TokBytes bs) = True"
| "is_dynamic_token (TokString s) = True"
| "is_dynamic_token _ = False"

definition enc_tail :: "token \<Rightarrow> bytes" where
  "enc_tail t = (if is_dynamic_token t
     then be_bytes 32 (length (dynamic_payload t)) @ pad32 (dynamic_payload t) else [])"

definition tail_offset :: "token list \<Rightarrow> nat \<Rightarrow> nat" where
  "tail_offset ts i = 32 * length ts + length (concat (map enc_tail (take i ts)))"

definition enc_head :: "token list \<Rightarrow> nat \<Rightarrow> bytes" where
  "enc_head ts i = (if is_dynamic_token (ts ! i) then be_bytes 32 (tail_offset ts i) else static_slot (ts ! i))"

definition abi_encode :: "token list \<Rightarrow> bytes" where
  "abi_encode ts = concat (map (enc_head ts) [0..<length ts]) @ concat (map enc_tail ts)"

lemma static_slot_length: "token_ok ty t \<Longrightarrow> \<not> is_dynamic_token t \<Longrightarrow> length (static_slot t) = 32"
  by (induction ty t rule: token_ok.induct)
     (auto simp: wf_evm_address_def word_le_nat_alt)

lemma length_enc_head:
  "i < length ts \<Longrightarrow> list_all2 token_ok tys ts \<Longrightarrow> length (enc_head ts i) = 32"
  by (auto simp: enc_head_def list_all2_conv_all_nth intro: static_slot_length)

lemma length_concat_blocks: "\<forall>b \<in> set bs. length b = n \<Longrightarrow> length (concat bs) = length bs * n"
  by (induction bs) auto

lemma slice_concat_blocks:
  assumes "\<forall>b \<in> set bs. length b = n" and "i < length bs"
  shows "slice (concat bs @ z) (i * n) (i * n + n) = bs ! i"
proof -
  have len: "length (concat (take i bs)) = i * n"
    using assms by (subst length_concat_blocks [of _ n]) (auto dest: in_set_takeD)
  have "concat bs = concat (take i bs) @ bs ! i @ concat (drop (Suc i) bs)"
    using assms(2) by (metis append.assoc concat.simps(2) concat_append id_take_nth_drop)
  then show ?thesis
    using assms len by (simp add: slice_def)
qed

lemma abi_head:
  assumes "list_all2 token_ok tys ts" and "i < length ts"
  shows "slice (abi_encode ts) (i * 32) (i * 32 + 32) = enc_head ts i"
    and "i * 32 + 32 \<le> length (abi_encode ts)"
proof -
  let ?hs = "map (enc_head ts) [0..<length ts]"
  have blocks: "\<forall>b \<in> set ?hs. length b = 32"
    using length_enc_head assms(1) by auto
  then show "slice (abi_encode ts) (i * 32) (i * 32 + 32) = enc_head ts i"
    using slice_concat_blocks [of ?hs 32 i] assms(2) by (simp add: abi_encode_def)
  have "length (concat ?hs) = length ts * 32"
    using length_concat_blocks [OF blocks] by simp
  then show "i * 32 + 32 \<le> length (abi_encode ts)"
    using assms(2) by (simp add: abi_encode_def)
qed

lemma abi_tail:
  assumes ok: "list_all2 token_ok tys ts" and i: "i < length ts" and dyn: "is_dynamic_token (ts ! i)"
  defines "off \<equiv> tail_offset ts i" and "p \<equiv> dynamic_payload (ts ! i)"
  shows "slice (abi_encode ts) off (off + 32) = be_bytes 32 (length p)"
    and "slice (abi_encode ts) (off + 32) (off + 32 + length p) = p"
    and "off + 32 + length p \<le> length (abi_encode ts)"
proof -
  let ?h = "concat (map (enc_head ts) [0..<length ts])"
  have "length ?h = 32 * length ts"
    using length_enc_head [OF _ ok] by (subst length_concat_blocks [of _ 32]) auto
  moreover have "concat (map enc_tail ts) =
      concat (map enc_tail (take i ts)) @ enc_tail (ts ! i) @ concat (map enc_tail (drop (Suc i) ts))"
    using i by (metis append.assoc concat.simps(2) concat_append id_take_nth_drop list.simps(9) map_append)
  ultimately obtain pre post where
    split: "abi_encode ts = pre @ (be_bytes 32 (length p) @ p) @ post" and pre: "length pre = off"
    using dyn
    by (auto simp: abi_encode_def enc_tail_def pad32_def off_def p_def tail_offset_def
        intro: that [of "?h @ concat (map enc_tail (take i ts))"])
  show "slice (abi_encode ts) off (off + 32) = be_bytes 32 (length p)"
    "slice (abi_encode ts) (off + 32) (off + 32 + length p) = p"
    "off + 32 + length p \<le> length (abi_encode ts)"
    unfolding split using pre by (simp_all add: slice_def)
qed


section \<open>Decoding encoded values\<close>

lemma decode_static:
  assumes ok: "token_ok ty t" and st: "\<not> is_dynamic_token t"
    and slot: "slice buf (i * 32) (i * 32 + 32) = static_slot t" and len: "i * 32 + 32 \<le> length buf"
  shows "decode_non_indexed_at_offset hex_enc buf ty i = Ok t"
proof -
  note req = require_slot_ok [OF len, unfolded slot]
  have u: "the (u256_from_be_slice (u256_to_be_bytes v)) = v" for v
    by (simp add: u256_from_be_slice_32)
  show ?thesis
    using ok st req
    by (induction ty t rule: token_ok.induct)
       (auto simp: decode_non_indexed_at_offset_def decode_address_def decode_bool_def decode_uint_def
          decode_int_def decode_bytes_fixed_def u i256_from_raw_def nth_append slice_def not_less
          wf_evm_address_def list_all_iff Let_def)
qed

lemma decode_indexed_static:
  assumes "token_ok ty t" "\<not> is_dynamic_token t"
  shows "decode_indexed hex_enc ty (B256 (static_slot t)) = Ok t"
proof -
  have "decode_indexed hex_enc ty (B256 (static_slot t)) =
      decode_non_indexed_at_offset hex_enc (static_slot t) ty 0"
    using assms by (cases ty; cases t)
      (simp_all add: decode_indexed_def decode_non_indexed_at_offset_def)
  also have "\<dots> = Ok t"
    using assms static_slot_length [OF assms] by (intro decode_static) (simp_all add: slice_def)
  finally show ?thesis .
qed

lemma decode_encoded:
  assumes ok: "list_all2 token_ok tys ts" and len: "length (abi_encode ts) < 2 ^ 64" and i: "i < length ts"
  shows "decode_non_indexed_at_offset hex_enc (abi_encode ts) (tys ! i) i = Ok (ts ! i)"
proof (cases "is_dynamic_token (ts ! i)")
  case False
  then show ?thesis
    using ok i abi_head [OF ok i]
    by (intro decode_static) (auto simp: list_all2_conv_all_nth enc_head_def)
next
  case True
  let ?p = "dynamic_payload (ts ! i)" and ?off = "tail_offset ts i"
  note head = abi_head [OF ok i] and tail = abi_tail [OF ok i True]
  have "slot_val (abi_encode ts) (i * 32) = ?off"
    using head True tail(3) len by (simp add: slot_val_def enc_head_def)
  moreover have "slot_val (abi_encode ts) ?off = length ?p"
    using tail len by (simp add: slot_val_def)
  ultimately have "decode_bytes_dynamic (abi_encode ts) (i * 32) 0 = Ok ?p"
    using head(2) tail(2,3) len
    by (simp add: decode_bytes_dynamic_eq read_dynamic_bytes_eq)
  moreover have "token_ok (tys ! i) (ts ! i)"
    using ok i by (simp add: list_all2_conv_all_nth)
  ultimately show ?thesis
    using True by (cases "tys ! i"; cases "ts ! i")
      (simp_all add: decode_non_indexed_at_offset_def decode_string_def)
qed

text \<open>A field list in declaration order, and its split into topics and data.\<close>

definition field_values :: "(event_param \<Rightarrow> bool) \<Rightarrow> event_decl \<Rightarrow> token list \<Rightarrow> token list" where
  "field_values P decl vs = map snd (filter (\<lambda>(p, _). P p) (zip (ev_params decl) vs))"

definition encode_log :: "hash_fn \<Rightarrow> event_decl \<Rightarrow> evm_address \<Rightarrow> token list \<Rightarrow> typed_raw_log" where
  "encode_log keccak decl addr vs =
     \<lparr>trl_address = addr,
      trl_topics = signature_hash keccak decl #
        map (\<lambda>t. B256 (static_slot t)) (field_values p_indexed decl vs),
      trl_data = abi_encode (field_values (\<lambda>p. \<not> p_indexed p) decl vs)\<rparr>"

definition wf_event :: "event_decl \<Rightarrow> bool" where
  "wf_event decl =
     (distinct (map p_name (ev_params decl)) \<and>
      list_all (\<lambda>p. wf_param p \<and> (p_indexed p \<longrightarrow> \<not> sol_is_dynamic (p_ty p))) (ev_params decl))"

definition values_ok :: "event_decl \<Rightarrow> token list \<Rightarrow> bool" where
  "values_ok decl vs = list_all2 (\<lambda>p v. token_ok (p_ty p) v) (ev_params decl) vs"

lemma field_values_ok:
  assumes "values_ok decl vs"
  shows "list_all2 (\<lambda>p v. token_ok (p_ty p) v) (filter P (ev_params decl)) (field_values P decl vs)"
proof -
  have "list_all2 (\<lambda>p v. token_ok (p_ty p) v) (filter P ps) (map snd (filter (\<lambda>(p, _). P p) (zip ps vs)))"
    if "list_all2 (\<lambda>p v. token_ok (p_ty p) v) ps vs" for ps
    using that by (induction rule: list_all2_induct) auto
  with assms show ?thesis by (simp add: values_ok_def field_values_def)
qed

lemma static_token_of_type: "token_ok ty v \<Longrightarrow> is_dynamic_token v = sol_is_dynamic ty"
  by (cases ty; cases v) (auto simp: sol_is_dynamic_def)

lemma bindings_lookup:
  assumes "distinct (map p_name ps)" and "length ps = length vs" and "i < length ps"
  shows "map_of (rev (zip (map p_name (filter P ps)) (map snd (filter (\<lambda>(p, _). P p) (zip ps vs))) @
                      zip (map p_name (filter (\<lambda>p. \<not> P p) ps)) (map snd (filter (\<lambda>(p, _). \<not> P p) (zip ps vs)))))
           (p_name (ps ! i)) = Some (vs ! i)"
proof -
  let ?sel = "\<lambda>Q. zip (map p_name (filter Q ps)) (map snd (filter (\<lambda>(p, _). Q p) (zip ps vs)))"
  have sel: "zip (map p_name (filter Q ps)) (map snd (filter (\<lambda>(p, _). Q p) (zip ps vs))) =
      map (\<lambda>(p, v). (p_name p, v)) (filter (\<lambda>(p, _). Q p) (zip ps vs))" for Q
    using assms(2) by (induction ps vs rule: list_induct2) auto
  have names: "map fst (?sel Q) = map p_name (filter Q ps)" for Q
    using assms(2) by (induction ps vs rule: list_induct2) auto
  let ?bs = "?sel P @ ?sel (\<lambda>p. \<not> P p)"
  have "distinct (map fst ?bs)"
    unfolding map_append names using assms(1) by (auto simp: distinct_map inj_on_def)
  then have d: "distinct (map fst (rev ?bs))" by (simp only: rev_map [symmetric] distinct_rev)
  have "(ps ! i, vs ! i) \<in> set (zip ps vs)"
    using assms(2,3) by (auto simp: in_set_zip)
  then have "(p_name (ps ! i), vs ! i) \<in> set (rev ?bs)"
    unfolding sel by (cases "P (ps ! i)") force+
  then show ?thesis using d by (rule map_of_is_SomeI [rotated])
qed

lemma event_tokens_parse:
  "list_all wf_param (ev_params d) \<Longrightarrow> parse_event_decl (event_tokens d) = Ok (d, [])"
  by (simp add: event_tokens_def parse_event_decl_def parse_ident_def parse_params_tokens)

lemma parse_event_decl_wf:
  assumes "parse_event_decl ts = Ok (d, rest)"
  shows "list_all (\<lambda>p. wf_sol_type (p_ty p)) (ev_params d)"
proof -
  from assms obtain name ts2 where *: "(case ts2 of
       TkParens content # ts3 \<Rightarrow>
         and_then (parse_params content) (\<lambda>raw_params.
           Ok (\<lparr>ev_name = name, ev_params = raw_params\<rparr>, case ts3 of TkSemi # r \<Rightarrow> r | _ \<Rightarrow> ts3))
     | _ \<Rightarrow> Err SynExpected) = Ok (d, rest)"
    unfolding parse_event_decl_def Let_def by (auto simp: and_then_eq_Inr split: if_splits)
  then obtain content ts3 where "ts2 = TkParens content # ts3"
    by (cases ts2; cases "hd ts2") auto
  with * obtain content where "parse_params content = Ok (ev_params d)"
    by (auto simp: and_then_eq_Inr)
  then show ?thesis by (rule parse_params_wf)
qed

lemma canonical_type_bytes32: "canonical_type (SolBytesFixed 32) = ''bytes32''"
  by code_simp

lemma canonical_type_string: "canonical_type SolString = ''string''"
  by code_simp

lemma decode_log_roundtrip:
  assumes wf: "wf_event decl" and ok: "values_ok decl vs"
    and len: "length (trl_data (encode_log keccak decl addr vs)) < 2 ^ 64"
  shows "decode_log hex_enc keccak decl (encode_log keccak decl addr vs) =
         Ok (zip (map p_name (ev_params decl)) vs)"
proof -
  let ?ix = "field_values p_indexed decl vs" and ?nx = "field_values (\<lambda>p. \<not> p_indexed p) decl vs"
  let ?log = "encode_log keccak decl addr vs"
  have ix: "list_all2 (\<lambda>p v. token_ok (p_ty p) v) (indexed_params decl) ?ix"
    and nx: "list_all2 (\<lambda>p v. token_ok (p_ty p) v) (non_indexed_params decl) ?nx"
    using field_values_ok [OF ok] by (simp_all add: indexed_params_def non_indexed_params_def)
  have "check_topic0 hex_enc keccak decl ?log = Ok ()"
    using list_all2_lengthD [OF ix]
    by (simp add: check_topic0_def encode_log_def topic0_def expected_topic_count_def)
  moreover have "collect_results (\<lambda>(i, p). decode_indexed hex_enc (p_ty p) (trl_topics ?log ! (i + 1)))
      (enumerate 0 (indexed_params decl)) = Ok ?ix"
    unfolding collect_results_Ok
  proof (rule list_all2_all_nthI)
    fix i assume "i < length (enumerate 0 (indexed_params decl))"
    then have i: "i < length (indexed_params decl)" by simp
    have "indexed_params decl ! i \<in> set (indexed_params decl)" using i by simp
    then have "\<not> sol_is_dynamic (p_ty (indexed_params decl ! i))"
      using wf by (auto simp: indexed_params_def wf_event_def list_all_iff)
    moreover have "token_ok (p_ty (indexed_params decl ! i)) (?ix ! i)" "i < length ?ix"
      using ix i by (auto simp: list_all2_conv_all_nth)
    ultimately show "(\<lambda>(i, p). decode_indexed hex_enc (p_ty p) (trl_topics ?log ! (i + 1)))
        (enumerate 0 (indexed_params decl) ! i) = Ok (?ix ! i)"
      using i by (simp add: nth_enumerate_eq encode_log_def decode_indexed_static static_token_of_type)
  qed (use list_all2_lengthD [OF ix] in simp)
  moreover have "collect_results
      (\<lambda>(i, p). decode_non_indexed_at_offset hex_enc (trl_data ?log) (p_ty p) i)
      (enumerate 0 (non_indexed_params decl)) = Ok ?nx"
    unfolding collect_results_Ok
  proof (rule list_all2_all_nthI)
    fix i assume "i < length (enumerate 0 (non_indexed_params decl))"
    then have i: "i < length (non_indexed_params decl)" by simp
    have "list_all2 token_ok (map p_ty (non_indexed_params decl)) ?nx"
      using nx by (simp add: list.rel_map)
    from decode_encoded [OF this, of i hex_enc] i len list_all2_lengthD [OF nx]
    show "(\<lambda>(i, p). decode_non_indexed_at_offset hex_enc (trl_data ?log) (p_ty p) i)
        (enumerate 0 (non_indexed_params decl) ! i) = Ok (?nx ! i)"
      by (simp add: nth_enumerate_eq encode_log_def)
  qed (use list_all2_lengthD [OF nx] in simp)
  moreover have "map (\<lambda>p. (p_name p, the (map_of (rev (zip (map p_name (indexed_params decl)) ?ix @
        zip (map p_name (non_indexed_params decl)) ?nx)) (p_name p)))) (ev_params decl) =
      zip (map p_name (ev_params decl)) vs"
  proof (rule nth_equalityI)
    show "length (map (\<lambda>p. (p_name p, the (map_of (rev (zip (map p_name (indexed_params decl)) ?ix @
        zip (map p_name (non_indexed_params decl)) ?nx)) (p_name p)))) (ev_params decl)) =
      length (zip (map p_name (ev_params decl)) vs)"
      using ok by (auto simp: values_ok_def dest: list_all2_lengthD)
  qed (use bindings_lookup [of "ev_params decl" vs _ p_indexed] wf ok in
      \<open>auto simp: indexed_params_def non_indexed_params_def field_values_def wf_event_def values_ok_def
        dest: list_all2_lengthD\<close>)
  ultimately show ?thesis by (simp add: decode_log_def Let_def)
qed

section \<open>Properties\<close>

text \<open>
  C7: The macro's parser reads back every well-formed declaration from the tokens Solidity source
  prints for it, and every declaration it accepts has only valid bit widths and byte sizes.
\<close>

theorem event_decl_roundtrip:
  "(list_all wf_param (ev_params d) \<longrightarrow> event_signature_input (event_tokens d) = Ok d) \<and>
   (event_signature_input ts = Ok d' \<longrightarrow> list_all (\<lambda>p. wf_sol_type (p_ty p)) (ev_params d'))"
proof (intro conjI impI)
  assume "list_all wf_param (ev_params d)"
  then show "event_signature_input (event_tokens d) = Ok d"
    by (simp add: event_signature_input_def event_tokens_parse)
next
  assume "event_signature_input ts = Ok d'"
  then have "parse_event_decl ts = Ok (d', [])"
    by (auto simp: event_signature_input_def and_then_eq_Inr split: if_splits)
  then show "list_all (\<lambda>p. wf_sol_type (p_ty p)) (ev_params d')"
    by (rule parse_event_decl_wf)
qed

lemma event_decl_roundtrip_witness:
  "event_signature_input
     [TkIdent ''event'', TkIdent ''Foo'',
      TkParens [TkIdent ''bytes32'', TkIdent ''indexed'', TkIdent ''id'', TkComma, TkIdent ''string'', TkIdent ''s''],
      TkSemi] =
   Ok \<lparr>ev_name = ''Foo'', ev_params = [\<lparr>p_ty = SolBytesFixed 32, p_indexed = True, p_name = ''id''\<rparr>,
      \<lparr>p_ty = SolString, p_indexed = False, p_name = ''s''\<rparr>]\<rparr>"
  using event_decl_roundtrip [of "\<lparr>ev_name = ''Foo'', ev_params = [\<lparr>p_ty = SolBytesFixed 32, p_indexed = True, p_name = ''id''\<rparr>,
      \<lparr>p_ty = SolString, p_indexed = False, p_name = ''s''\<rparr>]\<rparr>"]
  by (simp add: wf_param_def event_tokens_def param_tokens_def canonical_type_bytes32 canonical_type_string)

text \<open>
  C8: \<open>decode_log\<close> inverts the ABI encoding: the log that an event emits for well-typed field
  values (indexed ones in topics, the others head and tail in the data, dynamic \<open>bytes\<close> and
  \<open>string\<close> fields included) decodes to exactly these values, field by field in declaration order.
\<close>

theorem decode_log_encode:
  assumes wf: "wf_event decl" and ok: "values_ok decl vs"
    and len: "length (trl_data (encode_log keccak decl addr vs)) < 2 ^ 64"
  shows "decode_log hex_enc keccak decl (encode_log keccak decl addr vs) =
         Ok (zip (map p_name (ev_params decl)) vs)"
  using assms by (rule decode_log_roundtrip)

lemma decode_log_encode_witness:
  "decode_log ref_hex_enc (\<lambda>_. replicate 32 7)
     \<lparr>ev_name = ''Foo'', ev_params =
        [\<lparr>p_ty = SolBytes, p_indexed = False, p_name = ''data''\<rparr>,
         \<lparr>p_ty = SolAddress, p_indexed = True, p_name = ''who''\<rparr>]\<rparr>
     (encode_log (\<lambda>_. replicate 32 7)
        \<lparr>ev_name = ''Foo'', ev_params =
           [\<lparr>p_ty = SolBytes, p_indexed = False, p_name = ''data''\<rparr>,
            \<lparr>p_ty = SolAddress, p_indexed = True, p_name = ''who''\<rparr>]\<rparr>
        evm_address_zero [TokBytes [1, 2], TokAddress (EvmAddress (replicate 20 9))]) =
   Ok [(''data'', TokBytes [1, 2]), (''who'', TokAddress (EvmAddress (replicate 20 9)))]"
  by (subst decode_log_encode)
     (simp_all add: wf_event_def wf_param_def sol_is_dynamic_def values_ok_def wf_evm_address_def
        encode_log_def field_values_def abi_encode_def enc_head_def enc_tail_def pad32_def)

lemma decode_slot_errors:
  "decode_indexed hex_enc ty topic \<noteq> Err (Topic0Mismatch a b)"
  "decode_non_indexed_at_offset hex_enc buf ty i \<noteq> Err (Topic0Mismatch a b)"
  by (auto simp: decode_indexed_def decode_non_indexed_at_offset_def decode_address_def decode_bool_def
      decode_uint_def decode_int_def decode_bytes_fixed_def decode_string_def decode_bytes_dynamic_def
      read_dynamic_bytes_def usize_from_u256_def require_slot_def validate_int_bits_def Let_def
      and_then_eq_Inl split: sol_type.splits if_splits)

lemma decode_non_indexed_fits:
  "decode_non_indexed_at_offset hex_enc buf ty i = Ok t \<Longrightarrow> i * 32 + 32 \<le> length buf"
  by (cases ty)
     (auto simp: decode_non_indexed_at_offset_def decode_address_def decode_bool_def
      decode_uint_def decode_int_def decode_bytes_fixed_def decode_string_def decode_bytes_dynamic_def
      require_slot_eq and_then_eq_Inr Let_def split: if_splits)

lemma decode_indexed_dynamic:
  "sol_is_dynamic ty \<Longrightarrow> decode_indexed hex_enc ty topic = Err (InvalidBitWidth 0)"
  by (cases ty) (auto simp: decode_indexed_def sol_is_dynamic_def)

text \<open>
  What a caller learns from \<open>decode_log\<close>. A topic0 mismatch is reported exactly when the log
  has a first topic other than the signature hash. A decoded log had the signature hash as topic0,
  one topic per indexed parameter and a full head slot for every other parameter, and its fields
  are the declared ones, in order. An event with an indexed \<open>bytes\<close> or \<open>string\<close> never decodes.
\<close>

theorem decode_log_outcome:
  "(decode_log hex_enc keccak decl log =
       Err (Topic0Mismatch a b) \<longleftrightarrow>
      (\<exists>t. topic0 log = Some t \<and> t \<noteq> signature_hash keccak decl \<and>
           a = b256_display hex_enc (signature_hash keccak decl) \<and> b = b256_display hex_enc t)) \<and>
   (decode_log hex_enc keccak decl log = Ok fs \<longrightarrow>
      topic0 log = Some (signature_hash keccak decl) \<and>
      length (trl_topics log) = 1 + length (indexed_params decl) \<and>
      32 * length (non_indexed_params decl) \<le> length (trl_data log) \<and>
      map fst fs = map p_name (ev_params decl) \<and>
      (\<forall>p \<in> set (indexed_params decl). \<not> sol_is_dynamic (p_ty p)))"
proof (intro conjI impI)
  let ?ix = "\<lambda>(i, p). decode_indexed hex_enc (p_ty p) (trl_topics log ! (i + 1))"
  let ?nx = "\<lambda>(i, p). decode_non_indexed_at_offset hex_enc (trl_data log) (p_ty p) i"
  have "collect_results ?ix xs \<noteq> Err (Topic0Mismatch a b)" "collect_results ?nx xs \<noteq> Err (Topic0Mismatch a b)"
    for xs
    using collect_results_Err [of ?ix xs] collect_results_Err [of ?nx xs] decode_slot_errors
    by (fastforce simp: case_prod_unfold)+
  then show "decode_log hex_enc keccak decl log = Err (Topic0Mismatch a b) \<longleftrightarrow>
      (\<exists>t. topic0 log = Some t \<and> t \<noteq> signature_hash keccak decl \<and>
           a = b256_display hex_enc (signature_hash keccak decl) \<and> b = b256_display hex_enc t)"
    by (cases "topic0 log") (auto simp: decode_log_def check_topic0_def and_then_eq_Inl Let_def)
next
  assume ok: "decode_log hex_enc keccak decl log = Ok fs"
  obtain ixs nixs where
    ix: "\<And>i. i < length (indexed_params decl) \<Longrightarrow>
        decode_indexed hex_enc (p_ty (indexed_params decl ! i)) (trl_topics log ! (i + 1)) = Ok (ixs ! i)" and
    nx: "\<And>i. i < length (non_indexed_params decl) \<Longrightarrow>
        decode_non_indexed_at_offset hex_enc (trl_data log) (p_ty (non_indexed_params decl ! i)) i = Ok (nixs ! i)"
    using ok
    by (fastforce simp: decode_log_def and_then_eq_Inr collect_results_Ok Let_def list_all2_conv_all_nth
        nth_enumerate_eq)
  show "topic0 log = Some (signature_hash keccak decl)"
    and "length (trl_topics log) = 1 + length (indexed_params decl)"
    using ok by (cases "topic0 log";
        auto simp: decode_log_def check_topic0_def and_then_eq_Inr expected_topic_count_def split: if_splits)+
  show "map fst fs = map p_name (ev_params decl)"
    using ok by (auto simp: decode_log_def and_then_eq_Inr Let_def)
  show "32 * length (non_indexed_params decl) \<le> length (trl_data log)"
    using nx [of "length (non_indexed_params decl) - 1"]
    by (cases "non_indexed_params decl") (auto dest: decode_non_indexed_fits)
  show "\<forall>p \<in> set (indexed_params decl). \<not> sol_is_dynamic (p_ty p)"
    using ix by (force simp: in_set_conv_nth decode_indexed_dynamic)
qed

lemma decode_log_outcome_witness:
  "\<exists>a b. decode_log ref_hex_enc (\<lambda>_. replicate 32 7) \<lparr>ev_name = ''Foo'', ev_params = []\<rparr>
     \<lparr>trl_address = evm_address_zero, trl_topics = [B256 (replicate 32 8)], trl_data = []\<rparr> =
   Err (Topic0Mismatch a b)"
  using decode_log_outcome [of ref_hex_enc "\<lambda>_. replicate 32 7" "\<lparr>ev_name = ''Foo'', ev_params = []\<rparr>"
      "\<lparr>trl_address = evm_address_zero, trl_topics = [B256 (replicate 32 8)], trl_data = []\<rparr>"]
  by (auto simp: topic0_def signature_hash_def)

end
