(* ===== verification/EthDecoder.thy ===== *)
theory EthDecoder
  imports EventSignature
begin

text \<open>
  The EVM log decoders of the chain adapter (\<open>crates/chain-adapter/src/ethereum/decoder.rs\<close>) with
  the error type of \<open>src/error.rs\<close> and the wire log of \<open>ethereum/types.rs\<close>: the event
  declarations, the bridge from wire logs to typed logs, one decoder per event (ERC-20, Uniswap V2
  and V3, PancakeSwap V3, Aerodrome, the factories, Permit2), and the conversions of factory events
  into pool events. A declaration is what the macro parses; a decoded struct's fields are read from
  the interpreter's field list by name.
\<close>

section \<open>Errors\<close>

datatype adapter_error =
    Transport string
  | GrpcClient string
  | StreamEnded u64
  | RateLimit u64
  | MissingField string string
  | AdapterDecodeError (err_context: string) (err_reason: string)
  | AmountOverflow string u64
  | Checkpoint string
  | Config string
  | RpcError u64 string
  | CallReverted string

definition is_reconnectable :: "adapter_error \<Rightarrow> bool" where
  "is_reconnectable e = (case e of
     Transport _ \<Rightarrow> True | GrpcClient _ \<Rightarrow> True | StreamEnded _ \<Rightarrow> True | RateLimit _ \<Rightarrow> True
   | _ \<Rightarrow> False)"

definition is_skippable :: "adapter_error \<Rightarrow> bool" where
  "is_skippable e = (case e of
     MissingField _ _ \<Rightarrow> True | AdapterDecodeError _ _ \<Rightarrow> True | AmountOverflow _ _ \<Rightarrow> True
   | _ \<Rightarrow> False)"

definition is_rate_limit :: "adapter_error \<Rightarrow> bool" where
  "is_rate_limit e = (case e of RateLimit _ \<Rightarrow> True | _ \<Rightarrow> False)"

text \<open>\<open>Display\<close> of the ABI error, with the UTF-8 bytes of the dash.\<close>

definition em_dash :: string where
  "em_dash = [CHR 0xE2, CHR 0x80, CHR 0x94]"

fun abi_error_display :: "decode_error \<Rightarrow> string" where
  "abi_error_display (BufferTooShort n h) =
     ''ABI decode: buffer too short (need '' @ show_nat n @ '' bytes, have '' @ show_nat h @ '')''"
| "abi_error_display (OffsetOutOfBounds offset len buf_len) =
     ''ABI decode: dynamic offset '' @ show_nat offset @ '' + '' @ show_nat len @
     '' out of bounds (buf len '' @ show_nat buf_len @ '')''"
| "abi_error_display (InvalidBitWidth n) =
     ''ABI decode: invalid bit width '' @ show_nat (unat n) @ '' (must be 8..=256 and a multiple of 8)''"
| "abi_error_display (InvalidBytesNSize n) =
     ''ABI decode: invalid bytesN size '' @ show_nat (unat n) @ '' (must be 1..=32)''"
| "abi_error_display (InvalidBool s) = ''ABI decode: bool slot has non-boolean value 0x'' @ s"
| "abi_error_display (WrongTopicCount expected got) =
     ''ABI decode: expected '' @ show_nat expected @ '' topics, got '' @ show_nat got"
| "abi_error_display (Topic0Mismatch expected got) =
     ''ABI decode: topic0 mismatch '' @ em_dash @ '' expected '' @ expected @ '', got '' @ got"

datatype eth_decode_error =
    TopicMismatch usize usize
  | DataLength usize usize
  | AbiFailed string

fun eth_decode_error_display :: "eth_decode_error \<Rightarrow> string" where
  "eth_decode_error_display (TopicMismatch expected actual) =
     ''topic count mismatch: expected '' @ show_nat expected @ '', got '' @ show_nat actual"
| "eth_decode_error_display (DataLength expected actual) =
     ''data length mismatch: expected '' @ show_nat expected @ '' bytes, got '' @ show_nat actual"
| "eth_decode_error_display (AbiFailed s) = ''ABI decode error: '' @ s"

text \<open>\<open>From<DecodeError> for AdapterError\<close>, which the \<open>?\<close> operator applies.\<close>

definition adapter_of_decode :: "eth_decode_error \<Rightarrow> adapter_error" where
  "adapter_of_decode e = AdapterDecodeError ''ethereum_decoder'' (eth_decode_error_display e)"

section \<open>Event declarations\<close>

abbreviation prm :: "sol_type \<Rightarrow> string \<Rightarrow> event_param" where
  "prm ty name \<equiv> \<lparr>p_ty = ty, p_indexed = False, p_name = name\<rparr>"

abbreviation idx :: "sol_type \<Rightarrow> string \<Rightarrow> event_param" where
  "idx ty name \<equiv> \<lparr>p_ty = ty, p_indexed = True, p_name = name\<rparr>"

definition Transfer_decl :: event_decl where [decl_defs]:
  "Transfer_decl = \<lparr>ev_name = ''Transfer'', ev_params =
     [idx SolAddress ''from'', idx SolAddress ''to'', prm (SolUint 256) ''value'']\<rparr>"

definition Approval_decl :: event_decl where [decl_defs]:
  "Approval_decl = \<lparr>ev_name = ''Approval'', ev_params =
     [idx SolAddress ''owner'', idx SolAddress ''spender'', prm (SolUint 256) ''value'']\<rparr>"

definition univ2_Swap :: event_decl where [decl_defs]:
  "univ2_Swap = \<lparr>ev_name = ''Swap'', ev_params =
     [idx SolAddress ''sender'', prm (SolUint 256) ''amount0In'', prm (SolUint 256) ''amount1In'',
      prm (SolUint 256) ''amount0Out'', prm (SolUint 256) ''amount1Out'', idx SolAddress ''to'']\<rparr>"

definition univ2_Mint :: event_decl where [decl_defs]:
  "univ2_Mint = \<lparr>ev_name = ''Mint'', ev_params =
     [idx SolAddress ''sender'', prm (SolUint 256) ''amount0'', prm (SolUint 256) ''amount1'']\<rparr>"

definition univ2_Burn :: event_decl where [decl_defs]:
  "univ2_Burn = \<lparr>ev_name = ''Burn'', ev_params =
     [idx SolAddress ''sender'', prm (SolUint 256) ''amount0'', prm (SolUint 256) ''amount1'',
      idx SolAddress ''to'']\<rparr>"

definition univ3_Swap :: event_decl where [decl_defs]:
  "univ3_Swap = \<lparr>ev_name = ''Swap'', ev_params =
     [idx SolAddress ''sender'', idx SolAddress ''recipient'', prm (SolInt 256) ''amount0'',
      prm (SolInt 256) ''amount1'', prm (SolUint 160) ''sqrtPriceX96'', prm (SolUint 128) ''liquidity'',
      prm (SolInt 24) ''tick'']\<rparr>"

definition univ3_Mint :: event_decl where [decl_defs]:
  "univ3_Mint = \<lparr>ev_name = ''Mint'', ev_params =
     [prm SolAddress ''sender'', idx SolAddress ''owner'', idx (SolInt 24) ''tickLower'',
      idx (SolInt 24) ''tickUpper'', prm (SolUint 128) ''amount'', prm (SolUint 256) ''amount0'',
      prm (SolUint 256) ''amount1'']\<rparr>"

definition univ3_Burn :: event_decl where [decl_defs]:
  "univ3_Burn = \<lparr>ev_name = ''Burn'', ev_params =
     [idx SolAddress ''owner'', idx (SolInt 24) ''tickLower'', idx (SolInt 24) ''tickUpper'',
      prm (SolUint 128) ''amount'', prm (SolUint 256) ''amount0'', prm (SolUint 256) ''amount1'']\<rparr>"

definition pancake_v3_Swap :: event_decl where [decl_defs]:
  "pancake_v3_Swap = \<lparr>ev_name = ''Swap'', ev_params =
     [idx SolAddress ''sender'', idx SolAddress ''recipient'', prm (SolInt 256) ''amount0'',
      prm (SolInt 256) ''amount1'', prm (SolUint 160) ''sqrtPriceX96'', prm (SolUint 128) ''liquidity'',
      prm (SolInt 24) ''tick'', prm (SolUint 128) ''protocolFeesToken0'',
      prm (SolUint 128) ''protocolFeesToken1'']\<rparr>"

definition aerodrome_factory_PoolCreated :: event_decl where [decl_defs]:
  "aerodrome_factory_PoolCreated = \<lparr>ev_name = ''PoolCreated'', ev_params =
     [idx SolAddress ''token0'', idx SolAddress ''token1'', idx SolBool ''stable'',
      prm SolAddress ''pool'', prm (SolUint 256) ''pool_count'']\<rparr>"

definition uniswap_v2_factory_PairCreated :: event_decl where [decl_defs]:
  "uniswap_v2_factory_PairCreated = \<lparr>ev_name = ''PairCreated'', ev_params =
     [idx SolAddress ''token0'', idx SolAddress ''token1'', prm SolAddress ''pair'',
      prm (SolUint 256) ''unused'']\<rparr>"

definition uniswap_v3_factory_PoolCreated :: event_decl where [decl_defs]:
  "uniswap_v3_factory_PoolCreated = \<lparr>ev_name = ''PoolCreated'', ev_params =
     [idx SolAddress ''token0'', idx SolAddress ''token1'', idx (SolUint 24) ''fee'',
      prm (SolInt 24) ''tickSpacing'', prm SolAddress ''pool'']\<rparr>"

definition aerodrome_Swap :: event_decl where [decl_defs]:
  "aerodrome_Swap = \<lparr>ev_name = ''Swap'', ev_params =
     [idx SolAddress ''sender'', idx SolAddress ''to'', prm (SolUint 256) ''amount0In'',
      prm (SolUint 256) ''amount1In'', prm (SolUint 256) ''amount0Out'',
      prm (SolUint 256) ''amount1Out'']\<rparr>"

definition aerodrome_Mint :: event_decl where [decl_defs]:
  "aerodrome_Mint = \<lparr>ev_name = ''Mint'', ev_params =
     [idx SolAddress ''sender'', prm (SolUint 256) ''amount0'', prm (SolUint 256) ''amount1'']\<rparr>"

definition aerodrome_Burn :: event_decl where [decl_defs]:
  "aerodrome_Burn = \<lparr>ev_name = ''Burn'', ev_params =
     [idx SolAddress ''sender'', idx SolAddress ''to'', prm (SolUint 256) ''amount0'',
      prm (SolUint 256) ''amount1'']\<rparr>"

definition permit2_Permit :: event_decl where [decl_defs]:
  "permit2_Permit = \<lparr>ev_name = ''Permit'', ev_params =
     [idx SolAddress ''owner'', idx SolAddress ''token'', idx SolAddress ''spender'',
      prm (SolUint 160) ''amount'', prm (SolUint 48) ''expiration'', prm (SolUint 48) ''nonce'']\<rparr>"

definition permit2_Approval :: event_decl where [decl_defs]:
  "permit2_Approval = \<lparr>ev_name = ''Approval'', ev_params =
     [idx SolAddress ''owner'', idx SolAddress ''token'', idx SolAddress ''spender'',
      prm (SolUint 160) ''amount'', prm (SolUint 48) ''expiration'']\<rparr>"

definition permit2_Lockdown :: event_decl where [decl_defs]:
  "permit2_Lockdown = \<lparr>ev_name = ''Lockdown'', ev_params =
     [idx SolAddress ''owner'', prm SolAddress ''token'', prm SolAddress ''spender'']\<rparr>"

definition permit2_NonceInvalidation :: event_decl where [decl_defs]:
  "permit2_NonceInvalidation = \<lparr>ev_name = ''NonceInvalidation'', ev_params =
     [idx SolAddress ''owner'', idx SolAddress ''token'', idx SolAddress ''spender'',
      prm (SolUint 48) ''newNonce'', prm (SolUint 48) ''oldNonce'']\<rparr>"

definition permit2_UnorderedNonceInvalidation :: event_decl where [decl_defs]:
  "permit2_UnorderedNonceInvalidation = \<lparr>ev_name = ''UnorderedNonceInvalidation'', ev_params =
     [idx SolAddress ''owner'', prm (SolUint 256) ''word'', prm (SolUint 256) ''mask'']\<rparr>"

section \<open>From wire logs to typed logs\<close>

record raw_log =
  rl_address :: string
  rl_topics :: "string list"
  rl_data :: bytes
  rl_block_number :: u64
  rl_tx_hash :: string
  rl_log_index :: u32

text \<open>\<open>strip_prefix("0x").unwrap_or(t)\<close>: here only the lower-case prefix is dropped.\<close>

definition topic_hex :: "string \<Rightarrow> string" where
  "topic_hex t = (case strip_prefix ''0x'' t of Some r \<Rightarrow> r | None \<Rightarrow> t)"

definition topic_to_b256 :: "hex_decoder \<Rightarrow> nat \<times> string \<Rightarrow> (b256, eth_decode_error) result" where
  "topic_to_b256 hex_dec = (\<lambda>(i, t).
     and_then (map_err (\<lambda>e. AbiFailed (''topic['' @ show_nat i @ ''] hex decode: '' @ e)) (hex_dec (topic_hex t)))
       (\<lambda>bytes. if length bytes \<noteq> 32 then Err (TopicMismatch 32 (length bytes)) else Ok (B256 bytes)))"

definition raw_log_to_typed :: "hex_decoder \<Rightarrow> raw_log \<Rightarrow> (typed_raw_log, eth_decode_error) result" where
  "raw_log_to_typed hex_dec log =
     and_then (collect_results (topic_to_b256 hex_dec) (enumerate 0 (rl_topics log))) (\<lambda>topics.
       let address = (case evm_address_parse_hex hex_dec (rl_address log) of
             Inr a \<Rightarrow> a | Inl _ \<Rightarrow> evm_address_zero)
       in Ok \<lparr>trl_address = address, trl_topics = topics, trl_data = rl_data log\<rparr>)"

definition topic0_matches :: "hex_decoder \<Rightarrow> raw_log \<Rightarrow> b256 \<Rightarrow> bool" where
  "topic0_matches hex_dec log expected =
     (case rl_topics log of
        t # _ \<Rightarrow> (case hex_dec (topic_hex t) of
            Inr b \<Rightarrow> if length b = 32 then b = b256_bytes expected else False
          | Inl _ \<Rightarrow> False)
      | [] \<Rightarrow> False)"

text \<open>\<open>v.into_raw().0[0] as i32\<close>: the low 32 bits of limb 0; an \<open>i32\<close> is a 32-bit word read with \<open>sint\<close>.\<close>

definition i256_to_i32 :: "i256 \<Rightarrow> u32" where
  "i256_to_i32 v = ucast (u256_limb0 (i256_into_raw v))"

definition low_u128 :: "u256 \<Rightarrow> u128" where
  "low_u128 v = ucast v"

definition low_u64 :: "u256 \<Rightarrow> u64" where
  "low_u64 v = u256_limb0 v"

definition low_u32 :: "u256 \<Rightarrow> u32" where
  "low_u32 v = ucast v"

text \<open>Reading a field of a decoded struct. The generated struct types fix the constructor.\<close>

definition event_field :: "(string \<times> token) list \<Rightarrow> string \<Rightarrow> token" where
  "event_field fs name = the (map_of fs name)"

definition address_field :: "(string \<times> token) list \<Rightarrow> string \<Rightarrow> evm_address" where
  "address_field fs name = (case event_field fs name of TokAddress a \<Rightarrow> a | _ \<Rightarrow> evm_address_zero)"

definition uint_field :: "(string \<times> token) list \<Rightarrow> string \<Rightarrow> u256" where
  "uint_field fs name = (case event_field fs name of TokUint v \<Rightarrow> v | _ \<Rightarrow> 0)"

definition int_field :: "(string \<times> token) list \<Rightarrow> string \<Rightarrow> i256" where
  "int_field fs name = (case event_field fs name of TokInt v \<Rightarrow> v | _ \<Rightarrow> i256_zero)"

definition bool_field :: "(string \<times> token) list \<Rightarrow> string \<Rightarrow> bool" where
  "bool_field fs name = (case event_field fs name of TokBool b \<Rightarrow> b | _ \<Rightarrow> False)"

text \<open>
  The frame every decoder below repeats: \<open>None\<close> when topic0 is another event's, otherwise the
  typed log is built and decoded, and the fields are put into the result struct.
\<close>

definition decode_gate ::
    "hex_encoder \<Rightarrow> hex_decoder \<Rightarrow> hash_fn \<Rightarrow> event_decl \<Rightarrow> raw_log \<Rightarrow> ((string \<times> token) list \<Rightarrow> 'a) \<Rightarrow>
     ('a option, adapter_error) result" where
  "decode_gate hex_enc hex_dec keccak decl log build =
     (if \<not> topic0_matches hex_dec log (signature_hash keccak decl) then Ok None
      else and_then (map_err adapter_of_decode (raw_log_to_typed hex_dec log)) (\<lambda>typed.
           and_then (map_err (\<lambda>e. adapter_of_decode (AbiFailed (abi_error_display e)))
                      (decode_log hex_enc keccak decl typed)) (\<lambda>fs.
           Ok (Some (build fs)))))"

section \<open>Decoders of pool and token events\<close>

record decoded_transfer =
  dt_from :: evm_address
  dt_to :: evm_address
  dt_value :: u256
  dt_contract :: string
  dt_block_number :: u64
  dt_tx_hash :: string
  dt_log_index :: u32

definition try_decode_transfer ::
    "hex_encoder \<Rightarrow> hex_decoder \<Rightarrow> hash_fn \<Rightarrow> raw_log \<Rightarrow> (decoded_transfer option, adapter_error) result" where
  "try_decode_transfer hex_enc hex_dec keccak log =
     decode_gate hex_enc hex_dec keccak Transfer_decl log (\<lambda>fs.
       \<lparr>dt_from = address_field fs ''from'',
        dt_to = address_field fs ''to'',
        dt_value = uint_field fs ''value'',
        dt_contract = rl_address log,
        dt_block_number = rl_block_number log,
        dt_tx_hash = rl_tx_hash log,
        dt_log_index = rl_log_index log\<rparr>)"

record decoded_approval =
  da_owner :: evm_address
  da_spender :: evm_address
  da_value :: u256
  da_contract :: string
  da_block_number :: u64
  da_tx_hash :: string

definition try_decode_approval ::
    "hex_encoder \<Rightarrow> hex_decoder \<Rightarrow> hash_fn \<Rightarrow> raw_log \<Rightarrow> (decoded_approval option, adapter_error) result" where
  "try_decode_approval hex_enc hex_dec keccak log =
     decode_gate hex_enc hex_dec keccak Approval_decl log (\<lambda>fs.
       \<lparr>da_owner = address_field fs ''owner'',
        da_spender = address_field fs ''spender'',
        da_value = uint_field fs ''value'',
        da_contract = rl_address log,
        da_block_number = rl_block_number log,
        da_tx_hash = rl_tx_hash log\<rparr>)"

record decoded_v2_swap =
  d2s_sender :: evm_address
  d2s_to :: evm_address
  d2s_amount0_in :: u256
  d2s_amount1_in :: u256
  d2s_amount0_out :: u256
  d2s_amount1_out :: u256
  d2s_pair :: string
  d2s_block_number :: u64
  d2s_tx_hash :: string

definition try_decode_v2_swap ::
    "hex_encoder \<Rightarrow> hex_decoder \<Rightarrow> hash_fn \<Rightarrow> raw_log \<Rightarrow> (decoded_v2_swap option, adapter_error) result" where
  "try_decode_v2_swap hex_enc hex_dec keccak log =
     decode_gate hex_enc hex_dec keccak univ2_Swap log (\<lambda>fs.
       \<lparr>d2s_sender = address_field fs ''sender'',
        d2s_to = address_field fs ''to'',
        d2s_amount0_in = uint_field fs ''amount0In'',
        d2s_amount1_in = uint_field fs ''amount1In'',
        d2s_amount0_out = uint_field fs ''amount0Out'',
        d2s_amount1_out = uint_field fs ''amount1Out'',
        d2s_pair = rl_address log,
        d2s_block_number = rl_block_number log,
        d2s_tx_hash = rl_tx_hash log\<rparr>)"

record decoded_v2_mint =
  d2m_sender :: evm_address
  d2m_amount0 :: u256
  d2m_amount1 :: u256
  d2m_pair :: string
  d2m_block_number :: u64
  d2m_tx_hash :: string

definition try_decode_v2_mint ::
    "hex_encoder \<Rightarrow> hex_decoder \<Rightarrow> hash_fn \<Rightarrow> raw_log \<Rightarrow> (decoded_v2_mint option, adapter_error) result" where
  "try_decode_v2_mint hex_enc hex_dec keccak log =
     decode_gate hex_enc hex_dec keccak univ2_Mint log (\<lambda>fs.
       \<lparr>d2m_sender = address_field fs ''sender'',
        d2m_amount0 = uint_field fs ''amount0'',
        d2m_amount1 = uint_field fs ''amount1'',
        d2m_pair = rl_address log,
        d2m_block_number = rl_block_number log,
        d2m_tx_hash = rl_tx_hash log\<rparr>)"

record decoded_v2_burn =
  d2b_sender :: evm_address
  d2b_to :: evm_address
  d2b_amount0 :: u256
  d2b_amount1 :: u256
  d2b_pair :: string
  d2b_block_number :: u64
  d2b_tx_hash :: string

definition try_decode_v2_burn ::
    "hex_encoder \<Rightarrow> hex_decoder \<Rightarrow> hash_fn \<Rightarrow> raw_log \<Rightarrow> (decoded_v2_burn option, adapter_error) result" where
  "try_decode_v2_burn hex_enc hex_dec keccak log =
     decode_gate hex_enc hex_dec keccak univ2_Burn log (\<lambda>fs.
       \<lparr>d2b_sender = address_field fs ''sender'',
        d2b_to = address_field fs ''to'',
        d2b_amount0 = uint_field fs ''amount0'',
        d2b_amount1 = uint_field fs ''amount1'',
        d2b_pair = rl_address log,
        d2b_block_number = rl_block_number log,
        d2b_tx_hash = rl_tx_hash log\<rparr>)"

record decoded_v3_swap =
  d3s_sender :: evm_address
  d3s_recipient :: evm_address
  d3s_amount0 :: i256
  d3s_amount1 :: i256
  d3s_sqrt_price_x96 :: u256
  d3s_liquidity :: u128
  d3s_tick :: u32
  d3s_pool :: string
  d3s_block_number :: u64
  d3s_tx_hash :: string

definition try_decode_v3_swap ::
    "hex_encoder \<Rightarrow> hex_decoder \<Rightarrow> hash_fn \<Rightarrow> raw_log \<Rightarrow> (decoded_v3_swap option, adapter_error) result" where
  "try_decode_v3_swap hex_enc hex_dec keccak log =
     decode_gate hex_enc hex_dec keccak univ3_Swap log (\<lambda>fs.
       \<lparr>d3s_sender = address_field fs ''sender'',
        d3s_recipient = address_field fs ''recipient'',
        d3s_amount0 = int_field fs ''amount0'',
        d3s_amount1 = int_field fs ''amount1'',
        d3s_sqrt_price_x96 = uint_field fs ''sqrtPriceX96'',
        d3s_liquidity = low_u128 (uint_field fs ''liquidity''),
        d3s_tick = i256_to_i32 (int_field fs ''tick''),
        d3s_pool = rl_address log,
        d3s_block_number = rl_block_number log,
        d3s_tx_hash = rl_tx_hash log\<rparr>)"

record decoded_v3_mint =
  d3m_sender :: evm_address
  d3m_owner :: evm_address
  d3m_tick_lower :: u32
  d3m_tick_upper :: u32
  d3m_amount :: u128
  d3m_amount0 :: u256
  d3m_amount1 :: u256
  d3m_pool :: string
  d3m_block_number :: u64
  d3m_tx_hash :: string

definition try_decode_v3_mint ::
    "hex_encoder \<Rightarrow> hex_decoder \<Rightarrow> hash_fn \<Rightarrow> raw_log \<Rightarrow> (decoded_v3_mint option, adapter_error) result" where
  "try_decode_v3_mint hex_enc hex_dec keccak log =
     decode_gate hex_enc hex_dec keccak univ3_Mint log (\<lambda>fs.
       \<lparr>d3m_sender = address_field fs ''sender'',
        d3m_owner = address_field fs ''owner'',
        d3m_tick_lower = i256_to_i32 (int_field fs ''tickLower''),
        d3m_tick_upper = i256_to_i32 (int_field fs ''tickUpper''),
        d3m_amount = low_u128 (uint_field fs ''amount''),
        d3m_amount0 = uint_field fs ''amount0'',
        d3m_amount1 = uint_field fs ''amount1'',
        d3m_pool = rl_address log,
        d3m_block_number = rl_block_number log,
        d3m_tx_hash = rl_tx_hash log\<rparr>)"

record decoded_v3_burn =
  d3b_owner :: evm_address
  d3b_tick_lower :: u32
  d3b_tick_upper :: u32
  d3b_amount :: u128
  d3b_amount0 :: u256
  d3b_amount1 :: u256
  d3b_pool :: string
  d3b_block_number :: u64
  d3b_tx_hash :: string

definition try_decode_v3_burn ::
    "hex_encoder \<Rightarrow> hex_decoder \<Rightarrow> hash_fn \<Rightarrow> raw_log \<Rightarrow> (decoded_v3_burn option, adapter_error) result" where
  "try_decode_v3_burn hex_enc hex_dec keccak log =
     decode_gate hex_enc hex_dec keccak univ3_Burn log (\<lambda>fs.
       \<lparr>d3b_owner = address_field fs ''owner'',
        d3b_tick_lower = i256_to_i32 (int_field fs ''tickLower''),
        d3b_tick_upper = i256_to_i32 (int_field fs ''tickUpper''),
        d3b_amount = low_u128 (uint_field fs ''amount''),
        d3b_amount0 = uint_field fs ''amount0'',
        d3b_amount1 = uint_field fs ''amount1'',
        d3b_pool = rl_address log,
        d3b_block_number = rl_block_number log,
        d3b_tx_hash = rl_tx_hash log\<rparr>)"

record decoded_pancake_v3_swap =
  dps_sender :: evm_address
  dps_recipient :: evm_address
  dps_amount0 :: i256
  dps_amount1 :: i256
  dps_sqrt_price_x96 :: u256
  dps_liquidity :: u128
  dps_tick :: u32
  dps_protocol_fee_token0 :: u128
  dps_protocol_fee_token1 :: u128
  dps_pool :: string
  dps_block_number :: u64
  dps_tx_hash :: string

definition try_decode_pancake_v3_swap ::
    "hex_encoder \<Rightarrow> hex_decoder \<Rightarrow> hash_fn \<Rightarrow> raw_log \<Rightarrow> (decoded_pancake_v3_swap option, adapter_error) result" where
  "try_decode_pancake_v3_swap hex_enc hex_dec keccak log =
     decode_gate hex_enc hex_dec keccak pancake_v3_Swap log (\<lambda>fs.
       \<lparr>dps_sender = address_field fs ''sender'',
        dps_recipient = address_field fs ''recipient'',
        dps_amount0 = int_field fs ''amount0'',
        dps_amount1 = int_field fs ''amount1'',
        dps_sqrt_price_x96 = uint_field fs ''sqrtPriceX96'',
        dps_liquidity = low_u128 (uint_field fs ''liquidity''),
        dps_tick = i256_to_i32 (int_field fs ''tick''),
        dps_protocol_fee_token0 = low_u128 (uint_field fs ''protocolFeesToken0''),
        dps_protocol_fee_token1 = low_u128 (uint_field fs ''protocolFeesToken1''),
        dps_pool = rl_address log,
        dps_block_number = rl_block_number log,
        dps_tx_hash = rl_tx_hash log\<rparr>)"

record decoded_v2_pair_created =
  d2p_token0 :: evm_address
  d2p_token1 :: evm_address
  d2p_pair :: evm_address
  d2p_pair_index :: u64
  d2p_factory :: string
  d2p_block_number :: u64
  d2p_tx_hash :: string
  d2p_log_index :: u32

definition try_decode_v2_pair_created ::
    "hex_encoder \<Rightarrow> hex_decoder \<Rightarrow> hash_fn \<Rightarrow> raw_log \<Rightarrow> (decoded_v2_pair_created option, adapter_error) result" where
  "try_decode_v2_pair_created hex_enc hex_dec keccak log =
     decode_gate hex_enc hex_dec keccak uniswap_v2_factory_PairCreated log (\<lambda>fs.
       \<lparr>d2p_token0 = address_field fs ''token0'',
        d2p_token1 = address_field fs ''token1'',
        d2p_pair = address_field fs ''pair'',
        d2p_pair_index = low_u64 (uint_field fs ''unused''),
        d2p_factory = rl_address log,
        d2p_block_number = rl_block_number log,
        d2p_tx_hash = rl_tx_hash log,
        d2p_log_index = rl_log_index log\<rparr>)"

record decoded_v3_pool_created =
  d3p_token0 :: evm_address
  d3p_token1 :: evm_address
  d3p_fee :: u32
  d3p_tick_spacing :: u32
  d3p_pool :: evm_address
  d3p_factory :: string
  d3p_block_number :: u64
  d3p_tx_hash :: string
  d3p_log_index :: u32

definition try_decode_v3_pool_created ::
    "hex_encoder \<Rightarrow> hex_decoder \<Rightarrow> hash_fn \<Rightarrow> raw_log \<Rightarrow> (decoded_v3_pool_created option, adapter_error) result" where
  "try_decode_v3_pool_created hex_enc hex_dec keccak log =
     decode_gate hex_enc hex_dec keccak uniswap_v3_factory_PoolCreated log (\<lambda>fs.
       \<lparr>d3p_token0 = address_field fs ''token0'',
        d3p_token1 = address_field fs ''token1'',
        d3p_fee = low_u32 (uint_field fs ''fee''),
        d3p_tick_spacing = i256_to_i32 (int_field fs ''tickSpacing''),
        d3p_pool = address_field fs ''pool'',
        d3p_factory = rl_address log,
        d3p_block_number = rl_block_number log,
        d3p_tx_hash = rl_tx_hash log,
        d3p_log_index = rl_log_index log\<rparr>)"

record decoded_aerodrome_pool_created =
  dap_token0 :: evm_address
  dap_token1 :: evm_address
  dap_stable :: bool
  dap_pool :: evm_address
  dap_pool_index :: u64
  dap_factory :: string
  dap_block_number :: u64
  dap_tx_hash :: string
  dap_log_index :: u32

definition try_decode_aerodrome_pool_created ::
    "hex_encoder \<Rightarrow> hex_decoder \<Rightarrow> hash_fn \<Rightarrow> raw_log \<Rightarrow> (decoded_aerodrome_pool_created option, adapter_error) result" where
  "try_decode_aerodrome_pool_created hex_enc hex_dec keccak log =
     decode_gate hex_enc hex_dec keccak aerodrome_factory_PoolCreated log (\<lambda>fs.
       \<lparr>dap_token0 = address_field fs ''token0'',
        dap_token1 = address_field fs ''token1'',
        dap_stable = bool_field fs ''stable'',
        dap_pool = address_field fs ''pool'',
        dap_pool_index = low_u64 (uint_field fs ''pool_count''),
        dap_factory = rl_address log,
        dap_block_number = rl_block_number log,
        dap_tx_hash = rl_tx_hash log,
        dap_log_index = rl_log_index log\<rparr>)"

record decoded_aerodrome_swap =
  das_sender :: evm_address
  das_to :: evm_address
  das_amount0_in :: u256
  das_amount1_in :: u256
  das_amount0_out :: u256
  das_amount1_out :: u256
  das_pool :: string
  das_block_number :: u64
  das_tx_hash :: string

definition try_decode_aerodrome_swap ::
    "hex_encoder \<Rightarrow> hex_decoder \<Rightarrow> hash_fn \<Rightarrow> raw_log \<Rightarrow> (decoded_aerodrome_swap option, adapter_error) result" where
  "try_decode_aerodrome_swap hex_enc hex_dec keccak log =
     decode_gate hex_enc hex_dec keccak aerodrome_Swap log (\<lambda>fs.
       \<lparr>das_sender = address_field fs ''sender'',
        das_to = address_field fs ''to'',
        das_amount0_in = uint_field fs ''amount0In'',
        das_amount1_in = uint_field fs ''amount1In'',
        das_amount0_out = uint_field fs ''amount0Out'',
        das_amount1_out = uint_field fs ''amount1Out'',
        das_pool = rl_address log,
        das_block_number = rl_block_number log,
        das_tx_hash = rl_tx_hash log\<rparr>)"

record decoded_aerodrome_mint =
  dam_sender :: evm_address
  dam_amount0 :: u256
  dam_amount1 :: u256
  dam_pool :: string
  dam_block_number :: u64
  dam_tx_hash :: string

definition try_decode_aerodrome_mint ::
    "hex_encoder \<Rightarrow> hex_decoder \<Rightarrow> hash_fn \<Rightarrow> raw_log \<Rightarrow> (decoded_aerodrome_mint option, adapter_error) result" where
  "try_decode_aerodrome_mint hex_enc hex_dec keccak log =
     decode_gate hex_enc hex_dec keccak aerodrome_Mint log (\<lambda>fs.
       \<lparr>dam_sender = address_field fs ''sender'',
        dam_amount0 = uint_field fs ''amount0'',
        dam_amount1 = uint_field fs ''amount1'',
        dam_pool = rl_address log,
        dam_block_number = rl_block_number log,
        dam_tx_hash = rl_tx_hash log\<rparr>)"

record decoded_aerodrome_burn =
  dab_sender :: evm_address
  dab_to :: evm_address
  dab_amount0 :: u256
  dab_amount1 :: u256
  dab_pool :: string
  dab_block_number :: u64
  dab_tx_hash :: string

definition try_decode_aerodrome_burn ::
    "hex_encoder \<Rightarrow> hex_decoder \<Rightarrow> hash_fn \<Rightarrow> raw_log \<Rightarrow> (decoded_aerodrome_burn option, adapter_error) result" where
  "try_decode_aerodrome_burn hex_enc hex_dec keccak log =
     decode_gate hex_enc hex_dec keccak aerodrome_Burn log (\<lambda>fs.
       \<lparr>dab_sender = address_field fs ''sender'',
        dab_to = address_field fs ''to'',
        dab_amount0 = uint_field fs ''amount0'',
        dab_amount1 = uint_field fs ''amount1'',
        dab_pool = rl_address log,
        dab_block_number = rl_block_number log,
        dab_tx_hash = rl_tx_hash log\<rparr>)"

section \<open>Permit2\<close>

record decoded_permit =
  dpp_owner :: evm_address
  dpp_token :: evm_address
  dpp_spender :: evm_address
  dpp_amount :: u256
  dpp_expiration :: u64
  dpp_nonce :: u64
  dpp_block_number :: u64
  dpp_tx_hash :: string
  dpp_log_index :: u32

definition try_decode_permit ::
    "hex_encoder \<Rightarrow> hex_decoder \<Rightarrow> hash_fn \<Rightarrow> raw_log \<Rightarrow> (decoded_permit option, adapter_error) result" where
  "try_decode_permit hex_enc hex_dec keccak log =
     decode_gate hex_enc hex_dec keccak permit2_Permit log (\<lambda>fs.
       \<lparr>dpp_owner = address_field fs ''owner'',
        dpp_token = address_field fs ''token'',
        dpp_spender = address_field fs ''spender'',
        dpp_amount = uint_field fs ''amount'',
        dpp_expiration = low_u64 (uint_field fs ''expiration''),
        dpp_nonce = low_u64 (uint_field fs ''nonce''),
        dpp_block_number = rl_block_number log,
        dpp_tx_hash = rl_tx_hash log,
        dpp_log_index = rl_log_index log\<rparr>)"

record decoded_permit2_approval =
  dpa_owner :: evm_address
  dpa_token :: evm_address
  dpa_spender :: evm_address
  dpa_amount :: u256
  dpa_expiration :: u64
  dpa_block_number :: u64
  dpa_tx_hash :: string
  dpa_log_index :: u32

definition try_decode_permit2_approval ::
    "hex_encoder \<Rightarrow> hex_decoder \<Rightarrow> hash_fn \<Rightarrow> raw_log \<Rightarrow> (decoded_permit2_approval option, adapter_error) result" where
  "try_decode_permit2_approval hex_enc hex_dec keccak log =
     decode_gate hex_enc hex_dec keccak permit2_Approval log (\<lambda>fs.
       \<lparr>dpa_owner = address_field fs ''owner'',
        dpa_token = address_field fs ''token'',
        dpa_spender = address_field fs ''spender'',
        dpa_amount = uint_field fs ''amount'',
        dpa_expiration = low_u64 (uint_field fs ''expiration''),
        dpa_block_number = rl_block_number log,
        dpa_tx_hash = rl_tx_hash log,
        dpa_log_index = rl_log_index log\<rparr>)"

record decoded_lockdown =
  dpl_owner :: evm_address
  dpl_token :: evm_address
  dpl_spender :: evm_address
  dpl_block_number :: u64
  dpl_tx_hash :: string
  dpl_log_index :: u32

definition try_decode_lockdown ::
    "hex_encoder \<Rightarrow> hex_decoder \<Rightarrow> hash_fn \<Rightarrow> raw_log \<Rightarrow> (decoded_lockdown option, adapter_error) result" where
  "try_decode_lockdown hex_enc hex_dec keccak log =
     decode_gate hex_enc hex_dec keccak permit2_Lockdown log (\<lambda>fs.
       \<lparr>dpl_owner = address_field fs ''owner'',
        dpl_token = address_field fs ''token'',
        dpl_spender = address_field fs ''spender'',
        dpl_block_number = rl_block_number log,
        dpl_tx_hash = rl_tx_hash log,
        dpl_log_index = rl_log_index log\<rparr>)"

record decoded_nonce_invalidation =
  dpn_owner :: evm_address
  dpn_token :: evm_address
  dpn_spender :: evm_address
  dpn_new_nonce :: u64
  dpn_old_nonce :: u64
  dpn_block_number :: u64
  dpn_tx_hash :: string
  dpn_log_index :: u32

definition try_decode_nonce_invalidation ::
    "hex_encoder \<Rightarrow> hex_decoder \<Rightarrow> hash_fn \<Rightarrow> raw_log \<Rightarrow> (decoded_nonce_invalidation option, adapter_error) result" where
  "try_decode_nonce_invalidation hex_enc hex_dec keccak log =
     decode_gate hex_enc hex_dec keccak permit2_NonceInvalidation log (\<lambda>fs.
       \<lparr>dpn_owner = address_field fs ''owner'',
        dpn_token = address_field fs ''token'',
        dpn_spender = address_field fs ''spender'',
        dpn_new_nonce = low_u64 (uint_field fs ''newNonce''),
        dpn_old_nonce = low_u64 (uint_field fs ''oldNonce''),
        dpn_block_number = rl_block_number log,
        dpn_tx_hash = rl_tx_hash log,
        dpn_log_index = rl_log_index log\<rparr>)"

record decoded_unordered_nonce =
  dpu_owner :: evm_address
  dpu_word :: u256
  dpu_mask :: u256
  dpu_block_number :: u64
  dpu_tx_hash :: string
  dpu_log_index :: u32

definition try_decode_unordered_nonce ::
    "hex_encoder \<Rightarrow> hex_decoder \<Rightarrow> hash_fn \<Rightarrow> raw_log \<Rightarrow> (decoded_unordered_nonce option, adapter_error) result" where
  "try_decode_unordered_nonce hex_enc hex_dec keccak log =
     decode_gate hex_enc hex_dec keccak permit2_UnorderedNonceInvalidation log (\<lambda>fs.
       \<lparr>dpu_owner = address_field fs ''owner'',
        dpu_word = uint_field fs ''word'',
        dpu_mask = uint_field fs ''mask'',
        dpu_block_number = rl_block_number log,
        dpu_tx_hash = rl_tx_hash log,
        dpu_log_index = rl_log_index log\<rparr>)"

definition is_max_approval :: "decoded_permit \<Rightarrow> bool" where
  "is_max_approval d = (let max_uint160 = push_bit 160 (1 :: u256) - 1 in dpp_amount d = max_uint160)"

section \<open>Factory events as pool events\<close>

text \<open>
  The three conversions parse the checksummed texts of the decoded addresses back into common
  addresses and wrap every failure into a \<open>DecodeError\<close> with their own context. \<open>factory_event\<close>
  is the sequence of parses they share; \<open>ctx\<close> is the function name and \<open>pool_label\<close> the last
  part of the context for the pool address.
\<close>

definition parse_in_context ::
    "(u64 \<Rightarrow> string) \<Rightarrow> string \<Rightarrow> ('a, common_error) result \<Rightarrow> ('a, adapter_error) result" where
  "parse_in_context show_f64 context r =
     map_err (\<lambda>e. AdapterDecodeError context (common_error_display show_f64 e)) r"

definition factory_event ::
    "hex_encoder \<Rightarrow> hex_decoder \<Rightarrow> hash_fn \<Rightarrow> b58_encoder \<Rightarrow> b58_decoder \<Rightarrow> (u64 \<Rightarrow> string) \<Rightarrow>
     string \<Rightarrow> string \<Rightarrow> evm_address \<Rightarrow> evm_address \<Rightarrow> evm_address \<Rightarrow> string \<Rightarrow> u64 \<Rightarrow> u32 \<Rightarrow> dex_kind \<Rightarrow>
     chain \<Rightarrow> address \<Rightarrow> date_time \<Rightarrow> (pool_event, adapter_error) result" where
  "factory_event hex_enc hex_dec keccak b58_enc b58_dec show_f64
       ctx pool_label t0 t1 pool_addr tx_text block_number log_index dex chain actor block_time =
     (let token0_hex = evm_address_display hex_enc keccak t0;
          token1_hex = evm_address_display hex_enc keccak t1;
          pool_hex = evm_address_display hex_enc keccak pool_addr
      in and_then (parse_in_context show_f64 (ctx @ '': token0'') (address_parse b58_enc b58_dec chain token0_hex)) (\<lambda>token0.
         and_then (parse_in_context show_f64 (ctx @ '': token1'') (address_parse b58_enc b58_dec chain token1_hex)) (\<lambda>token1.
         and_then (parse_in_context show_f64 (ctx @ '': '' @ pool_label) (address_parse b58_enc b58_dec chain pool_hex)) (\<lambda>pool.
         and_then (parse_in_context show_f64 (ctx @ '': tx_hash'') (evm_from_hex hex_dec tx_text)) (\<lambda>tx_hash.
         Ok \<lparr>p_chain = chain, p_tx_hash = tx_hash, p_block = block_ref_new chain block_number,
             p_block_time = block_time, p_pool = pool, p_dex = dex,
             p_kind = PoolInitialize token0 token1, p_actor = actor, p_log_index = log_index\<rparr>)))))"

definition pair_created_to_pool_event ::
    "hex_encoder \<Rightarrow> hex_decoder \<Rightarrow> hash_fn \<Rightarrow> b58_encoder \<Rightarrow> b58_decoder \<Rightarrow> (u64 \<Rightarrow> string) \<Rightarrow>
     decoded_v2_pair_created \<Rightarrow> chain \<Rightarrow> address \<Rightarrow> date_time \<Rightarrow> (pool_event, adapter_error) result" where
  "pair_created_to_pool_event hex_enc hex_dec keccak b58_enc b58_dec show_f64 decoded chain actor block_time =
     factory_event hex_enc hex_dec keccak b58_enc b58_dec show_f64
       ''pair_created_to_pool_event'' ''pair'' (d2p_token0 decoded) (d2p_token1 decoded) (d2p_pair decoded)
       (d2p_tx_hash decoded) (d2p_block_number decoded) (d2p_log_index decoded)
       (if chain = Bsc then PancakeSwapV2 else UniswapV2) chain actor block_time"

definition pool_created_to_pool_event ::
    "hex_encoder \<Rightarrow> hex_decoder \<Rightarrow> hash_fn \<Rightarrow> b58_encoder \<Rightarrow> b58_decoder \<Rightarrow> (u64 \<Rightarrow> string) \<Rightarrow>
     decoded_v3_pool_created \<Rightarrow> chain \<Rightarrow> address \<Rightarrow> date_time \<Rightarrow> (pool_event, adapter_error) result" where
  "pool_created_to_pool_event hex_enc hex_dec keccak b58_enc b58_dec show_f64 decoded chain actor block_time =
     factory_event hex_enc hex_dec keccak b58_enc b58_dec show_f64
       ''pool_created_to_pool_event'' ''pool'' (d3p_token0 decoded) (d3p_token1 decoded) (d3p_pool decoded)
       (d3p_tx_hash decoded) (d3p_block_number decoded) (d3p_log_index decoded)
       (if chain = Bsc then PancakeSwapV3 else UniswapV3) chain actor block_time"

definition aerodrome_pool_created_to_pool_event ::
    "hex_encoder \<Rightarrow> hex_decoder \<Rightarrow> hash_fn \<Rightarrow> b58_encoder \<Rightarrow> b58_decoder \<Rightarrow> (u64 \<Rightarrow> string) \<Rightarrow>
     decoded_aerodrome_pool_created \<Rightarrow> chain \<Rightarrow> address \<Rightarrow> date_time \<Rightarrow> (pool_event, adapter_error) result" where
  "aerodrome_pool_created_to_pool_event hex_enc hex_dec keccak b58_enc b58_dec show_f64 decoded chain actor block_time =
     factory_event hex_enc hex_dec keccak b58_enc b58_dec show_f64
       ''aerodrome_pool_created_to_pool_event'' ''pool'' (dap_token0 decoded) (dap_token1 decoded) (dap_pool decoded)
       (dap_tx_hash decoded) (dap_block_number decoded) (dap_log_index decoded)
       Aerodrome chain actor block_time"

section \<open>Topic constants\<close>

definition AERODROME_POOL_CREATED_TOPIC0 :: string where [decl_defs]:
  "AERODROME_POOL_CREATED_TOPIC0 = ''0x2128d88d14c80cb081c1252a5acff7a264671bf199ce226b53788fb26065005e''"

definition TRANSFER_TOPIC0 :: string where [decl_defs]:
  "TRANSFER_TOPIC0 = ''0xddf252ad1be2c89b69c2b068fc378daa952ba7f163c4a11628f55a4df523b3ef''"

definition APPROVAL_TOPIC0 :: string where [decl_defs]:
  "APPROVAL_TOPIC0 = ''0x8c5be1e5ebec7d5bd14f71427d1e84f3dd0314c0f7b2291e5b200ac8c7c3b925''"

definition UNISWAP_V2_SWAP_TOPIC0 :: string where [decl_defs]:
  "UNISWAP_V2_SWAP_TOPIC0 = ''0xd78ad95fa46c994b6551d0da85fc275fe613ce37657fb8d5e3d130840159d822''"

definition UNISWAP_V2_MINT_TOPIC0 :: string where [decl_defs]:
  "UNISWAP_V2_MINT_TOPIC0 = ''0x4c209b5fc8ad50758f13e2e1088ba56a560dff690a1c6fef26394f4c03821c4f''"

definition UNISWAP_V2_BURN_TOPIC0 :: string where [decl_defs]:
  "UNISWAP_V2_BURN_TOPIC0 = ''0xdccd412f0b1252819cb1fd330b93224ca42612892bb3f4f789976e6d81936496''"

definition UNISWAP_V3_SWAP_TOPIC0 :: string where [decl_defs]:
  "UNISWAP_V3_SWAP_TOPIC0 = ''0xc42079f94a6350d7e6235f29174924f928cc2ac818eb64fed8004e115fbcca67''"

definition UNISWAP_V3_MINT_TOPIC0 :: string where [decl_defs]:
  "UNISWAP_V3_MINT_TOPIC0 = ''0x7a53080ba414158be7ec69b987b5fb7d07dee101fe85488f0853ae16239d0bde''"

definition UNISWAP_V3_BURN_TOPIC0 :: string where [decl_defs]:
  "UNISWAP_V3_BURN_TOPIC0 = ''0x0c396cd989a39f4459b5fa1aed6a9a8dcdbc45908acfd67e028cd568da98982c''"

definition PANCAKE_V3_SWAP_TOPIC0 :: string where [decl_defs]:
  "PANCAKE_V3_SWAP_TOPIC0 = ''0x19b47279256b2a23a1665c810c8d55a1758940ee09377d4f8d26497a3577dc83''"

definition AERODROME_SWAP_TOPIC0 :: string where [decl_defs]:
  "AERODROME_SWAP_TOPIC0 = ''0xb3e2773606abfd36b5bd91394b3a54d1398336c65005baf7bf7a05efeffaf75b''"

definition AERODROME_MINT_TOPIC0 :: string where [decl_defs]:
  "AERODROME_MINT_TOPIC0 = ''0x4c209b5fc8ad50758f13e2e1088ba56a560dff690a1c6fef26394f4c03821c4f''"

definition AERODROME_BURN_TOPIC0 :: string where [decl_defs]:
  "AERODROME_BURN_TOPIC0 = ''0x5d624aa9c148153ab3446c1b154f660ee7701e549fe9b62dab7171b1c80e6fa2''"

definition PANCAKE_V3_MINT_TOPIC0 :: string where [decl_defs]:
  "PANCAKE_V3_MINT_TOPIC0 = ''0x7a53080ba414158be7ec69b987b5fb7d07dee101fe85488f0853ae16239d0bde''"

definition PANCAKE_V3_BURN_TOPIC0 :: string where [decl_defs]:
  "PANCAKE_V3_BURN_TOPIC0 = ''0x0c396cd989a39f4459b5fa1aed6a9a8dcdbc45908acfd67e028cd568da98982c''"

definition UNISWAP_V2_PAIR_CREATED_TOPIC0 :: string where [decl_defs]:
  "UNISWAP_V2_PAIR_CREATED_TOPIC0 = ''0x0d3648bd0f6ba80134a33ba9275ac585d9d315f0ad8355cddefde31afa28d0e9''"

definition UNISWAP_V3_POOL_CREATED_TOPIC0 :: string where [decl_defs]:
  "UNISWAP_V3_POOL_CREATED_TOPIC0 = ''0x783cca1c0412dd0d695e784568c96da2e9c22ff989357a2e8b1d9b2b4e6b7118''"

definition PERMIT2_PERMIT_TOPIC0 :: string where [decl_defs]:
  "PERMIT2_PERMIT_TOPIC0 = ''0xc6a377bfc4eb120024a8ac08eef205be16b817020812c73223e81d1bdb9708ec''"

definition PERMIT2_APPROVAL_TOPIC0 :: string where [decl_defs]:
  "PERMIT2_APPROVAL_TOPIC0 = ''0xda9fa7c1b00402c17d0161b249b1ab8bbec047c5a52207b9c112deffd817036b''"

definition PERMIT2_LOCKDOWN_TOPIC0 :: string where [decl_defs]:
  "PERMIT2_LOCKDOWN_TOPIC0 = ''0x89b1add15eff56b3dfe299ad94e01f2b52fbcb80ae1a3baea6ae8c04cb2b98a4''"

definition PERMIT2_NONCE_INVALIDATION_TOPIC0 :: string where [decl_defs]:
  "PERMIT2_NONCE_INVALIDATION_TOPIC0 = ''0x55eb90d810e1700b35a8e7e25395ff7f2b2259abd7415ca2284dfb1c246418f3''"

definition PERMIT2_UNORDERED_NONCE_TOPIC0 :: string where [decl_defs]:
  "PERMIT2_UNORDERED_NONCE_TOPIC0 = ''0x3704902f963766a4e561bbaab6e6cdc1b1dd12f6e9e99648da8843b3f46b918d''"

text \<open>The signature that the documentation of each constant names, with the constant.\<close>

definition documented_topics :: "(string \<times> string) list" where [decl_defs]:
  "documented_topics =
     [(''PoolCreated(address,address,bool,address,uint256)'', AERODROME_POOL_CREATED_TOPIC0),
      (''Transfer(address,address,uint256)'', TRANSFER_TOPIC0),
      (''Approval(address,address,uint256)'', APPROVAL_TOPIC0),
      (''Swap(address,uint256,uint256,uint256,uint256,address)'', UNISWAP_V2_SWAP_TOPIC0),
      (''Mint(address,uint256,uint256)'', UNISWAP_V2_MINT_TOPIC0),
      (''Burn(address,uint256,uint256,address)'', UNISWAP_V2_BURN_TOPIC0),
      (''Swap(address,address,int256,int256,uint160,uint128,int24)'', UNISWAP_V3_SWAP_TOPIC0),
      (''Mint(address,address,int24,int24,uint128,uint256,uint256)'', UNISWAP_V3_MINT_TOPIC0),
      (''Burn(address,int24,int24,uint128,uint256,uint256)'', UNISWAP_V3_BURN_TOPIC0),
      (''Swap(address,address,int256,int256,uint160,uint128,int24,uint128,uint128)'', PANCAKE_V3_SWAP_TOPIC0),
      (''Swap(address,address,uint256,uint256,uint256,uint256)'', AERODROME_SWAP_TOPIC0),
      (''Mint(address,uint256,uint256)'', AERODROME_MINT_TOPIC0),
      (''Burn(address,address,uint256,uint256)'', AERODROME_BURN_TOPIC0),
      (''Mint(address,address,int24,int24,uint128,uint256,uint256)'', PANCAKE_V3_MINT_TOPIC0),
      (''Burn(address,int24,int24,uint128,uint256,uint256)'', PANCAKE_V3_BURN_TOPIC0),
      (''PairCreated(address,address,address,uint256)'', UNISWAP_V2_PAIR_CREATED_TOPIC0),
      (''PoolCreated(address,address,uint24,int24,address)'', UNISWAP_V3_POOL_CREATED_TOPIC0),
      (''Permit(address,address,address,uint160,uint48,uint48)'', PERMIT2_PERMIT_TOPIC0),
      (''Approval(address,address,address,uint160,uint48)'', PERMIT2_APPROVAL_TOPIC0),
      (''Lockdown(address,address,address)'', PERMIT2_LOCKDOWN_TOPIC0),
      (''NonceInvalidation(address,address,address,uint48,uint48)'', PERMIT2_NONCE_INVALIDATION_TOPIC0),
      (''UnorderedNonceInvalidation(address,uint256,uint256)'', PERMIT2_UNORDERED_NONCE_TOPIC0)]"

end
