(* ===== verification/EthDecoderProps.thy ===== *)
theory EthDecoderProps
  imports EthDecoder
begin

text \<open>
  Correctness of the EVM log decoders: the topic constants against the macro's signature hashes,
  end-to-end decoding of the logs that the events emit, disjointness of the decoders, the class of
  their errors, and the conversion of factory events.
\<close>

section \<open>Known digests\<close>

text \<open>
  What the program relies on of Keccak-256: digests have 32 bytes, and the digests of the event
  signatures are the published topic values, as the documentation of the constants states.
\<close>

locale keccak_vectors = hash32 +
  fixes hex_enc :: hex_encoder
  assumes vectors: "(sig, t) \<in> set documented_topics \<Longrightarrow> t = ''0x'' @ hex_enc (h (bytes_of_string sig))"

text \<open>A hash that has these digests, as an instance of the laws.\<close>

definition unhex :: "string \<Rightarrow> bytes" where
  "unhex t = (case ref_hex_dec (drop 2 t) of Inr d \<Rightarrow> d | Inl _ \<Rightarrow> [])"

definition keccak_table :: hash_fn where
  "keccak_table bs =
     (case find (\<lambda>(sig, t). bytes_of_string sig = bs) documented_topics of
        Some (sig, t) \<Rightarrow> unhex t | None \<Rightarrow> replicate 32 0)"

lemma documented_topics_hex:
  "list_all (\<lambda>(sig, t). take 2 t = ''0x'' \<and> length (drop 2 t) = 64 \<and>
      list_all is_lower_hexdigit (drop 2 t)) documented_topics"
  by code_simp

lemma documented_topics_functional:
  "list_all (\<lambda>(s, t). list_all (\<lambda>(s', t'). s = s' \<longrightarrow> t = t') documented_topics) documented_topics"
  by code_simp

lemma unhex_documented:
  assumes "(sig, t) \<in> set documented_topics"
  shows "length (unhex t) = 32 \<and> t = ''0x'' @ ref_hex_enc (unhex t)"
proof -
  have t: "take 2 t = ''0x''" and len: "length (drop 2 t) = 64" and low: "list_all is_lower_hexdigit (drop 2 t)"
    using assms documented_topics_hex by (auto simp: list_all_iff)
  have hex: "list_all is_hexdigit (drop 2 t)" and same: "map to_lower (drop 2 t) = drop 2 t"
    using low by (auto simp: list_all_iff lower_hexdigit_is_hexdigit lower_hexdigit_to_lower intro: map_idI)
  then obtain bs where bs: "ref_hex_dec (drop 2 t) = Inr bs"
    using ref_hex.dec_total [of "drop 2 t"] len by (metis even_numeral)
  then have "ref_hex_enc bs = drop 2 t"
    using ref_hex.dec_lower [OF bs] same by simp
  moreover have "length bs = 32"
    using ref_hex.dec_length [OF bs] len by simp
  moreover have "t = ''0x'' @ drop 2 t"
    using t append_take_drop_id [of 2 t] by simp
  ultimately show ?thesis using bs by (simp add: unhex_def)
qed

lemma string_of_bytes_of_string [simp]: "string_of_bytes (bytes_of_string s) = s"
  by (induction s) (simp_all add: bytes_of_string_def string_of_bytes_def unat_of_nat)

lemma bytes_of_string_inj: "bytes_of_string s = bytes_of_string t \<Longrightarrow> s = t"
  by (metis string_of_bytes_of_string)

lemma keccak_table_documented:
  assumes "(sig, t) \<in> set documented_topics"
  shows "keccak_table (bytes_of_string sig) = unhex t"
proof -
  have "find (\<lambda>(s, _). bytes_of_string s = bytes_of_string sig) documented_topics \<noteq> None"
    using assms by (auto simp: find_None_iff)
  then obtain s' t' where f: "find (\<lambda>(s, _). bytes_of_string s = bytes_of_string sig) documented_topics = Some (s', t')"
    by auto
  then have "(s', t') \<in> set documented_topics" and "s' = sig"
    by (auto simp: find_Some_iff dest: bytes_of_string_inj nth_mem)
  with assms documented_topics_functional have "t' = t"
    by (auto simp: list_all_iff)
  with f show ?thesis by (simp add: keccak_table_def)
qed

interpretation table: keccak_vectors keccak_table ref_hex_enc
proof
  fix bs
  show "length (keccak_table bs) = 32"
    using unhex_documented
    by (auto simp: keccak_table_def find_Some_iff split: option.split dest!: nth_mem)
next
  fix sig t assume "(sig, t) \<in> set documented_topics"
  then show "t = ''0x'' @ ref_hex_enc (keccak_table (bytes_of_string sig))"
    using unhex_documented keccak_table_documented by metis
qed

section \<open>The decoders' events\<close>

text \<open>Every event a decoder is gated on, with the constant that the code documents for it.\<close>

definition decoder_events :: "(event_decl \<times> string) list" where
  "decoder_events =
     [(Transfer_decl, TRANSFER_TOPIC0), (Approval_decl, APPROVAL_TOPIC0),
      (univ2_Swap, UNISWAP_V2_SWAP_TOPIC0), (univ2_Mint, UNISWAP_V2_MINT_TOPIC0),
      (univ2_Burn, UNISWAP_V2_BURN_TOPIC0), (univ3_Swap, UNISWAP_V3_SWAP_TOPIC0),
      (univ3_Mint, UNISWAP_V3_MINT_TOPIC0), (univ3_Burn, UNISWAP_V3_BURN_TOPIC0),
      (pancake_v3_Swap, PANCAKE_V3_SWAP_TOPIC0), (aerodrome_Swap, AERODROME_SWAP_TOPIC0),
      (aerodrome_Mint, AERODROME_MINT_TOPIC0), (aerodrome_Burn, AERODROME_BURN_TOPIC0),
      (uniswap_v2_factory_PairCreated, UNISWAP_V2_PAIR_CREATED_TOPIC0),
      (uniswap_v3_factory_PoolCreated, UNISWAP_V3_POOL_CREATED_TOPIC0),
      (aerodrome_factory_PoolCreated, AERODROME_POOL_CREATED_TOPIC0),
      (permit2_Permit, PERMIT2_PERMIT_TOPIC0), (permit2_Approval, PERMIT2_APPROVAL_TOPIC0),
      (permit2_Lockdown, PERMIT2_LOCKDOWN_TOPIC0),
      (permit2_NonceInvalidation, PERMIT2_NONCE_INVALIDATION_TOPIC0),
      (permit2_UnorderedNonceInvalidation, PERMIT2_UNORDERED_NONCE_TOPIC0)]"

lemma decoder_events_documented:
  "list_all (\<lambda>(d, t). (canonical_signature d, t) \<in> set documented_topics) decoder_events"
  by code_simp

lemma decoder_events_distinct:
  "list_all (\<lambda>(d, t). list_all (\<lambda>(d', t'). t = t' \<longrightarrow> d = d') decoder_events) decoder_events"
  by code_simp

lemma decoder_events_wf:
  "list_all (\<lambda>(d, t). wf_event d \<and> list_all (\<lambda>p. \<not> sol_is_dynamic (p_ty p)) (ev_params d)) decoder_events"
  by code_simp

section \<open>Wire logs\<close>

text \<open>The JSON-RPC form of a typed log, as a node delivers it.\<close>

definition wire_log ::
    "hex_encoder \<Rightarrow> typed_raw_log \<Rightarrow> string \<Rightarrow> u64 \<Rightarrow> string \<Rightarrow> u32 \<Rightarrow> raw_log" where
  "wire_log hex_enc log addr block_number tx log_index =
     \<lparr>rl_address = addr, rl_topics = map (b256_display hex_enc) (trl_topics log),
      rl_data = trl_data log, rl_block_number = block_number, rl_tx_hash = tx,
      rl_log_index = log_index\<rparr>"

lemma topic_hex_display [simp]: "topic_hex (b256_display hex_enc t) = hex_enc (b256_bytes t)"
  by (simp add: topic_hex_def b256_display_def)

lemma raw_log_to_typed_wire:
  assumes hex: "hex_codec hex_enc hex_dec" and wf: "\<forall>t \<in> set (trl_topics log). wf_b256 t"
  obtains a where "raw_log_to_typed hex_dec (wire_log hex_enc log addr bn tx li) = Ok (log\<lparr>trl_address := a\<rparr>)"
proof -
  have "collect_results (topic_to_b256 hex_dec) (enumerate 0 (map (b256_display hex_enc) (trl_topics log))) =
      Ok (trl_topics log)"
    unfolding collect_results_Ok
    using wf hex_codec.dec_enc [OF hex]
    by (auto simp: list_all2_conv_all_nth nth_enumerate_eq topic_to_b256_def wf_b256_def)
  then show ?thesis
    using that by (cases log) (auto simp: raw_log_to_typed_def wire_log_def Let_def)
qed

lemma topic0_matches_wire:
  assumes "hex_codec hex_enc hex_dec" and "trl_topics log = t # ts" and "wf_b256 t"
  shows "topic0_matches hex_dec (wire_log hex_enc log addr bn tx li) e \<longleftrightarrow> t = e"
  using assms(2,3) hex_codec.dec_enc [OF assms(1)]
  by (cases t; cases e) (auto simp: topic0_matches_def wire_log_def wf_b256_def)

lemma decode_log_address: "decode_log hex_enc keccak d (log\<lparr>trl_address := a\<rparr>) = decode_log hex_enc keccak d log"
  by (cases log) (simp add: decode_log_def check_topic0_def topic0_def cong: if_cong)

lemma abi_encode_static_length:
  assumes ok: "list_all2 token_ok tys ts" and st: "list_all (\<lambda>t. \<not> is_dynamic_token t) ts"
  shows "length (abi_encode ts) = 32 * length ts"
proof -
  have "concat (map enc_tail ts) = []"
    using st by (auto simp: enc_tail_def list_all_iff)
  moreover have "length (concat (map (enc_head ts) [0..<length ts])) = length ts * 32"
    using length_enc_head [OF _ ok] by (subst length_concat_blocks [of _ 32]) auto
  ultimately show ?thesis by (simp add: abi_encode_def)
qed

text \<open>A well-formed event all of whose fields are static, and few enough to fit a machine.\<close>

definition static_event :: "event_decl \<Rightarrow> bool" where
  "static_event d = (wf_event d \<and> list_all (\<lambda>p. \<not> sol_is_dynamic (p_ty p)) (ev_params d) \<and>
     length (ev_params d) < 100)"

lemma encode_log_static:
  assumes st: "static_event d" and ok: "values_ok d vs" and h: "\<And>bs. length (keccak bs) = 32"
  shows "length (trl_data (encode_log keccak d a vs)) < 2 ^ 64"
    and "\<forall>t \<in> set (trl_topics (encode_log keccak d a vs)). wf_b256 t"
proof -
  let ?fv = "\<lambda>P. field_values P d vs"
  have fv: "list_all2 (\<lambda>p v. token_ok (p_ty p) v \<and> \<not> is_dynamic_token v) (filter P (ev_params d)) (?fv P)" for P
    by (rule list.rel_mono_strong [OF field_values_ok [OF ok, of P]])
       (use st in \<open>auto simp: static_event_def list_all_iff static_token_of_type\<close>)
  then have st': "list_all (\<lambda>t. \<not> is_dynamic_token t) (?fv P)" for P
    by (auto simp: list_all_length list_all2_conv_all_nth)
  let ?nx = "filter (\<lambda>p. \<not> p_indexed p) (ev_params d)"
  have tys: "list_all2 token_ok (map p_ty ?nx) (?fv (\<lambda>p. \<not> p_indexed p))"
    using fv by (auto simp: list.rel_map list_all2_conv_all_nth)
  have "length (trl_data (encode_log keccak d a vs)) = 32 * length (?fv (\<lambda>p. \<not> p_indexed p))"
    using abi_encode_static_length [OF tys st'] by (simp add: encode_log_def)
  moreover have "length (?fv (\<lambda>p. \<not> p_indexed p)) < 100"
    using list_all2_lengthD [OF fv] st length_filter_le [of "\<lambda>p. \<not> p_indexed p" "ev_params d"]
    by (simp add: static_event_def order_le_less_trans)
  ultimately show "length (trl_data (encode_log keccak d a vs)) < 2 ^ 64" by simp
  have "length (static_slot v) = 32" if "v \<in> set (?fv p_indexed)" for v
    using that fv [of p_indexed]
    by (auto simp: in_set_conv_nth list_all2_conv_all_nth intro: static_slot_length)
  then show "\<forall>t \<in> set (trl_topics (encode_log keccak d a vs)). wf_b256 t"
    using h by (auto simp: encode_log_def wf_b256_def signature_hash_def)
qed

text \<open>The log that an event emits, in wire form, is decoded to the fields it was emitted with.\<close>

lemma gate_encode:
  assumes hex: "hex_codec hex_enc hex_dec" and h: "\<And>bs. length (keccak bs) = 32"
    and st: "static_event d" and ok: "values_ok d vs"
  shows "decode_gate hex_enc hex_dec keccak d (wire_log hex_enc (encode_log keccak d a vs) addr bn tx li) build =
    Ok (Some (build (zip (map p_name (ev_params d)) vs)))"
proof -
  let ?log = "encode_log keccak d a vs"
  note small = encode_log_static [where keccak = keccak and a = a, OF st ok h]
  obtain b where typed: "raw_log_to_typed hex_dec (wire_log hex_enc ?log addr bn tx li) = Ok (?log\<lparr>trl_address := b\<rparr>)"
    using raw_log_to_typed_wire [OF hex small(2)] .
  have "topic0_matches hex_dec (wire_log hex_enc ?log addr bn tx li) (signature_hash keccak d)"
    using small(2) by (subst topic0_matches_wire [OF hex]) (auto simp: encode_log_def)
  moreover have "decode_log hex_enc keccak d ?log = Ok (zip (map p_name (ev_params d)) vs)"
    using st small(1) by (intro decode_log_roundtrip) (auto simp: static_event_def ok)
  ultimately show ?thesis
    using typed by (simp add: decode_gate_def decode_log_address)
qed

lemma decoder_events_static: "list_all (\<lambda>(d, t). static_event d) decoder_events"
  by code_simp

lemma static_event_decl: "(d, t) \<in> set decoder_events \<Longrightarrow> static_event d"
  using decoder_events_static by (auto simp: list_all_iff)

lemmas event_field_simps = event_field_def address_field_def uint_field_def int_field_def bool_field_def

lemma hash32_table: "length (keccak_table bs) = 32"
  by (rule table.hash_length)

text \<open>Narrowing of decoded integers.\<close>

lemma sint_low32:
  assumes "- (2 ^ 31) \<le> sint v" and "sint v < 2 ^ 31"
  shows "sint (i256_to_i32 (I256 v)) = sint v"
proof -
  have "sint (i256_to_i32 (I256 v)) = signed_take_bit 31 (uint v)"
    by (simp add: i256_to_i32_def u256_limb0_def i256_into_raw_def signed_ucast_eq
        sint_uint unsigned_ucast_eq unsigned_take_bit_eq signed_take_bit_take_bit min_def)
  also have "\<dots> = signed_take_bit 31 (sint v)"
    by (simp add: sint_uint signed_take_bit_signed_take_bit)
  also have "\<dots> = sint v"
    using assms by (intro signed_take_bit_int_eq_self) auto
  finally show ?thesis .
qed

lemma uint_mod_limb: "unat (u256_limb0 v) = unat v mod 2 ^ 64"
  by (simp add: u256_limb0_def unsigned_ucast_eq unsigned_take_bit_eq take_bit_eq_mod)

lemma unat_low_u64: "unat (low_u64 v) = unat v mod 2 ^ 64"
  by (simp add: low_u64_def uint_mod_limb)

lemma unat_low_u128: "unat (low_u128 v) = unat v mod 2 ^ 128"
  by (simp add: low_u128_def unsigned_ucast_eq unsigned_take_bit_eq take_bit_eq_mod)

lemma unat_low_u32: "unat (low_u32 v) = unat v mod 2 ^ 32"
  by (simp add: low_u32_def unsigned_ucast_eq unsigned_take_bit_eq take_bit_eq_mod)

text \<open>Some decoder fails on the log with the error.\<close>

definition decoder_fails :: "hex_encoder \<Rightarrow> hex_decoder \<Rightarrow> hash_fn \<Rightarrow> raw_log \<Rightarrow> adapter_error \<Rightarrow> bool" where
  "decoder_fails hex_enc hex_dec keccak log e =
     (try_decode_transfer hex_enc hex_dec keccak log = Err e \<or>
      try_decode_approval hex_enc hex_dec keccak log = Err e \<or>
      try_decode_v2_swap hex_enc hex_dec keccak log = Err e \<or>
      try_decode_v2_mint hex_enc hex_dec keccak log = Err e \<or>
      try_decode_v2_burn hex_enc hex_dec keccak log = Err e \<or>
      try_decode_v3_swap hex_enc hex_dec keccak log = Err e \<or>
      try_decode_v3_mint hex_enc hex_dec keccak log = Err e \<or>
      try_decode_v3_burn hex_enc hex_dec keccak log = Err e \<or>
      try_decode_pancake_v3_swap hex_enc hex_dec keccak log = Err e \<or>
      try_decode_v2_pair_created hex_enc hex_dec keccak log = Err e \<or>
      try_decode_v3_pool_created hex_enc hex_dec keccak log = Err e \<or>
      try_decode_aerodrome_pool_created hex_enc hex_dec keccak log = Err e \<or>
      try_decode_aerodrome_swap hex_enc hex_dec keccak log = Err e \<or>
      try_decode_aerodrome_mint hex_enc hex_dec keccak log = Err e \<or>
      try_decode_aerodrome_burn hex_enc hex_dec keccak log = Err e \<or>
      try_decode_permit hex_enc hex_dec keccak log = Err e \<or>
      try_decode_permit2_approval hex_enc hex_dec keccak log = Err e \<or>
      try_decode_lockdown hex_enc hex_dec keccak log = Err e \<or>
      try_decode_nonce_invalidation hex_enc hex_dec keccak log = Err e \<or>
      try_decode_unordered_nonce hex_enc hex_dec keccak log = Err e)"

lemma decode_gate_error:
  "decode_gate hex_enc hex_dec keccak d log f = Err e \<Longrightarrow> \<exists>r. e = AdapterDecodeError ''ethereum_decoder'' r"
  by (auto simp: decode_gate_def and_then_eq_Inl map_err_eq_Inl adapter_of_decode_def split: if_splits)

lemma decoder_fails_error:
  "decoder_fails hex_enc hex_dec keccak log e \<Longrightarrow> \<exists>r. e = AdapterDecodeError ''ethereum_decoder'' r"
  unfolding decoder_fails_def try_decode_transfer_def try_decode_approval_def try_decode_v2_swap_def
    try_decode_v2_mint_def try_decode_v2_burn_def try_decode_v3_swap_def try_decode_v3_mint_def
    try_decode_v3_burn_def try_decode_pancake_v3_swap_def try_decode_v2_pair_created_def
    try_decode_v3_pool_created_def try_decode_aerodrome_pool_created_def try_decode_aerodrome_swap_def
    try_decode_aerodrome_mint_def try_decode_aerodrome_burn_def try_decode_permit_def
    try_decode_permit2_approval_def try_decode_lockdown_def try_decode_nonce_invalidation_def
    try_decode_unordered_nonce_def
  by (elim disjE; rule decode_gate_error)

text \<open>An EVM address as the canonical address of the common crate.\<close>

definition common_address :: "hex_encoder \<Rightarrow> chain \<Rightarrow> evm_address \<Rightarrow> address" where
  "common_address hex_enc c a = \<lparr>addr_chain = c, canonical = ''0x'' @ hex_enc (evm_address_bytes a)\<rparr>"

lemma address_of_display:
  assumes hex: "hex_codec hex_enc hex_dec" and b58: "base58_codec b58_enc b58_dec" and wf: "wf_evm_address a"
  shows "address_parse b58_enc b58_dec c (evm_address_display hex_enc keccak a) = Ok r \<longleftrightarrow>
    is_evm c \<and> r = \<lparr>addr_chain = c, canonical = ''0x'' @ hex_enc (evm_address_bytes a)\<rparr>"
proof (cases "is_evm c")
  case True
  let ?h = "to_checksum hex_enc keccak a"
  note low = to_checksum_lower [OF hex, of keccak a]
  have "evm_canonical c (''0x'' @ ?h) = Ok (''0x'' @ hex_enc (evm_address_bytes a))"
    using low wf by (auto simp: evm_canonical_Ok wf_evm_address_def)
  with True show ?thesis by (auto simp: address_parse_evm evm_address_display_def)
next
  case False
  have "b58_dec (''0x'' @ s) \<noteq> Inr bs" for s bs
    using base58_codec.dec_alphabet [OF b58, of "''0x'' @ s" bs] by (auto simp: b58_alphabet_def)
  with False show ?thesis
    by (cases c) (auto simp: address_parse_def evm_address_display_def and_then_eq_Inr)
qed

section \<open>Properties\<close>



text \<open>
  C10: The decoders are disjoint: a log that two decoders do not decline is gated on the same event,
  which happens for one pair only, the Uniswap V2 and the Aerodrome \<open>Mint\<close>, whose declarations
  are equal.
\<close>

theorem decoders_disjoint:
  assumes "keccak_vectors keccak hex_enc"
    and "(d, t) \<in> set decoder_events" and "(d', t') \<in> set decoder_events"
    and "decode_gate hex_enc hex_dec keccak d log f \<noteq> Ok None"
    and "decode_gate hex_enc hex_dec keccak d' log g \<noteq> Ok None"
  shows "d = d' \<and> t = t'"
proof -
  have "topic0_matches hex_dec log (signature_hash keccak d)" "topic0_matches hex_dec log (signature_hash keccak d')"
    using assms(4,5) by (auto simp: decode_gate_def split: if_splits)
  then have "signature_hash keccak d = signature_hash keccak d'"
    by (auto simp: topic0_matches_def intro: b256.expand split: list.splits sum.splits if_splits)
  moreover have "b256_display hex_enc (signature_hash keccak e) = u" if "(e, u) \<in> set decoder_events" for e u
    using that assms(1) decoder_events_documented keccak_vectors.vectors
    by (fastforce simp: list_all_iff b256_display_def signature_hash_def)
  ultimately have "t = t'" using assms(2,3) by metis
  then show ?thesis using assms(2,3) decoder_events_distinct by (auto simp: list_all_iff)
qed

lemma decoders_disjoint_witness: "univ2_Mint = aerodrome_Mint \<and> UNISWAP_V2_MINT_TOPIC0 = AERODROME_MINT_TOPIC0"
proof -
  let ?vs = "[TokAddress evm_address_zero, TokUint 1, TokUint 2]"
  have st: "static_event univ2_Mint" "static_event aerodrome_Mint"
    by (rule static_event_decl [of _ UNISWAP_V2_MINT_TOPIC0], simp add: decoder_events_def)
       (rule static_event_decl [of _ AERODROME_MINT_TOPIC0], simp add: decoder_events_def)
  have ok: "values_ok univ2_Mint ?vs" "values_ok aerodrome_Mint ?vs"
    by (simp_all add: values_ok_def univ2_Mint_def aerodrome_Mint_def wf_evm_address_def evm_address_zero_def)
  have same: "encode_log keccak_table univ2_Mint a ?vs = encode_log keccak_table aerodrome_Mint a ?vs" for a
    by (simp add: univ2_Mint_def aerodrome_Mint_def)
  let ?log = "wire_log ref_hex_enc (encode_log keccak_table univ2_Mint evm_address_zero ?vs) ''0xp'' 1 ''0xt'' 1"
  have "decode_gate ref_hex_enc ref_hex_dec keccak_table univ2_Mint ?log (\<lambda>_. ()) \<noteq> Ok None"
    by (subst gate_encode [OF ref_hex.hex_codec_axioms hash32_table st(1) ok(1)]) simp
  moreover have "decode_gate ref_hex_enc ref_hex_dec keccak_table aerodrome_Mint ?log (\<lambda>_. ()) \<noteq> Ok None"
    by (subst same, subst gate_encode [OF ref_hex.hex_codec_axioms hash32_table st(2) ok(2)]) simp
  ultimately show ?thesis
    by (intro decoders_disjoint [OF table.keccak_vectors_axioms]) (simp_all add: decoder_events_def)
qed

text \<open>
  C11: An ERC-20 \<open>Transfer\<close> log is decoded to the sender, recipient and amount it was emitted
  with, for all 20-byte addresses and all 256-bit amounts, and the log's metadata is copied.
\<close>

theorem transfer_decodes:
  assumes hex: "hex_codec hex_enc hex_dec" and h: "\<forall>bs. length (keccak bs) = 32"
    and wf: "wf_evm_address from" "wf_evm_address to"
  shows "try_decode_transfer hex_enc hex_dec keccak
      (wire_log hex_enc (encode_log keccak Transfer_decl a [TokAddress from, TokAddress to, TokUint v])
         contract bn tx li) =
    Ok (Some \<lparr>dt_from = from, dt_to = to, dt_value = v, dt_contract = contract,
              dt_block_number = bn, dt_tx_hash = tx, dt_log_index = li\<rparr>)"
proof -
  have "static_event Transfer_decl"
    by (rule static_event_decl [of _ TRANSFER_TOPIC0]) (simp add: decoder_events_def)
  moreover have "values_ok Transfer_decl [TokAddress from, TokAddress to, TokUint v]"
    using wf by (simp add: values_ok_def Transfer_decl_def)
  ultimately show ?thesis
    unfolding try_decode_transfer_def using h
    by (subst gate_encode [OF hex]) (simp_all add: Transfer_decl_def event_field_simps wire_log_def)
qed

lemma transfer_decodes_witness:
  "\<exists>d. try_decode_transfer ref_hex_enc ref_hex_dec keccak_table
      (wire_log ref_hex_enc (encode_log keccak_table Transfer_decl evm_address_zero
         [TokAddress (EvmAddress (replicate 20 1)), TokAddress (EvmAddress (replicate 20 2)), TokUint 5])
         ''0xc'' 7 ''0xt'' 3) = Ok (Some d) \<and> dt_value d = 5"
  using transfer_decodes [OF ref_hex.hex_codec_axioms, of keccak_table "EvmAddress (replicate 20 1)"
      "EvmAddress (replicate 20 2)" evm_address_zero 5 "''0xc''" 7 "''0xt''" 3] hash32_table
  by (simp add: wf_evm_address_def)

text \<open>
  C12: A Uniswap V3 \<open>Swap\<close> log is decoded to the values it was emitted with, and the narrowings
  lose nothing on the ranges the ABI types allow: a tick in the \<open>int24\<close> range keeps its sign and
  value as an \<open>i32\<close>, a \<open>uint128\<close> liquidity its value as a \<open>u128\<close>.
\<close>

theorem v3_swap_decodes:
  assumes hex: "hex_codec hex_enc hex_dec" and h: "\<forall>bs. length (keccak bs) = 32"
    and wf: "wf_evm_address sender" "wf_evm_address recipient"
    and tick: "- (2 ^ 23) \<le> sint tick" "sint tick < 2 ^ 23" and liq: "unat liquidity < 2 ^ 128"
  shows "\<exists>d. try_decode_v3_swap hex_enc hex_dec keccak
      (wire_log hex_enc (encode_log keccak univ3_Swap a
         [TokAddress sender, TokAddress recipient, TokInt (I256 amount0), TokInt (I256 amount1),
          TokUint sqrt_price, TokUint liquidity, TokInt (I256 tick)]) pool bn tx li) = Ok (Some d) \<and>
    d3s_sender d = sender \<and> d3s_recipient d = recipient \<and>
    sint (i256_raw (d3s_amount0 d)) = sint amount0 \<and> sint (i256_raw (d3s_amount1 d)) = sint amount1 \<and>
    d3s_sqrt_price_x96 d = sqrt_price \<and> unat (d3s_liquidity d) = unat liquidity \<and>
    sint (d3s_tick d) = sint tick \<and> d3s_pool d = pool \<and> d3s_block_number d = bn \<and> d3s_tx_hash d = tx"
proof -
  let ?vs = "[TokAddress sender, TokAddress recipient, TokInt (I256 amount0), TokInt (I256 amount1),
      TokUint sqrt_price, TokUint liquidity, TokInt (I256 tick)]"
  have "static_event univ3_Swap"
    by (rule static_event_decl [of _ UNISWAP_V3_SWAP_TOPIC0]) (simp add: decoder_events_def)
  moreover have "values_ok univ3_Swap ?vs"
    using wf by (simp add: values_ok_def univ3_Swap_def)
  moreover have "sint (i256_to_i32 (I256 tick)) = sint tick"
    using tick by (intro sint_low32) auto
  moreover have "unat (low_u128 liquidity) = unat liquidity"
    using liq by (simp add: unat_low_u128)
  ultimately show ?thesis
    unfolding try_decode_v3_swap_def using h
    by (subst gate_encode [OF hex]) (simp_all add: univ3_Swap_def event_field_simps wire_log_def)
qed

lemma v3_swap_decodes_witness:
  "\<exists>d. try_decode_v3_swap ref_hex_enc ref_hex_dec keccak_table
      (wire_log ref_hex_enc (encode_log keccak_table univ3_Swap evm_address_zero
         [TokAddress evm_address_zero, TokAddress evm_address_zero, TokInt (I256 3), TokInt (I256 (- 4)),
          TokUint 9, TokUint 10, TokInt (I256 (- 7))]) ''0xp'' 1 ''0xt'' 1) = Ok (Some d) \<and>
    sint (d3s_tick d) = - 7 \<and> sint (i256_raw (d3s_amount1 d)) = - 4"
  using v3_swap_decodes [OF ref_hex.hex_codec_axioms, of keccak_table evm_address_zero evm_address_zero
      "- 7" 10 evm_address_zero 3 "- 4" 9 "''0xp''" 1 "''0xt''" 1] hash32_table
  by (fastforce simp: wf_evm_address_def evm_address_zero_def)

text \<open>
  An Aerodrome \<open>Mint\<close> is decoded exactly like a Uniswap V2 \<open>Mint\<close>: the two decoders accept
  the same logs, fail on the same logs with the same error, and return the same fields.
\<close>

theorem aerodrome_mint_is_v2_mint:
  "try_decode_aerodrome_mint hex_enc hex_dec keccak log =
   and_then (try_decode_v2_mint hex_enc hex_dec keccak log) (\<lambda>r. Ok (map_option (\<lambda>d.
     \<lparr>dam_sender = d2m_sender d, dam_amount0 = d2m_amount0 d, dam_amount1 = d2m_amount1 d,
      dam_pool = d2m_pair d, dam_block_number = d2m_block_number d, dam_tx_hash = d2m_tx_hash d\<rparr>) r))"
proof -
  have "aerodrome_Mint = univ2_Mint" by (simp add: aerodrome_Mint_def univ2_Mint_def)
  then show ?thesis
    by (auto simp: try_decode_aerodrome_mint_def try_decode_v2_mint_def decode_gate_def and_then_def
        split: sum.splits)
qed

text \<open>
  A log that cannot be decoded never stops the stream: every error of the decoders is a
  \<open>DecodeError\<close> with the decoder's context, which callers skip; it never triggers a reconnect or a
  rate-limit wait. A decoder declines a log exactly when its first topic is not the 32-byte hex of
  the event's signature hash.
\<close>

theorem decoder_errors_skippable:
  "(decoder_fails hex_enc hex_dec keccak log e \<longrightarrow>
      is_skippable e \<and> \<not> is_reconnectable e \<and> \<not> is_rate_limit e \<and> err_context e = ''ethereum_decoder'') \<and>
   (decode_gate hex_enc hex_dec keccak d log f = Ok None \<longleftrightarrow>
      \<not> (\<exists>t ts. rl_topics log = t # ts \<and> hex_dec (topic_hex t) = Inr (b256_bytes (signature_hash keccak d)) \<and>
             length (b256_bytes (signature_hash keccak d)) = 32))"
proof (intro conjI impI)
  assume "decoder_fails hex_enc hex_dec keccak log e"
  then obtain r where "e = AdapterDecodeError ''ethereum_decoder'' r"
    using decoder_fails_error by blast
  then show "is_skippable e" "\<not> is_reconnectable e" "\<not> is_rate_limit e" "err_context e = ''ethereum_decoder''"
    by (simp_all add: is_skippable_def is_reconnectable_def is_rate_limit_def)
next
  show "decode_gate hex_enc hex_dec keccak d log f = Ok None \<longleftrightarrow>
      \<not> (\<exists>t ts. rl_topics log = t # ts \<and> hex_dec (topic_hex t) = Inr (b256_bytes (signature_hash keccak d)) \<and>
             length (b256_bytes (signature_hash keccak d)) = 32)"
    by (auto simp: decode_gate_def topic0_matches_def and_then_eq_Inr split: list.splits sum.splits if_splits)
qed

lemma decoder_errors_skippable_witness:
  "\<exists>e. try_decode_transfer ref_hex_enc ref_hex_dec keccak_table
      \<lparr>rl_address = [], rl_topics = [TRANSFER_TOPIC0], rl_data = [], rl_block_number = 1, rl_tx_hash = [],
       rl_log_index = 1\<rparr> = Err e \<and> is_skippable e"
proof -
  let ?log = "\<lparr>rl_address = [], rl_topics = [TRANSFER_TOPIC0], rl_data = [], rl_block_number = 1, rl_tx_hash = [],
       rl_log_index = 1\<rparr>"
  have "b256_display ref_hex_enc (signature_hash keccak_table Transfer_decl) = TRANSFER_TOPIC0"
    using table.vectors [of "canonical_signature Transfer_decl" TRANSFER_TOPIC0] decoder_events_documented
    by (simp add: decoder_events_def b256_display_def signature_hash_def)
  then have t: "TRANSFER_TOPIC0 = b256_display ref_hex_enc (signature_hash keccak_table Transfer_decl)" ..
  have wf: "wf_b256 (signature_hash keccak_table Transfer_decl)"
    by (simp add: wf_b256_def signature_hash_def hash32_table)
  let ?typed = "\<lparr>trl_address = evm_address_zero, trl_topics = [signature_hash keccak_table Transfer_decl], trl_data = []\<rparr>"
  have log: "?log = wire_log ref_hex_enc ?typed [] 1 [] 1" by (simp add: wire_log_def t)
  obtain a where "raw_log_to_typed ref_hex_dec (wire_log ref_hex_enc ?typed [] 1 [] 1) = Ok (?typed\<lparr>trl_address := a\<rparr>)"
    by (rule raw_log_to_typed_wire [OF ref_hex.hex_codec_axioms, of ?typed]) (use wf in auto)
  moreover have "topic0_matches ref_hex_dec (wire_log ref_hex_enc ?typed [] 1 [] 1) (signature_hash keccak_table Transfer_decl)"
    using wf by (subst topic0_matches_wire [OF ref_hex.hex_codec_axioms]) auto
  moreover have "\<exists>e. decode_log ref_hex_enc keccak_table Transfer_decl (?typed\<lparr>trl_address := a\<rparr>) = Err e"
    by (simp add: decode_log_def check_topic0_def topic0_def expected_topic_count_def indexed_params_def Transfer_decl_def)
  ultimately obtain e where "try_decode_transfer ref_hex_enc ref_hex_dec keccak_table ?log = Err e"
    unfolding log by (auto simp: try_decode_transfer_def decode_gate_def)
  moreover from this have "decoder_fails ref_hex_enc ref_hex_dec keccak_table ?log e"
    by (simp add: decoder_fails_def)
  ultimately show ?thesis
    using decoder_errors_skippable [of ref_hex_enc ref_hex_dec keccak_table ?log e] by blast
qed

text \<open>
  C13: The drainer signal of a Permit2 \<open>Permit\<close>: for every permit log, the decoded amount is the
  emitted one and \<open>is_max_approval\<close> holds exactly for \<open>2^160 - 1\<close>; expiration and nonce keep
  their values over the whole \<open>uint48\<close> range.
\<close>

theorem permit_decodes:
  assumes hex: "hex_codec hex_enc hex_dec" and h: "\<forall>bs. length (keccak bs) = 32"
    and wf: "wf_evm_address owner" "wf_evm_address token" "wf_evm_address spender"
    and u48: "unat expiration < 2 ^ 48" "unat nonce < 2 ^ 48"
  shows "\<exists>d. try_decode_permit hex_enc hex_dec keccak
      (wire_log hex_enc (encode_log keccak permit2_Permit a
         [TokAddress owner, TokAddress token, TokAddress spender, TokUint amount, TokUint expiration,
          TokUint nonce]) c bn tx li) = Ok (Some d) \<and>
    dpp_owner d = owner \<and> dpp_token d = token \<and> dpp_spender d = spender \<and> dpp_amount d = amount \<and>
    unat (dpp_expiration d) = unat expiration \<and> unat (dpp_nonce d) = unat nonce \<and>
    dpp_log_index d = li \<and> (is_max_approval d \<longleftrightarrow> unat amount = 2 ^ 160 - 1)"
proof -
  let ?vs = "[TokAddress owner, TokAddress token, TokAddress spender, TokUint amount, TokUint expiration, TokUint nonce]"
  have "static_event permit2_Permit"
    by (rule static_event_decl [of _ PERMIT2_PERMIT_TOPIC0]) (simp add: decoder_events_def)
  moreover have "values_ok permit2_Permit ?vs"
    using wf by (simp add: values_ok_def permit2_Permit_def)
  moreover have "unat (low_u64 expiration) = unat expiration" "unat (low_u64 nonce) = unat nonce"
    using u48 by (simp_all add: unat_low_u64)
  moreover have "amount = push_bit 160 1 - 1 \<longleftrightarrow> unat amount = 2 ^ 160 - 1"
    by (simp add: word_unat_eq_iff)
  ultimately show ?thesis
    unfolding try_decode_permit_def using h
    by (subst gate_encode [OF hex])
       (simp_all add: permit2_Permit_def event_field_simps wire_log_def is_max_approval_def)
qed

lemma permit_decodes_witness:
  "\<exists>d. try_decode_permit ref_hex_enc ref_hex_dec keccak_table
      (wire_log ref_hex_enc (encode_log keccak_table permit2_Permit evm_address_zero
         [TokAddress evm_address_zero, TokAddress evm_address_zero, TokAddress evm_address_zero,
          TokUint (2 ^ 160 - 1), TokUint 9999999999, TokUint 0]) ''0xc'' 1 ''0xt'' 1) = Ok (Some d) \<and>
    is_max_approval d"
  using permit_decodes [OF ref_hex.hex_codec_axioms, of keccak_table evm_address_zero evm_address_zero
      evm_address_zero 9999999999 0 evm_address_zero "2 ^ 160 - 1" "''0xc''" 1 "''0xt''" 1] hash32_table
  by (fastforce simp: wf_evm_address_def evm_address_zero_def)

text \<open>
  A decoded factory \<open>PairCreated\<close> becomes a pool event exactly on the EVM chains and with a
  well-formed transaction hash. The event's addresses are then the canonical lower-case hex of
  the decoded bytes on that chain (the checksum capitals are gone), the DEX is PancakeSwap V2 on
  BSC and Uniswap V2 elsewhere, and the log position is kept; every failure is skippable.
\<close>

theorem pair_created_conversion:
  assumes hex: "hex_codec hex_enc hex_dec" and b58: "base58_codec b58_enc b58_dec"
    and wf: "wf_evm_address (d2p_token0 d)" "wf_evm_address (d2p_token1 d)" "wf_evm_address (d2p_pair d)"
  shows "(pair_created_to_pool_event hex_enc hex_dec keccak b58_enc b58_dec show_f64 d chain actor block_time = Ok ev \<longleftrightarrow>
      is_evm chain \<and> (\<exists>h. evm_from_hex hex_dec (d2p_tx_hash d) = Ok h \<and>
        ev = \<lparr>p_chain = chain, p_tx_hash = h, p_block = BlockRef chain (d2p_block_number d),
              p_block_time = block_time, p_pool = common_address hex_enc chain (d2p_pair d),
              p_dex = (if chain = Bsc then PancakeSwapV2 else UniswapV2),
              p_kind = PoolInitialize (common_address hex_enc chain (d2p_token0 d)) (common_address hex_enc chain (d2p_token1 d)), p_actor = actor,
              p_log_index = d2p_log_index d\<rparr>)) \<and>
    (pair_created_to_pool_event hex_enc hex_dec keccak b58_enc b58_dec show_f64 d chain actor block_time = Err e \<longrightarrow>
      is_skippable e)"
  using address_of_display [OF hex b58 wf(1)] address_of_display [OF hex b58 wf(2)]
    address_of_display [OF hex b58 wf(3)]
  by (auto simp: pair_created_to_pool_event_def factory_event_def parse_in_context_def and_then_eq_Inr
      and_then_eq_Inl map_err_eq_Inl is_skippable_def common_address_def block_ref_new_def split: if_splits)

lemma pair_created_conversion_witness:
  "\<exists>ev. pair_created_to_pool_event ref_hex_enc ref_hex_dec keccak_table ref_b58_enc ref_b58_dec (\<lambda>_. [])
     \<lparr>d2p_token0 = evm_address_zero, d2p_token1 = evm_address_zero, d2p_pair = evm_address_zero, d2p_pair_index = 1,
      d2p_factory = [], d2p_block_number = 5, d2p_tx_hash = ''0x'' @ ref_hex_enc (replicate 32 1),
      d2p_log_index = 0\<rparr> Bsc \<lparr>addr_chain = Bsc, canonical = []\<rparr> 0 = Ok ev \<and> p_dex ev = PancakeSwapV2"
proof -
  have "evm_from_hex ref_hex_dec (''0x'' @ ref_hex_enc (replicate 32 1)) = Ok (TxEvm (replicate 32 1))"
    by (simp add: evm_from_hex_def ref_hex.enc_length)
  then show ?thesis
    using pair_created_conversion [OF ref_hex.hex_codec_axioms ref_b58.base58_codec_axioms,
      of "\<lparr>d2p_token0 = evm_address_zero, d2p_token1 = evm_address_zero, d2p_pair = evm_address_zero, d2p_pair_index = 1,
      d2p_factory = [], d2p_block_number = 5, d2p_tx_hash = ''0x'' @ ref_hex_enc (replicate 32 1),
      d2p_log_index = 0\<rparr>" keccak_table "\<lambda>_. []" Bsc]
    by (simp add: wf_evm_address_def evm_address_zero_def)
qed

end
