(* ===== verification/ReorgBuffer.thy ===== *)
theory ReorgBuffer
  imports Prelude "HOL-Library.Sublist"
begin

text \<open>
  The reorg detection buffer of the Ethereum adapter
  (\<open>crates/chain-adapter/src/ethereum/reorg.rs\<close>, header type in \<open>ethereum/types.rs\<close>): a sliding
  window of headers, oldest first, and the \<open>push\<close> of a new head. The specification is the chain
  that an unbounded observer would keep; the window is shown to be a suffix of it.
\<close>

section \<open>State and operations\<close>

record block_header =
  bh_number :: u64
  bh_hash :: string
  bh_parent_hash :: string

record reorg_buffer =
  rb_headers :: "block_header list"
  rb_capacity :: usize

datatype reorg_outcome = LinearExtension | Reorg (reverted_block_numbers: "u64 list")

definition REORG_BUFFER_DEPTH :: usize where
  "REORG_BUFFER_DEPTH = 16"

definition reorg_buffer_new :: "usize \<Rightarrow> reorg_buffer" where
  "reorg_buffer_new capacity = \<lparr>rb_headers = [], rb_capacity = capacity\<rparr>"

definition reorg_tip :: "reorg_buffer \<Rightarrow> block_header option" where
  "reorg_tip b = (if rb_headers b = [] then None else Some (last (rb_headers b)))"

definition reorg_len :: "reorg_buffer \<Rightarrow> usize" where
  "reorg_len b = length (rb_headers b)"

definition reorg_is_empty :: "reorg_buffer \<Rightarrow> bool" where
  "reorg_is_empty b = (rb_headers b = [])"

text \<open>\<open>iter().rposition(p)\<close>: the index of the last element with the property.\<close>

fun rposition :: "('a \<Rightarrow> bool) \<Rightarrow> 'a list \<Rightarrow> nat option" where
  "rposition P [] = None"
| "rposition P (x # xs) =
     (case rposition P xs of Some i \<Rightarrow> Some (Suc i) | None \<Rightarrow> if P x then Some 0 else None)"

definition pop_front_over :: "usize \<Rightarrow> block_header list \<Rightarrow> block_header list" where
  "pop_front_over capacity hs = (if length hs > capacity then tl hs else hs)"

definition reorg_push :: "reorg_buffer \<Rightarrow> block_header \<Rightarrow> reorg_buffer \<times> reorg_outcome" where
  "reorg_push b new_head =
     (let hs = rb_headers b in
      if hs = [] then (b\<lparr>rb_headers := [new_head]\<rparr>, LinearExtension)
      else if bh_hash (last hs) = bh_parent_hash new_head
      then (b\<lparr>rb_headers := pop_front_over (rb_capacity b) (hs @ [new_head])\<rparr>, LinearExtension)
      else case rposition (\<lambda>h. bh_hash h = bh_parent_hash new_head) hs of
        Some idx \<Rightarrow>
          (b\<lparr>rb_headers := take (idx + 1) hs @ [new_head]\<rparr>, Reorg (map bh_number (drop (idx + 1) hs)))
      | None \<Rightarrow>
          (b\<lparr>rb_headers := [new_head]\<rparr>, Reorg (map bh_number hs)))"

text \<open>A subscription feeds heads one by one.\<close>

fun reorg_run :: "reorg_buffer \<Rightarrow> block_header list \<Rightarrow> reorg_buffer \<times> reorg_outcome list" where
  "reorg_run b [] = (b, [])"
| "reorg_run b (h # hs) =
     (let (b', o1) = reorg_push b h; (b'', os) = reorg_run b' hs in (b'', o1 # os))"

section \<open>The specification\<close>

text \<open>
  An observer without a bound keeps the whole canonical chain: a head is put on its parent, the
  latest block with that hash, and everything after the parent is dropped; a head with an unknown
  parent starts a new chain.
\<close>

definition chain_push :: "block_header list \<Rightarrow> block_header \<Rightarrow> block_header list" where
  "chain_push c h =
     (case rposition (\<lambda>x. bh_hash x = bh_parent_hash h) c of
        Some i \<Rightarrow> take (i + 1) c @ [h] | None \<Rightarrow> [h])"

text \<open>Each header's parent is the one before it.\<close>

fun linked :: "block_header list \<Rightarrow> bool" where
  "linked (a # b # hs) = (bh_parent_hash b = bh_hash a \<and> linked (b # hs))"
| "linked hs = True"

definition reorg_inv :: "reorg_buffer \<Rightarrow> bool" where
  "reorg_inv b = (linked (rb_headers b) \<and> length (rb_headers b) \<le> max 1 (rb_capacity b))"

section \<open>Lemmas\<close>

lemma rposition_Some:
  "rposition P xs = Some i \<Longrightarrow> i < length xs \<and> P (xs ! i) \<and> (\<forall>j. i < j \<and> j < length xs \<longrightarrow> \<not> P (xs ! j))"
proof (induction xs arbitrary: i)
  case (Cons x xs)
  show ?case
  proof (cases "rposition P xs")
    case None
    then have "\<forall>y \<in> set xs. \<not> P y"
    proof (induction xs)
      case (Cons y ys)
      then show ?case by (auto split: option.splits if_splits)
    qed simp
    with None Cons.prems show ?thesis by (auto simp: nth_Cons split: if_splits nat.splits)
  next
    case (Some k)
    with Cons show ?thesis by (fastforce simp: nth_Cons split: nat.splits)
  qed
qed simp

lemma rposition_None: "rposition P xs = None \<longleftrightarrow> (\<forall>x \<in> set xs. \<not> P x)"
  by (induction xs) (auto split: option.splits)

lemma rposition_append:
  "rposition P (xs @ ys) =
    (case rposition P ys of Some i \<Rightarrow> Some (length xs + i) | None \<Rightarrow> rposition P xs)"
  by (induction xs) (auto split: option.splits)

lemma linked_append:
  "linked (xs @ y # ys) \<longleftrightarrow> linked xs \<and> linked (y # ys) \<and> (xs \<noteq> [] \<longrightarrow> bh_parent_hash y = bh_hash (last xs))"
  by (induction xs rule: linked.induct) auto

lemma linked_snoc: "linked (xs @ [y]) \<longleftrightarrow> linked xs \<and> (xs \<noteq> [] \<longrightarrow> bh_parent_hash y = bh_hash (last xs))"
  using linked_append [of xs y "[]"] by simp

lemma linked_prefix: "linked (xs @ ys) \<Longrightarrow> linked xs"
  by (induction xs rule: linked.induct) auto

lemma linked_take: "linked xs \<Longrightarrow> linked (take n xs)"
  by (rule linked_prefix [of _ "drop n xs"]) simp

lemma linked_tl: "linked xs \<Longrightarrow> linked (tl xs)"
  by (cases xs rule: linked.cases) auto

lemma reorg_push_Reorg:
  assumes "snd (reorg_push b h) = Reorg ns"
  shows "rb_headers b \<noteq> []" and "bh_hash (last (rb_headers b)) \<noteq> bh_parent_hash h"
  using assms by (auto simp: reorg_push_def Let_def split: if_splits option.splits)

lemma last_take_idx: "i < length xs \<Longrightarrow> last (take (Suc i) xs) = xs ! i"
  by (simp add: take_Suc_conv_app_nth)

lemma reorg_push_capacity: "rb_capacity (fst (reorg_push b h)) = rb_capacity b"
  by (auto simp: reorg_push_def Let_def split: option.splits)

lemma reorg_push_last: "rb_headers (fst (reorg_push b h)) \<noteq> [] \<and> last (rb_headers (fst (reorg_push b h))) = h"
  by (auto simp: reorg_push_def Let_def pop_front_over_def split: option.splits)

lemma reorg_push_inv:
  assumes "reorg_inv b"
  shows "reorg_inv (fst (reorg_push b h))"
proof (cases "rb_headers b = [] \<or> bh_hash (last (rb_headers b)) = bh_parent_hash h")
  case True
  with assms show ?thesis
    by (auto simp: reorg_inv_def reorg_push_def Let_def pop_front_over_def linked_snoc linked_tl last_tl)
next
  case False
  show ?thesis
  proof (cases "rposition (\<lambda>x. bh_hash x = bh_parent_hash h) (rb_headers b)")
    case None
    with False show ?thesis by (simp add: reorg_inv_def reorg_push_def Let_def)
  next
    case (Some i)
    note pos = rposition_Some [OF Some]
    have "i \<noteq> length (rb_headers b) - 1"
      using pos False by (auto simp: last_conv_nth)
    with pos have "i + 1 < length (rb_headers b)" by linarith
    with Some False pos assms show ?thesis
      by (auto simp: reorg_inv_def reorg_push_def Let_def linked_snoc linked_take last_take_idx)
  qed
qed

text \<open>The refinement: the window stays a suffix of the observer's chain.\<close>

lemma reorg_push_suffix:
  assumes suf: "suffix (rb_headers b) c" and ne: "rb_headers b = [] \<longrightarrow> c = []"
  shows "suffix (rb_headers (fst (reorg_push b h))) (chain_push c h)"
proof -
  let ?P = "\<lambda>x. bh_hash x = bh_parent_hash h" and ?hs = "rb_headers b"
  obtain pre where c: "c = pre @ ?hs" using suf by (auto simp: suffix_def)
  have found: "chain_push c h = pre @ take (i + 1) ?hs @ [h]" if "rposition ?P ?hs = Some i" for i
    using that by (simp add: chain_push_def c rposition_append)
  consider "?hs = []" | "?hs \<noteq> []" "?P (last ?hs)" | i where "?hs \<noteq> []" "\<not> ?P (last ?hs)" "rposition ?P ?hs = Some i"
    | "?hs \<noteq> []" "\<not> ?P (last ?hs)" "rposition ?P ?hs = None"
    by (cases "rposition ?P ?hs") auto
  then show ?thesis
  proof cases
    case 1
    with ne show ?thesis by (simp add: reorg_push_def chain_push_def)
  next
    case 2
    obtain i where i: "rposition ?P ?hs = Some i"
      using 2 rposition_None [of ?P ?hs] last_in_set [of ?hs] by (cases "rposition ?P ?hs") auto
    have "i = length ?hs - 1"
      using rposition_Some [OF i] 2 last_conv_nth [of ?hs]
      by (cases "i < length ?hs - 1") auto
    then have "chain_push c h = pre @ ?hs @ [h]"
      using found [OF i] by simp
    moreover have "rb_headers (fst (reorg_push b h)) = pop_front_over (rb_capacity b) (?hs @ [h])"
      using 2 by (simp add: reorg_push_def)
    moreover have "suffix (pop_front_over k xs) xs" for k xs
      by (simp add: pop_front_over_def suffix_tl)
    ultimately show ?thesis by (metis suffix_appendI)
  next
    case 3
    with found [of i] show ?thesis by (auto simp: reorg_push_def Let_def suffix_def)
  next
    case 4
    then show ?thesis
      by (auto simp: reorg_push_def Let_def chain_push_def suffix_def split: option.split)
  qed
qed

lemma reorg_run_snoc:
  "reorg_run b (hs @ [h]) =
    (fst (reorg_push (fst (reorg_run b hs)) h), snd (reorg_run b hs) @ [snd (reorg_push (fst (reorg_run b hs)) h)])"
  by (induction hs arbitrary: b) (auto simp: Let_def split: prod.split)


definition spec_chain :: "block_header list \<Rightarrow> block_header list" where
  "spec_chain hs = foldl chain_push [] hs"

lemma reorg_run_facts:
  "reorg_inv (fst (reorg_run (reorg_buffer_new k) hs)) \<and>
   suffix (rb_headers (fst (reorg_run (reorg_buffer_new k) hs))) (spec_chain hs) \<and>
   rb_capacity (fst (reorg_run (reorg_buffer_new k) hs)) = k \<and>
   reorg_tip (fst (reorg_run (reorg_buffer_new k) hs)) = (if hs = [] then None else Some (last hs))"
proof (induction hs rule: rev_induct)
  case Nil
  show ?case by (simp add: reorg_buffer_new_def reorg_inv_def spec_chain_def reorg_tip_def)
next
  case (snoc h hs)
  let ?b = "fst (reorg_run (reorg_buffer_new k) hs)"
  have "rb_headers ?b = [] \<longrightarrow> spec_chain hs = []"
    using snoc by (auto simp: reorg_tip_def spec_chain_def split: if_splits)
  then have "suffix (rb_headers (fst (reorg_push ?b h))) (spec_chain (hs @ [h]))"
    using snoc reorg_push_suffix [of ?b "spec_chain hs" h] by (simp add: spec_chain_def)
  with snoc reorg_push_inv [of ?b h] reorg_push_capacity [of ?b h] reorg_push_last [of ?b h]
  show ?case by (simp add: reorg_run_snoc reorg_tip_def)
qed

section \<open>Properties\<close>

text \<open>
  C14: After any sequence of heads from an empty buffer, the window is hash-linked, holds at most
  its capacity (and at least the newest head), its tip is the last head, and it is a suffix of the
  canonical chain that an unbounded observer of the same heads would have.
\<close>

theorem reorg_window_refines_chain:
  "reorg_inv (fst (reorg_run (reorg_buffer_new k) hs)) \<and>
   suffix (rb_headers (fst (reorg_run (reorg_buffer_new k) hs))) (spec_chain hs) \<and>
   reorg_tip (fst (reorg_run (reorg_buffer_new k) hs)) = (if hs = [] then None else Some (last hs))"
  using reorg_run_facts by blast

text \<open>
  C15: What a reported reorg means. The reverted numbers are those of the newest buffered blocks,
  in chain order, and never none; the blocks that stay are the ones up to the latest block whose
  hash is the new head's parent, or none when no buffered block has it; the new head is on top.
  A linear extension drops at most the oldest block.
\<close>

theorem reorg_outcome_meaning:
  "(snd (reorg_push b h) = Reorg ns \<longrightarrow>
      (\<exists>kept reverted. rb_headers b = kept @ reverted \<and> reverted \<noteq> [] \<and> ns = map bh_number reverted \<and>
         rb_headers (fst (reorg_push b h)) = kept @ [h] \<and>
         (kept \<noteq> [] \<longrightarrow> bh_hash (last kept) = bh_parent_hash h) \<and>
         (\<forall>x \<in> set reverted. bh_hash x \<noteq> bh_parent_hash h))) \<and>
   (snd (reorg_push b h) = LinearExtension \<longrightarrow>
      (rb_headers b \<noteq> [] \<longrightarrow> bh_parent_hash h = bh_hash (last (rb_headers b))) \<and>
      (\<exists>old. length old \<le> 1 \<and> rb_headers b @ [h] = old @ rb_headers (fst (reorg_push b h))))"
proof (intro conjI impI)
  let ?hs = "rb_headers b" and ?P = "\<lambda>x. bh_hash x = bh_parent_hash h"
  assume R: "snd (reorg_push b h) = Reorg ns"
  note ne = reorg_push_Reorg [OF R]
  show "\<exists>kept reverted. ?hs = kept @ reverted \<and> reverted \<noteq> [] \<and> ns = map bh_number reverted \<and>
         rb_headers (fst (reorg_push b h)) = kept @ [h] \<and>
         (kept \<noteq> [] \<longrightarrow> bh_hash (last kept) = bh_parent_hash h) \<and>
         (\<forall>x \<in> set reverted. bh_hash x \<noteq> bh_parent_hash h)"
  proof (cases "rposition ?P ?hs")
    case None
    with ne R rposition_None [THEN iffD1, OF None] show ?thesis
      by - (rule exI [where x = "[]"], rule exI [where x = ?hs], auto simp: reorg_push_def Let_def)
  next
    case (Some i)
    note pos = rposition_Some [OF Some]
    have "drop (i + 1) ?hs \<noteq> []"
      using pos ne last_conv_nth [of ?hs] by (cases "i = length ?hs - 1") auto
    moreover have "\<forall>x \<in> set (drop (i + 1) ?hs). \<not> ?P x"
      using pos by (auto simp: in_set_conv_nth)
    ultimately show ?thesis
      using Some ne R pos last_take_idx [of i ?hs]
      by - (rule exI [where x = "take (i + 1) ?hs"], rule exI [where x = "drop (i + 1) ?hs"],
            auto simp: reorg_push_def Let_def simp del: drop_eq_Nil)
  qed
next
  assume "snd (reorg_push b h) = LinearExtension" and "rb_headers b \<noteq> []"
  then show "bh_parent_hash h = bh_hash (last (rb_headers b))"
    by (auto simp: reorg_push_def Let_def split: if_splits option.splits)
next
  assume "snd (reorg_push b h) = LinearExtension"
  then show "\<exists>old. length old \<le> 1 \<and> rb_headers b @ [h] = old @ rb_headers (fst (reorg_push b h))"
    by (auto simp: reorg_push_def Let_def pop_front_over_def split: if_splits option.splits)
       (intro exI [where x = "[hd (rb_headers b)]"], simp)
qed

lemma reorg_outcome_meaning_witness:
  "\<exists>kept reverted. kept @ reverted = [\<lparr>bh_number = 1, bh_hash = ''a'', bh_parent_hash = ''g''\<rparr>,
       \<lparr>bh_number = 2, bh_hash = ''b'', bh_parent_hash = ''a''\<rparr>] \<and> reverted \<noteq> [] \<and> map bh_number reverted = [2]"
proof -
  let ?hs = "[\<lparr>bh_number = 1, bh_hash = ''a'', bh_parent_hash = ''g''\<rparr>,
       \<lparr>bh_number = 2, bh_hash = ''b'', bh_parent_hash = ''a''\<rparr>]"
  let ?b = "\<lparr>rb_headers = ?hs, rb_capacity = 16\<rparr>"
  have "snd (reorg_push ?b \<lparr>bh_number = 2, bh_hash = ''c'', bh_parent_hash = ''a''\<rparr>) = Reorg [2]"
    by (simp add: reorg_push_def)
  from reorg_outcome_meaning [THEN conjunct1, THEN mp, OF this]
  obtain kept reverted where eq: "rb_headers ?b = kept @ reverted" and ne: "reverted \<noteq> []"
    and num: "[2] = map bh_number reverted"
    by (elim exE conjE)
  from eq have "kept @ reverted = ?hs" by (simp only: reorg_buffer.select_convs)
  with ne num show ?thesis by (metis (no_types))
qed

end
