(* ===== verification/Reconnect.thy ===== *)
theory Reconnect
  imports EthDecoder
begin

text \<open>
  The reconnect policy of the Solana adapter (\<open>crates/chain-adapter/src/solana/reconnect.rs\<close>,
  policy type in \<open>solana/config.rs\<close>): the delay computation, the decision function and the retry
  loop \<open>with_reconnect\<close>. Durations are milliseconds. The action is a function of the attempt
  number; the delays of \<open>tokio_retry\<close>'s jittered exponential strategy are an argument, one per
  iteration. The loop's run is a trace of sleeps and attempts.
\<close>

section \<open>Policy and decisions\<close>

record reconnect_policy =
  rp_base_delay_ms :: u64
  rp_max_delay_ms :: u64
  rp_max_attempts :: u32
  rp_rate_limit_base_ms :: u64

definition reconnect_policy_default :: reconnect_policy where
  "reconnect_policy_default =
     \<lparr>rp_base_delay_ms = 500, rp_max_delay_ms = 30000, rp_max_attempts = 10, rp_rate_limit_base_ms = 5000\<rparr>"

datatype reconnect_decision = Retry u64 u32 | Abort string

fun adapter_error_display :: "adapter_error \<Rightarrow> string" where
  "adapter_error_display (Transport s) = ''transport error: '' @ s"
| "adapter_error_display (GrpcClient s) = ''JSON-RPC client error: '' @ s"
| "adapter_error_display (StreamEnded slot) =
     ''stream ended unexpectedly (slot='' @ show_nat (unat slot) @ '')''"
| "adapter_error_display (RateLimit slot) = ''rate limited by provider (slot='' @ show_nat (unat slot) @ '')''"
| "adapter_error_display (MissingField fld ctx) = ''missing required field '' @ quoted fld @ '' in '' @ ctx"
| "adapter_error_display (AdapterDecodeError ctx reason) = ''decode error in '' @ ctx @ '': '' @ reason"
| "adapter_error_display (AmountOverflow ctx v) =
     ''amount overflow in '' @ ctx @ '': value='' @ show_nat (unat v)"
| "adapter_error_display (Checkpoint s) = ''checkpoint write failed: '' @ s"
| "adapter_error_display (Config s) = ''invalid adapter config: '' @ s"
| "adapter_error_display (RpcError slot reason) =
     ''RPC error during backfill (slot='' @ show_nat (unat slot) @ ''): '' @ reason"
| "adapter_error_display (CallReverted reason) = ''eth_call reverted: '' @ reason"

text \<open>\<open>u128::saturating_mul\<close>, and the shift \<open>1u128 << attempt.min(30)\<close>.\<close>

definition saturating_mul_u128 :: "u128 \<Rightarrow> u128 \<Rightarrow> u128" where
  "saturating_mul_u128 a b =
     (if unat a * unat b < 2 ^ 128 then a * b else - 1)"

definition backoff_ms :: "u64 \<Rightarrow> u32 \<Rightarrow> u64 \<Rightarrow> u64" where
  "backoff_ms base_ms attempt max_ms =
     ucast (min (saturating_mul_u128 (ucast base_ms) (push_bit (unat (min attempt 30)) 1)) (ucast max_ms :: u128))"

definition compute_delay :: "reconnect_policy \<Rightarrow> u32 \<Rightarrow> adapter_error \<Rightarrow> u64 option" where
  "compute_delay policy attempt e =
     (if \<not> is_reconnectable e then None
      else
        let base_ms = (if is_rate_limit e then rp_rate_limit_base_ms policy else rp_base_delay_ms policy)
        in Some (backoff_ms base_ms attempt (rp_max_delay_ms policy)))"

definition decide_reconnect :: "reconnect_policy \<Rightarrow> u32 \<Rightarrow> adapter_error \<Rightarrow> reconnect_decision" where
  "decide_reconnect policy attempt e =
     (if \<not> is_reconnectable e then Abort (''non-reconnectable error: '' @ adapter_error_display e)
      else if rp_max_attempts policy > 0 \<and> attempt \<ge> rp_max_attempts policy
      then Abort (''max reconnect attempts ('' @ show_nat (unat (rp_max_attempts policy)) @
                  '') reached; last error: '' @ adapter_error_display e)
      else
        let delay = (case compute_delay policy attempt e of Some d \<Rightarrow> d | None \<Rightarrow> rp_base_delay_ms policy)
        in Retry delay attempt)"

section \<open>The retry loop\<close>

datatype reconnect_step = Sleep u64 | Attempt u32

text \<open>
  One pass of the \<open>for\<close> loop per element of the delay list; \<open>attempt\<close> counts the failures so far.
  The result comes with the trace of what was done.
\<close>

fun reconnect_loop ::
    "reconnect_policy \<Rightarrow> (u32 \<Rightarrow> ('a, adapter_error) result) \<Rightarrow> u64 list \<Rightarrow> u32 \<Rightarrow> adapter_error option \<Rightarrow>
     ('a, adapter_error) result \<times> reconnect_step list" where
  "reconnect_loop policy action [] attempt last_error =
     (Err (case last_error of Some e \<Rightarrow> e | None \<Rightarrow> StreamEnded 0), [])"
| "reconnect_loop policy action (delay # delays) attempt last_error =
     (let pre = (if attempt > 0 then [Sleep delay] else []) in
      case action attempt of
        Inr result \<Rightarrow> (Ok result, pre @ [Attempt attempt])
      | Inl e \<Rightarrow>
          if \<not> is_reconnectable e then (Err e, pre @ [Attempt attempt])
          else
            let rl = (if is_rate_limit e
                      then [Sleep (backoff_ms (rp_rate_limit_base_ms policy) attempt (rp_max_delay_ms policy))]
                      else []);
                (r, tr) = reconnect_loop policy action delays (attempt + 1) (Some e)
            in (r, pre @ Attempt attempt # rl @ tr))"

text \<open>\<open>strategy n\<close> is the delay of the \<open>n\<close>-th element of the jittered backoff iterator.\<close>

definition with_reconnect ::
    "reconnect_policy \<Rightarrow> (nat \<Rightarrow> u64) \<Rightarrow> (u32 \<Rightarrow> ('a, adapter_error) result) \<Rightarrow>
     ('a, adapter_error) result \<times> reconnect_step list" where
  "with_reconnect policy strategy action =
     reconnect_loop policy action (map strategy [0..<unat (rp_max_attempts policy)]) 0 None"

section \<open>Lemmas\<close>

lemma unat_ucast_u128: "unat (ucast (x :: u64) :: u128) = unat x"
  using unsigned_less [of x, where 'a = nat] by (simp add: unat_ucast_small)

lemma unat_shift30: "unat (push_bit (unat (min (a :: u32) 30)) 1 :: u128) = 2 ^ min (unat a) 30"
proof -
  have "unat (min a 30) = min (unat a) 30"
    by (simp add: min_def word_le_nat_alt)
  moreover have "(2::nat) ^ min (unat a) 30 \<le> 2 ^ 30"
    by (rule power_increasing) auto
  ultimately have le: "(2::nat) ^ unat (min a 30) < 2 ^ 128" by simp
  have "push_bit (unat (min a 30)) 1 = (word_of_nat (2 ^ unat (min a 30)) :: u128)"
    by (simp add: push_bit_eq_mult)
  then have "unat (push_bit (unat (min a 30)) 1 :: u128) = 2 ^ unat (min a 30) mod 2 ^ 128"
    by (simp only: unat_of_nat) simp
  also have "\<dots> = 2 ^ unat (min a 30)"
    using le by (rule mod_less)
  finally show ?thesis using \<open>unat (min a 30) = min (unat a) 30\<close> by simp
qed

text \<open>The delay is the capped exponential over the integers: nothing wraps or saturates.\<close>

lemma backoff_ms_value: "unat (backoff_ms base a m) = min (unat base * 2 ^ min (unat a) 30) (unat m)"
proof -
  let ?s = "push_bit (unat (min a 30)) 1 :: u128"
  have b: "unat base < 2 ^ 64" and m: "unat m < 2 ^ 64"
    using unsigned_less [of base, where 'a = nat] unsigned_less [of m, where 'a = nat] by simp_all
  have s: "unat ?s \<le> 2 ^ 30"
    unfolding unat_shift30 by (rule power_increasing) auto
  have "unat base * unat ?s \<le> 2 ^ 64 * 2 ^ 30"
    using b s by (intro mult_le_mono) auto
  then have fits: "unat (ucast base :: u128) * unat ?s < 2 ^ 128"
    by (simp add: unat_ucast_u128)
  then have "unat (saturating_mul_u128 (ucast base) ?s) = unat base * unat ?s"
    by (simp add: saturating_mul_u128_def unat_ucast_u128 unat_word_ariths)
  then have "unat (min (saturating_mul_u128 (ucast base) ?s) (ucast m)) = min (unat base * unat ?s) (unat m)"
    by (auto simp: min_def word_le_nat_alt unat_ucast_u128)
  moreover from this m have "unat (min (saturating_mul_u128 (ucast base) ?s) (ucast m)) < 2 ^ LENGTH(64)"
    by simp
  ultimately show ?thesis
    unfolding backoff_ms_def unat_shift30 by (simp only: unat_ucast_small)
qed


text \<open>What a run did: the attempt numbers, in order.\<close>

fun attempts :: "reconnect_step list \<Rightarrow> nat list" where
  "attempts [] = []"
| "attempts (Attempt a # tr) = unat a # attempts tr"
| "attempts (Sleep d # tr) = attempts tr"

lemma attempts_append: "attempts (xs @ ys) = attempts xs @ attempts ys"
  by (induction xs rule: attempts.induct) auto

definition retryable :: "(u32 \<Rightarrow> ('a, adapter_error) result) \<Rightarrow> nat \<Rightarrow> bool" where
  "retryable action k = (case action (word_of_nat k) of Inl e \<Rightarrow> is_reconnectable e | Inr _ \<Rightarrow> False)"

text \<open>
  \<open>stops_at action a n k\<close>: starting at attempt \<open>a\<close> with \<open>n\<close> passes left, attempts \<open>a..k-1\<close> fail
  with reconnectable errors and attempt \<open>k\<close> does not.
\<close>

definition stops_at :: "(u32 \<Rightarrow> ('a, adapter_error) result) \<Rightarrow> nat \<Rightarrow> nat \<Rightarrow> nat \<Rightarrow> bool" where
  "stops_at action a n k = (a \<le> k \<and> k < a + n \<and> (\<forall>j. a \<le> j \<and> j < k \<longrightarrow> retryable action j) \<and> \<not> retryable action k)"

lemma stops_at_Suc: "retryable action a \<Longrightarrow> stops_at action a (Suc n) k \<longleftrightarrow> stops_at action (Suc a) n k"
  by (auto simp: stops_at_def) (metis Suc_leI le_neq_implies_less)+

lemma reconnect_loop_outcome:
  assumes "a + length ds < 2 ^ 32"
  shows "(\<forall>k. stops_at action a (length ds) k \<longrightarrow>
      fst (reconnect_loop policy action ds (word_of_nat a) le) = action (word_of_nat k) \<and>
      attempts (snd (reconnect_loop policy action ds (word_of_nat a) le)) = [a..<Suc k]) \<and>
    ((\<forall>j. a \<le> j \<and> j < a + length ds \<longrightarrow> retryable action j) \<longrightarrow>
      fst (reconnect_loop policy action ds (word_of_nat a) le) =
        (if ds = [] then Err (case le of Some e \<Rightarrow> e | None \<Rightarrow> StreamEnded 0)
         else action (word_of_nat (a + length ds - 1))) \<and>
      attempts (snd (reconnect_loop policy action ds (word_of_nat a) le)) = [a..<a + length ds])"
  using assms
proof (induction ds arbitrary: a le)
  case Nil
  then show ?case by (simp add: stops_at_def)
next
  case (Cons d ds)
  have ua: "unat (word_of_nat a :: u32) = a"
    using Cons.prems by (simp add: unat_of_nat)
  have next_a: "(word_of_nat a + 1 :: u32) = word_of_nat (Suc a)" by simp
  show ?case
  proof (cases "retryable action a")
    case False
    then have stop: "stops_at action a (length (d # ds)) k \<longleftrightarrow> k = a" for k
      by (auto simp: stops_at_def)
    have "fst (reconnect_loop policy action (d # ds) (word_of_nat a) le) = action (word_of_nat a) \<and>
      attempts (snd (reconnect_loop policy action (d # ds) (word_of_nat a) le)) = [a]"
      using False by (auto simp: retryable_def Let_def attempts_append ua split: sum.split)
    then show ?thesis using stop False by (auto intro: exI [of _ a])
  next
    case True
    then obtain e where e: "action (word_of_nat a) = Inl e" "is_reconnectable e"
      by (auto simp: retryable_def split: sum.splits)
    let ?rest = "reconnect_loop policy action ds (word_of_nat (Suc a)) (Some e)"
    have run: "fst (reconnect_loop policy action (d # ds) (word_of_nat a) le) = fst ?rest"
      "attempts (snd (reconnect_loop policy action (d # ds) (word_of_nat a) le)) = a # attempts (snd ?rest)"
      using e by (auto simp: Let_def attempts_append ua next_a split: prod.split)
    note IH = Cons.IH [of "Suc a" "Some e"]
    show ?thesis
    proof (intro conjI allI impI)
      fix k assume "stops_at action a (length (d # ds)) k"
      then have k: "stops_at action (Suc a) (length ds) k"
        using stops_at_Suc [OF True] by simp
      then show "fst (reconnect_loop policy action (d # ds) (word_of_nat a) le) = action (word_of_nat k)"
        using IH Cons.prems run by simp
      from k have "a < k" by (auto simp: stops_at_def)
      then show "attempts (snd (reconnect_loop policy action (d # ds) (word_of_nat a) le)) = [a..<Suc k]"
        using k IH Cons.prems run by (simp add: upt_conv_Cons)
    next
      assume all: "\<forall>j. a \<le> j \<and> j < a + length (d # ds) \<longrightarrow> retryable action j"
      then show "fst (reconnect_loop policy action (d # ds) (word_of_nat a) le) =
        (if d # ds = [] then Err (case le of Some e \<Rightarrow> e | None \<Rightarrow> StreamEnded 0)
         else action (word_of_nat (a + length (d # ds) - 1)))"
        using IH Cons.prems e unfolding run by (auto simp del: reconnect_loop.simps)
      have "\<forall>j. Suc a \<le> j \<and> j < Suc a + length ds \<longrightarrow> retryable action j"
        using all by simp
      then have tail: "attempts (snd ?rest) = [Suc a..<Suc a + length ds]"
        using IH [THEN conjunct2, THEN mp] Cons.prems by simp
      show "attempts (snd (reconnect_loop policy action (d # ds) (word_of_nat a) le)) = [a..<a + length (d # ds)]"
        unfolding run tail by (simp add: upt_conv_Cons del: upt_Suc)
    qed
  qed
qed

section \<open>Properties\<close>

text \<open>
  C16: The reconnect delay of a connectivity error is the policy's base (the rate-limit base for
  a rate limit) doubled per attempt, at most thirty times, and capped at the maximum; no
  multiplication or shift wraps, for any policy values. Errors that are not about connectivity have
  no delay, and the delay never decreases with the attempt number.
\<close>

theorem compute_delay_value:
  "(is_reconnectable e \<longrightarrow>
      (\<exists>d. compute_delay policy attempt e = Some d \<and>
        unat d = min (unat (if is_rate_limit e then rp_rate_limit_base_ms policy else rp_base_delay_ms policy) *
                      2 ^ min (unat attempt) 30) (unat (rp_max_delay_ms policy)))) \<and>
   (\<not> is_reconnectable e \<longrightarrow> compute_delay policy attempt e = None) \<and>
   (attempt \<le> attempt' \<longrightarrow> compute_delay policy attempt e = Some d \<longrightarrow>
      compute_delay policy attempt' e = Some d' \<longrightarrow> d \<le> d')"
proof (intro conjI impI)
  show "is_reconnectable e \<Longrightarrow> \<exists>d. compute_delay policy attempt e = Some d \<and>
        unat d = min (unat (if is_rate_limit e then rp_rate_limit_base_ms policy else rp_base_delay_ms policy) *
                      2 ^ min (unat attempt) 30) (unat (rp_max_delay_ms policy))"
    by (simp add: compute_delay_def Let_def backoff_ms_value)
  show "\<not> is_reconnectable e \<Longrightarrow> compute_delay policy attempt e = None"
    by (simp add: compute_delay_def)
  assume a: "attempt \<le> attempt'" and d: "compute_delay policy attempt e = Some d" "compute_delay policy attempt' e = Some d'"
  have "(2::nat) ^ min (unat attempt) 30 \<le> 2 ^ min (unat attempt') 30"
    using a by (intro power_increasing) (auto simp: word_le_nat_alt)
  then have "unat base * 2 ^ min (unat attempt) 30 \<le> unat base * 2 ^ min (unat attempt') 30" for base :: u64
    by simp
  then have "unat (backoff_ms base attempt m) \<le> unat (backoff_ms base attempt' m)" for base m
    unfolding backoff_ms_value by (metis min.mono order_refl)
  with d show "d \<le> d'"
    by (auto simp: compute_delay_def Let_def word_le_nat_alt split: if_splits)
qed

lemma compute_delay_value_witness:
  "\<exists>d. compute_delay reconnect_policy_default 3 (RateLimit 7) = Some d \<and> unat d = 30000"
  using compute_delay_value [of "RateLimit 7" reconnect_policy_default 3 3]
  by (simp add: is_reconnectable_def is_rate_limit_def reconnect_policy_default_def)

text \<open>
  C17: \<open>with_reconnect\<close> always ends, after at most \<open>max_attempts\<close> attempts numbered from 0 without
  gaps. It stops at the first attempt that succeeds or fails with a non-reconnectable error and
  returns that result; when all attempts fail with reconnectable errors it returns the last one.
  With \<open>max_attempts = 0\<close> it never calls the action, although the policy documents 0 as
  unlimited and \<open>decide_reconnect\<close> then always retries.
\<close>

theorem with_reconnect_outcome:
  "(\<forall>k. stops_at action 0 (unat (rp_max_attempts policy)) k \<longrightarrow>
      fst (with_reconnect policy strategy action) = action (word_of_nat k) \<and>
      attempts (snd (with_reconnect policy strategy action)) = [0..<Suc k]) \<and>
   ((\<forall>j < unat (rp_max_attempts policy). retryable action j) \<longrightarrow> rp_max_attempts policy \<noteq> 0 \<longrightarrow>
      fst (with_reconnect policy strategy action) = action (rp_max_attempts policy - 1) \<and>
      attempts (snd (with_reconnect policy strategy action)) = [0..<unat (rp_max_attempts policy)]) \<and>
   (rp_max_attempts policy = 0 \<longrightarrow>
      with_reconnect policy strategy action = (Err (StreamEnded 0), []) \<and>
      (is_reconnectable e \<longrightarrow> (\<exists>d. decide_reconnect policy a e = Retry d a)))"
proof (intro conjI impI)
  let ?n = "unat (rp_max_attempts policy)"
  have n: "?n < 2 ^ 32" using unsigned_less [of "rp_max_attempts policy", where 'a = nat] by simp
  note out = reconnect_loop_outcome [of 0 "map strategy [0..<?n]" action policy None, simplified, OF n [simplified]]
  show "\<forall>k. stops_at action 0 ?n k \<longrightarrow>
      fst (with_reconnect policy strategy action) = action (word_of_nat k) \<and>
      attempts (snd (with_reconnect policy strategy action)) = [0..<Suc k]"
    using out by (simp add: with_reconnect_def)
  {
    assume all: "\<forall>j < ?n. retryable action j" and pos: "rp_max_attempts policy \<noteq> 0"
    have last: "word_of_nat (?n - 1) = rp_max_attempts policy - 1"
      using pos by (subst of_nat_diff) (auto simp: Suc_le_eq unat_gt_0)
    show "fst (with_reconnect policy strategy action) = action (rp_max_attempts policy - 1)"
      and "attempts (snd (with_reconnect policy strategy action)) = [0..<?n]"
      using out all pos last by (simp_all add: with_reconnect_def unat_eq_0)
  }
  assume zero: "rp_max_attempts policy = 0"
  then show "with_reconnect policy strategy action = (Err (StreamEnded 0), [])"
    by (simp add: with_reconnect_def)
  assume "is_reconnectable e"
  with zero show "\<exists>d. decide_reconnect policy a e = Retry d a"
    by (simp add: decide_reconnect_def Let_def)
qed

lemma with_reconnect_outcome_witness:
  "fst (with_reconnect reconnect_policy_default (\<lambda>_. 500) (\<lambda>k. if k = 0 then Err (Transport ''x'') else Ok (7 :: nat))) = Ok 7"
proof -
  let ?act = "\<lambda>k :: u32. if k = 0 then Err (Transport ''x'') else Ok (7 :: nat)"
  have "stops_at ?act 0 (unat (rp_max_attempts reconnect_policy_default)) 1"
    by (auto simp: stops_at_def retryable_def reconnect_policy_default_def is_reconnectable_def)
  then show ?thesis
    using with_reconnect_outcome [of ?act reconnect_policy_default "\<lambda>_. 500"] by force
qed

end
