(* ===== verification/SolWire.thy ===== *)
theory SolWire
  imports Codecs
begin

text \<open>
  The compact-u16 length prefixes of the Solana wire format (\<open>crates/solana-types/src/wire.rs\<close>).
  The reference semantics is the little-endian base-128 value of the bytes up to the first one
  without a continuation bit.
\<close>

section \<open>Operations\<close>

datatype wire_error = UnexpectedEof | WireOverflow

function encode_compact_u16 :: "u16 \<Rightarrow> bytes \<Rightarrow> bytes" where
  "encode_compact_u16 v out =
     (let low7 = ucast (v AND 0x7F) :: byte;
          val = drop_bit 7 v
      in if val = 0 then out @ [low7]
         else encode_compact_u16 val (out @ [low7 OR 0x80]))"
  by auto
termination
proof (relation "measure (\<lambda>(v, _). unat v)")
  fix v :: u16 and low7 :: byte and val and out :: bytes
  assume "val = drop_bit 7 v" "val \<noteq> 0"
  then have "unat val = unat v div 128" and "unat val \<noteq> 0"
    by (simp add: drop_bit_eq_div unat_div_distrib) (use \<open>val \<noteq> 0\<close> in \<open>simp only: unat_eq_zero not_False_eq_True\<close>)
  then have "unat val < unat v"
    by (cases "unat v") auto
  then show "((val, out @ [low7 OR 0x80]), v, out) \<in> measure (\<lambda>(v, _). unat v)"
    by simp
qed simp

declare encode_compact_u16.simps [simp del]

text \<open>The loop reads the slice from index \<open>i\<close>; the list argument is what is left of it.\<close>

fun decode_loop :: "bytes \<Rightarrow> u32 \<Rightarrow> u32 \<Rightarrow> usize \<Rightarrow> (u32 \<times> usize, wire_error) result" where
  "decode_loop [] result shift i = Err UnexpectedEof"
| "decode_loop (byte # rest) result shift i =
     (if shift \<ge> 21 then Err WireOverflow
      else
        let result' = result OR push_bit (unat shift) (ucast (byte AND 0x7F))
        in if byte AND 0x80 = 0 then Ok (result', i + 1)
           else decode_loop rest result' (shift + 7) (i + 1))"

definition decode_compact_u16 :: "bytes \<Rightarrow> (u16 \<times> usize, wire_error) result" where
  "decode_compact_u16 bs =
     and_then (decode_loop bs 0 0 0)
       (\<lambda>(result, i). if result > 0xFFFF then Err WireOverflow else Ok (ucast result, i))"

section \<open>The reference semantics\<close>

fun leb_val :: "bytes \<Rightarrow> nat" where
  "leb_val [] = 0"
| "leb_val (b # bs) = unat b mod 128 + 128 * leb_val bs"

fun leb_bytes :: "nat \<Rightarrow> bytes" where
  "leb_bytes n = (if n < 128 then [word_of_nat n] else word_of_nat (n mod 128 + 128) # leb_bytes (n div 128))"

declare leb_bytes.simps [simp del]

definition continues :: "byte \<Rightarrow> bool" where
  "continues b = (128 \<le> unat b)"

definition compact_spec :: "bytes \<Rightarrow> (u16 \<times> usize, wire_error) result" where
  "compact_spec bs =
     (let n = length (takeWhile continues bs); v = leb_val (take (n + 1) bs) in
      if length bs \<le> min n 3 then Err UnexpectedEof
      else if n \<ge> 3 \<or> v > 65535 then Err WireOverflow
      else Ok (word_of_nat v, n + 1))"

section \<open>Lemmas\<close>

lemma mask7: "(0x7F :: 'a::len word) = mask 7"
  by (simp add: mask_eq_exp_minus_1)

lemma and_mask7: "unat ((x :: 'a::len word) AND 0x7F) = unat x mod 128"
  unfolding mask7 by (simp only: take_bit_eq_mask [symmetric] unsigned_take_bit_eq) (simp add: take_bit_eq_mod)

lemma and_mask7_u32: "unat (ucast ((b :: byte) AND 0x7F) :: u32) = unat b mod 128"
  by (simp add: unat_ucast_small and_mask7)

lemma byte_continues: "(b :: byte) AND 0x80 = 0 \<longleftrightarrow> \<not> continues b"
proof -
  have e: "(0x80 :: byte) = 2 ^ 7" by simp
  have "b AND 0x80 = 0 \<longleftrightarrow> \<not> bit b 7"
    unfolding e by (rule and_exp_eq_0_iff_not_bit)
  also have "bit b 7 \<longleftrightarrow> odd (unat b div 128)"
    using bit_unsigned_iff [of b 7, where 'a = nat] by (simp add: bit_iff_odd [of "unat b"])
  also have "odd (unat b div 128) \<longleftrightarrow> continues b"
  proof -
    have "unat b div 128 < 2" using unat_byte_lt [of b] by (simp add: less_mult_imp_div_less)
    then have "unat b div 128 = 0 \<or> unat b div 128 = 1" by linarith
    then show ?thesis unfolding continues_def by (auto simp: div_eq_0_iff)
  qed
  finally show ?thesis by simp
qed

lemma or_push_bit:
  assumes "unat (r :: u32) < 2 ^ k" "k + 7 \<le> 32" "unat x < 128"
  shows "unat (r OR push_bit k x) = unat r + 2 ^ k * unat x"
proof -
  have "r AND push_bit k x = 0"
  proof (rule bit_eqI)
    fix n
    show "bit (r AND push_bit k x) n = bit 0 n"
    proof (cases "n < k")
      case True
      then show ?thesis by (simp add: bit_simps)
    next
      case False
      then have "unat r < 2 ^ n" using assms(1) by (meson less_le_trans linorder_not_less one_le_numeral power_increasing)
      then have "\<not> bit (unat r) n" by (simp add: bit_iff_odd)
      then show ?thesis by (simp add: bit_simps bit_unsigned_iff)
    qed
  qed
  then have sum: "r OR push_bit k x = r + push_bit k x"
    by (simp add: disjunctive_add_eq_or)
  have m: "2 ^ k * unat x < 2 ^ k * 128" using assms(3) by simp
  have "(2::nat) ^ k * 128 = 2 ^ (k + 7)" by (simp add: power_add)
  also have "(2::nat) ^ (k + 7) \<le> 2 ^ 32" using assms(2) by (intro power_increasing) auto
  finally have b: "(2::nat) ^ k * 128 \<le> 2 ^ 32" .
  have "unat (push_bit k x) = 2 ^ k * unat x"
    using less_le_trans [OF m b]
    by (simp only: unsigned_push_bit_eq) (simp add: push_bit_eq_mult take_bit_eq_mod mult.commute)
  moreover have "unat r + 2 ^ k * unat x < 2 ^ 32"
  proof -
    have "unat x + 1 \<le> 128" using assms(3) by simp
    then have "2 ^ k * (unat x + 1) \<le> 2 ^ k * 128" by (rule mult_le_mono2)
    then have "2 ^ k * unat x + 2 ^ k \<le> 2 ^ k * 128" by (simp only: distrib_left mult_1_right)
    with assms(1) b show ?thesis by linarith
  qed
  ultimately show ?thesis unfolding sum by (simp add: unat_word_ariths)
qed

text \<open>The loop invariant: after \<open>k\<close> bytes the shift is \<open>7 * k\<close> and the result has \<open>7 * k\<close> bits.\<close>

lemma decode_loop_spec:
  assumes "k \<le> 3" "unat result < 2 ^ (7 * k)"
  shows "decode_loop bs result (word_of_nat (7 * k)) i =
    (let n = length (takeWhile continues bs) in
     if length bs \<le> min n (3 - k) then Err UnexpectedEof
     else if n \<ge> 3 - k then Err WireOverflow
     else Ok (word_of_nat (unat result + 2 ^ (7 * k) * leb_val (take (n + 1) bs)), i + n + 1))"
  using assms
proof (induction bs arbitrary: k result i)
  case Nil
  then show ?case by simp
next
  case (Cons b bs)
  have sh: "unat (word_of_nat (7 * k) :: u32) = 7 * k"
    using Cons.prems(1) by (simp only: unat_of_nat) simp
  show ?case
  proof (cases "k = 3")
    case True
    then show ?thesis by simp
  next
    case False
    with Cons.prems(1) have k: "k < 3" by simp
    let ?r = "result OR push_bit (7 * k) (ucast (b AND 0x7F))"
    have "\<not> (21::u32) \<le> word_of_nat (7 * k)"
      using k by (simp only: word_le_nat_alt sh) simp
    then have step: "decode_loop (b # bs) result (word_of_nat (7 * k)) i =
        (if continues b then decode_loop bs ?r (word_of_nat (7 * Suc k)) (i + 1) else Ok (?r, i + 1))"
      unfolding decode_loop.simps Let_def sh byte_continues by (simp add: add.commute)
    have r: "unat ?r = unat result + 2 ^ (7 * k) * (unat b mod 128)"
      using or_push_bit [OF Cons.prems(2), of "ucast (b AND 0x7F)"] k by (simp add: and_mask7_u32)
    have "(2::nat) ^ (7 * k) * (unat b mod 128 + 1) \<le> 2 ^ (7 * k) * 128"
      by (intro mult_le_mono2) (simp add: Suc_leI)
    then have "2 ^ (7 * k) * (unat b mod 128) + 2 ^ (7 * k) \<le> 2 ^ (7 * k) * 128"
      by (simp only: distrib_left mult_1_right)
    moreover have "(2::nat) ^ (7 * Suc k) = 2 ^ (7 * k) * 128" by (simp add: power_add)
    ultimately have r': "unat ?r < 2 ^ (7 * Suc k)"
      unfolding r using Cons.prems(2) by linarith
    show ?thesis
    proof (cases "continues b")
      case False
      have "?r = word_of_nat (unat result + 2 ^ (7 * k) * (unat b mod 128))"
        unfolding r [symmetric] by simp
      with False k show ?thesis unfolding step by simp
    next
      case True
      have "3 - k = Suc (3 - Suc k)" using k by simp
      with True show ?thesis
        using Cons.IH [of "Suc k" ?r "i + 1"] k r'
        unfolding step r by (simp add: Let_def power_add algebra_simps)
    qed
  qed
qed


lemma decode_compact_u16_eq_spec: "decode_compact_u16 bs = compact_spec bs"
proof -
  let ?n = "length (takeWhile continues bs)" and ?v = "leb_val (take (length (takeWhile continues bs) + 1) bs)"
  have loop: "decode_loop bs 0 0 0 =
     (if length bs \<le> min ?n 3 then Err UnexpectedEof
      else if ?n \<ge> 3 then Err WireOverflow else Ok (word_of_nat ?v, ?n + 1))"
    using decode_loop_spec [of 0 0 bs 0] by (simp add: Let_def)
  have bound: "leb_val xs < 128 ^ length xs" for xs
  proof (induction xs)
    case (Cons x xs)
    have "unat x mod 128 < 128" by simp
    with Cons have "unat x mod 128 + 128 * leb_val xs < 128 * (leb_val xs + 1)" by simp
    also have "\<dots> \<le> 128 * 128 ^ length xs" using Cons by (intro mult_le_mono2) simp
    finally show ?case by simp
  qed simp
  have v: "unat (word_of_nat ?v :: u32) = ?v" if "?n < 3"
  proof -
    have "?v < 128 ^ length (take (?n + 1) bs)" by (rule bound)
    also have "\<dots> \<le> 128 ^ 3" using that by (intro power_increasing) auto
    finally show ?thesis by (simp add: unat_of_nat)
  qed
  show ?thesis
  proof (cases "?n < 3 \<and> \<not> length bs \<le> min ?n 3")
    case True
    then have "(word_of_nat ?v :: u32) > 0xFFFF \<longleftrightarrow> ?v > 65535"
      using v by (simp add: word_less_nat_alt)
    moreover have "ucast (word_of_nat ?v :: u32) = (word_of_nat ?v :: u16)"
      using True by (simp add: word_unat_eq_iff unsigned_ucast_eq unsigned_take_bit_eq v unsigned_of_nat)
    ultimately show ?thesis
      using True unfolding decode_compact_u16_def loop compact_spec_def Let_def by simp
  next
    case False
    then show ?thesis
      unfolding decode_compact_u16_def loop compact_spec_def Let_def by auto
  qed
qed

lemma leb_bytes_cont: "unat (word_of_nat (n mod 128 + 128) :: byte) = n mod 128 + 128"
  by (rule unat_of_nat_small) (use mod_less_divisor [of 128 n] in linarith)

lemma leb_val_bytes: "leb_val (leb_bytes n) = n"
proof (induction n rule: leb_bytes.induct)
  case (1 n)
  then show ?case
    by (subst leb_bytes.simps) (auto simp: unat_of_nat_small leb_bytes_cont simp del: of_nat_add)
qed

lemma leb_bytes_continues:
  "takeWhile continues (leb_bytes n @ rest) = butlast (leb_bytes n) \<and> leb_bytes n \<noteq> []"
proof (induction n rule: leb_bytes.induct)
  case (1 n)
  show ?case
  proof (cases "n < 128")
    case True
    then show ?thesis
      by (subst (1 2 3) leb_bytes.simps) (simp add: continues_def unat_of_nat_small)
  next
    case False
    moreover have "continues (word_of_nat (n mod 128 + 128))"
      unfolding continues_def leb_bytes_cont by simp
    ultimately show ?thesis
      using "1" by (subst (1 2 3) leb_bytes.simps) (simp del: of_nat_add)
  qed
qed

lemma length_leb_bytes:
  "n < 2097152 \<Longrightarrow> length (leb_bytes n) = (if n < 128 then 1 else if n < 16384 then 2 else 3)"
  by (subst leb_bytes.simps, subst leb_bytes.simps, subst leb_bytes.simps) auto

lemma encode_compact_u16_bytes: "encode_compact_u16 v out = out @ leb_bytes (unat v)"
proof (induction v out rule: encode_compact_u16.induct)
  case (1 v out)
  have d: "unat (drop_bit 7 v) = unat v div 128"
    by (simp add: drop_bit_eq_div unat_div_distrib)
  have low: "unat (ucast (v AND 0x7F) :: byte) = unat v mod 128"
    using mod_less_divisor [of 128 "unat v"] by (subst unat_ucast_small) (simp_all only: and_mask7, simp)
  have z: "drop_bit 7 v = 0 \<longleftrightarrow> unat v < 128"
    using d by (metis div_eq_0_iff unat_eq_zero zero_neq_numeral)
  show ?case
  proof (cases "unat v < 128")
    case True
    moreover have "ucast (v AND 0x7F) = (word_of_nat (unat v mod 128) :: byte)"
      unfolding low [symmetric] by simp
    ultimately have "ucast (v AND 0x7F) = (word_of_nat (unat v) :: byte)" by simp
    with True z show ?thesis
      by (subst encode_compact_u16.simps, subst leb_bytes.simps) (simp add: Let_def)
  next
    case False
    have dis: "(ucast (v AND 0x7F) :: byte) AND 0x80 = 0"
      unfolding byte_continues continues_def low using mod_less_divisor [of 128 "unat v"] by simp
    have "(ucast (v AND 0x7F) :: byte) OR 0x80 = ucast (v AND 0x7F) + 0x80"
      using dis by (simp add: disjunctive_add_eq_or)
    also have "\<dots> = word_of_nat (unat v mod 128 + 128)"
      unfolding low [symmetric] by simp
    finally show ?thesis
      using False z "1.IH" [OF refl refl] d
      by (subst encode_compact_u16.simps, subst leb_bytes.simps) (simp add: Let_def)
  qed
qed

lemma length_encode_compact_u16:
  "length (encode_compact_u16 v []) = (if v < 0x80 then 1 else if v < 0x4000 then 2 else 3)"
proof -
  have "unat v < 65536" using unsigned_less [of v, where 'a = nat] by simp
  then show ?thesis
    by (simp add: encode_compact_u16_bytes length_leb_bytes word_less_nat_alt)
qed

lemma encode_compact_u16_append: "encode_compact_u16 v out = out @ encode_compact_u16 v []"
  by (simp add: encode_compact_u16_bytes)

lemma decode_encode_compact_u16:
  "decode_compact_u16 (encode_compact_u16 v [] @ rest) = Ok (v, length (encode_compact_u16 v []))"
proof -
  let ?bs = "leb_bytes (unat v)"
  have v: "unat v < 65536" using unsigned_less [of v, where 'a = nat] by simp
  have len: "length ?bs \<le> 3" "?bs \<noteq> []"
    using length_leb_bytes [of "unat v"] v leb_bytes_continues [of "unat v" "[]"] by auto
  have tw: "length (takeWhile continues (?bs @ rest)) = length ?bs - 1"
    using leb_bytes_continues [of "unat v" rest] by simp
  have "Suc (length ?bs - 1) = length ?bs" using len by (cases ?bs) auto
  then have "leb_val (take (Suc (length ?bs - 1)) (?bs @ rest)) = unat v"
    by (simp add: leb_val_bytes)
  then show ?thesis
    using len v unfolding decode_compact_u16_eq_spec encode_compact_u16_bytes compact_spec_def Let_def
    by (simp add: tw) (cases ?bs; simp)
qed

lemma decode_compact_u16_consumed:
  "decode_compact_u16 bs = Ok (v, n) \<Longrightarrow> 1 \<le> n \<and> n \<le> 3 \<and> n \<le> length bs"
  by (auto simp: decode_compact_u16_eq_spec compact_spec_def Let_def split: if_splits)

section \<open>Properties\<close>

text \<open>
  C18: The compact-u16 codec against the base-128 reference. Encoding appends one, two or three
  bytes by the size of the value; decoding what was encoded gives the value back and the number of
  bytes written, whatever follows; and on arbitrary input the decoder is the reference semantics:
  end of input when all bytes continue, overflow from the fourth byte or above \<open>u16::MAX\<close>, else the
  value of the bytes up to the first that does not continue.
\<close>

theorem compact_u16_codec:
  "encode_compact_u16 v out = out @ encode_compact_u16 v [] \<and>
   length (encode_compact_u16 v []) = (if v < 0x80 then 1 else if v < 0x4000 then 2 else 3) \<and>
   decode_compact_u16 (encode_compact_u16 v [] @ rest) = Ok (v, length (encode_compact_u16 v [])) \<and>
   decode_compact_u16 bs = compact_spec bs"
  by (intro conjI encode_compact_u16_append length_encode_compact_u16 decode_encode_compact_u16
      decode_compact_u16_eq_spec)

end
