(* ===== verification/SolPubkey.thy ===== *)
theory SolPubkey
  imports Codecs
begin

text \<open>
  The Solana key types (\<open>crates/solana-types/src\<close>: \<open>pubkey.rs\<close>, \<open>hash.rs\<close>, \<open>signature.rs\<close>): 32-byte
  public keys and blockhashes and 64-byte signatures with their base-58 text forms, the
  compile-time decoder of key constants, and program derived addresses. \<open>bs58\<close>, SHA-256 and the
  curve check of \<open>ed25519-dalek\<close> are arguments.
\<close>

section \<open>Types and text forms\<close>

datatype pubkey = Pubkey (pubkey_bytes: bytes)
datatype sol_hash = SolHash (sol_hash_bytes: bytes)
datatype signature = Signature (signature_bytes: bytes)

datatype pubkey_error =
    PkWrongLength usize
  | PkInvalidBase58 string
  | InvalidSeeds
  | TooManySeeds usize
  | SeedTooLarge usize

datatype sol_hash_error = HashWrongLength usize | HashInvalidBase58 string
datatype signature_error = SigWrongLength usize | SigInvalidBase58 string

definition wf_pubkey :: "pubkey \<Rightarrow> bool" where
  "wf_pubkey p = (length (pubkey_bytes p) = 32)"

definition wf_sol_hash :: "sol_hash \<Rightarrow> bool" where
  "wf_sol_hash h = (length (sol_hash_bytes h) = 32)"

definition wf_signature :: "signature \<Rightarrow> bool" where
  "wf_signature s = (length (signature_bytes s) = 64)"

definition pubkey_zero :: pubkey where
  "pubkey_zero = Pubkey (replicate 32 0)"

definition sol_hash_zero :: sol_hash where
  "sol_hash_zero = SolHash (replicate 32 0)"

definition signature_zero :: signature where
  "signature_zero = Signature (replicate 64 0)"

definition pubkey_to_base58 :: "b58_encoder \<Rightarrow> pubkey \<Rightarrow> string" where
  "pubkey_to_base58 enc p = enc (pubkey_bytes p)"

definition sol_hash_to_base58 :: "b58_encoder \<Rightarrow> sol_hash \<Rightarrow> string" where
  "sol_hash_to_base58 enc h = enc (sol_hash_bytes h)"

definition signature_to_base58 :: "b58_encoder \<Rightarrow> signature \<Rightarrow> string" where
  "signature_to_base58 enc s = enc (signature_bytes s)"

definition pubkey_from_base58 :: "b58_decoder \<Rightarrow> string \<Rightarrow> (pubkey, pubkey_error) result" where
  "pubkey_from_base58 dec s =
     and_then (map_err PkInvalidBase58 (dec s))
       (\<lambda>decoded. if length decoded \<noteq> 32 then Err (PkWrongLength (length decoded)) else Ok (Pubkey decoded))"

definition sol_hash_from_base58 :: "b58_decoder \<Rightarrow> string \<Rightarrow> (sol_hash, sol_hash_error) result" where
  "sol_hash_from_base58 dec s =
     and_then (map_err HashInvalidBase58 (dec s))
       (\<lambda>decoded. if length decoded \<noteq> 32 then Err (HashWrongLength (length decoded)) else Ok (SolHash decoded))"

definition signature_from_base58 :: "b58_decoder \<Rightarrow> string \<Rightarrow> (signature, signature_error) result" where
  "signature_from_base58 dec s =
     and_then (map_err SigInvalidBase58 (dec s))
       (\<lambda>decoded. if length decoded \<noteq> 64 then Err (SigWrongLength (length decoded)) else Ok (Signature decoded))"

section \<open>The compile-time decoder\<close>

text \<open>The table \<open>DECODE\<close>: 128 entries, 0xFF outside the alphabet.\<close>

definition B58_DECODE :: bytes where
  "B58_DECODE =
     foldl (\<lambda>table i. table[of_char (b58_alphabet ! i) := word_of_nat i]) (replicate 128 0xFF) [0..<58]"

text \<open>
  The inner loop: \<open>result * 58 + digit\<close> from the last byte to the first. The list is walked from its
  end by recursion; the carry that is left comes back with the new bytes.
\<close>

fun mul58_add :: "bytes \<Rightarrow> u32 \<Rightarrow> bytes \<times> u32" where
  "mul58_add [] carry = ([], carry)"
| "mul58_add (b # bs) carry =
     (let (bs', c) = mul58_add bs carry;
          c' = c + 58 * ucast b
      in (ucast (c' AND 0xFF) # bs', drop_bit 8 c'))"

text \<open>The outer loop over the characters; \<open>None\<close> is a panic.\<close>

fun const_b58_loop :: "bytes \<Rightarrow> bytes \<Rightarrow> bytes option" where
  "const_b58_loop result [] = Some result"
| "const_b58_loop result (c # s) =
     (if unat c \<ge> 128 then None
      else
        let digit = B58_DECODE ! unat c in
        if digit = 0xFF then None
        else
          let (result', carry) = mul58_add result (ucast digit)
          in if carry \<noteq> 0 then None else const_b58_loop result' s)"

definition const_b58_decode_32 :: "bytes \<Rightarrow> pubkey option" where
  "const_b58_decode_32 s = map_option Pubkey (const_b58_loop (replicate 32 0) s)"

definition from_str_const :: "string \<Rightarrow> pubkey option" where
  "from_str_const s = const_b58_decode_32 (bytes_of_string s)"

section \<open>Program derived addresses\<close>

definition MAX_SEEDS :: usize where
  "MAX_SEEDS = 16"

definition MAX_SEED_LEN :: usize where
  "MAX_SEED_LEN = 32"

definition PDA_MARKER :: bytes where
  "PDA_MARKER = bytes_of_string ''ProgramDerivedAddress''"

text \<open>The seed check stops at the first seed that is too long.\<close>

fun seed_error :: "bytes list \<Rightarrow> pubkey_error option" where
  "seed_error [] = None"
| "seed_error (seed # seeds) =
     (if length seed > MAX_SEED_LEN then Some (SeedTooLarge (length seed)) else seed_error seeds)"

definition create_program_address ::
    "hash_fn \<Rightarrow> (bytes \<Rightarrow> bool) \<Rightarrow> bytes list \<Rightarrow> pubkey \<Rightarrow> (pubkey, pubkey_error) result" where
  "create_program_address sha256 on_curve seeds program_id =
     (if length seeds > MAX_SEEDS then Err (TooManySeeds (length seeds))
      else case seed_error seeds of
        Some e \<Rightarrow> Err e
      | None \<Rightarrow>
          let h = sha256 (concat seeds @ pubkey_bytes program_id @ PDA_MARKER)
          in if on_curve h then Err InvalidSeeds else Ok (Pubkey h))"

function try_find_from ::
    "hash_fn \<Rightarrow> (bytes \<Rightarrow> bool) \<Rightarrow> bytes list \<Rightarrow> pubkey \<Rightarrow> byte \<Rightarrow> (pubkey \<times> byte) option" where
  "try_find_from sha256 on_curve seeds program_id nonce =
     (case create_program_address sha256 on_curve (seeds @ [[nonce]]) program_id of
        Inr address \<Rightarrow> Some (address, nonce)
      | Inl InvalidSeeds \<Rightarrow>
          if nonce = 0 then None else try_find_from sha256 on_curve seeds program_id (nonce - 1)
      | Inl _ \<Rightarrow> None)"
  by auto
termination
proof (relation "measure (\<lambda>(_, _, _, _, nonce). unat nonce)")
  fix nonce :: byte
  assume "nonce \<noteq> 0"
  then have "unat (nonce - 1) < unat nonce"
    by (metis measure_unat word_less_nat_alt)
  then show "((sha256, on_curve, seeds, program_id, nonce - 1), sha256, on_curve, seeds, program_id, nonce)
      \<in> measure (\<lambda>(_, _, _, _, nonce). unat nonce)" for sha256 :: hash_fn and on_curve :: "bytes \<Rightarrow> bool" and seeds :: "bytes list" and program_id :: pubkey
    by simp
qed simp

declare try_find_from.simps [simp del]

definition try_find_program_address ::
    "hash_fn \<Rightarrow> (bytes \<Rightarrow> bool) \<Rightarrow> bytes list \<Rightarrow> pubkey \<Rightarrow> (pubkey \<times> byte) option" where
  "try_find_program_address sha256 on_curve seeds program_id =
     try_find_from sha256 on_curve seeds program_id 255"

text \<open>\<open>find_program_address\<close> unwraps the result and panics on \<open>None\<close>: \<open>None\<close> is that panic here.\<close>

definition find_program_address ::
    "hash_fn \<Rightarrow> (bytes \<Rightarrow> bool) \<Rightarrow> bytes list \<Rightarrow> pubkey \<Rightarrow> (pubkey \<times> byte) option" where
  "find_program_address = try_find_program_address"

section \<open>Lemmas: the decoder of constants\<close>

lemma carry_arith: "(m::nat) * P + r + (256 * P) * d = (m + 256 * d) * P + r"
  by (simp add: algebra_simps)

lemma mask8: "(0xFF :: 'a::len word) = mask 8"
  by (simp add: mask_eq_exp_minus_1)

lemma unat_numeral_ff: "unat (0xFF :: byte) = 255"
  by simp

lemma foldl_update_length: "length (foldl (\<lambda>t i. t[f i := g i]) t xs) = length t"
  by (induction xs arbitrary: t) auto

lemma decode_table_nth:
  assumes "n \<le> 58" "k < 128" "length t = 128"
  shows "foldl (\<lambda>table i. table[of_char (b58_alphabet ! i) := word_of_nat i]) t [0..<n] ! k =
    (if char_of k \<in> set (take n b58_alphabet) then word_of_nat (b58_index (char_of k)) else t ! k)"
  using assms(1)
proof (induction n)
  case (Suc n)
  have ck: "of_char (char_of k) = k" using assms(2) by simp
  have idx: "b58_index (b58_alphabet ! n) = n"
    using b58_index_char [of n] Suc.prems by (simp add: b58_char_def)
  have set: "set (take (Suc n) b58_alphabet) = insert (b58_alphabet ! n) (set (take n b58_alphabet))"
    using Suc.prems by (simp only: take_Suc_conv_app_nth b58_alphabet_length) simp
  have "of_char (b58_alphabet ! n) = k \<longleftrightarrow> b58_alphabet ! n = char_of k"
    using ck by (metis char_of_char)
  then show ?case
    using Suc assms(2,3) idx by (auto simp: nth_list_update foldl_update_length set)
qed simp

lemma B58_DECODE_nth:
  assumes "n < 128"
  shows "B58_DECODE ! n =
    (if char_of n \<in> set b58_alphabet then word_of_nat (b58_index (char_of n)) else 0xFF)"
  unfolding B58_DECODE_def using assms by (subst decode_table_nth) simp_all

lemma b58_alphabet_ascii: "c \<in> set b58_alphabet \<Longrightarrow> (of_char c :: nat) < 128"
  by (auto simp: b58_alphabet_def)

lemma b58_index_lt: "c \<in> set b58_alphabet \<Longrightarrow> b58_index c < 58"
  using b58_char_index by blast

lemma unat_char_byte: "unat (word_of_nat (of_char c) :: byte) = of_char c"
  by (intro unat_of_nat_small) (rule nat_of_char_less_256)

text \<open>One pass of the inner loop multiplies by 58 and adds; the carry stays below 58.\<close>

lemma mul58_add_value:
  assumes "mul58_add bs carry = (bs', c)" "unat carry < 58"
  shows "length bs' = length bs \<and> unat c < 58 \<and>
    be_val bs' + 256 ^ length bs * unat c = 58 * be_val bs + unat carry"
  using assms
proof (induction bs arbitrary: bs' c)
  case (Cons b bs)
  obtain r c1 where rec: "mul58_add bs carry = (r, c1)" by fastforce
  note IH = Cons.IH [OF rec Cons.prems(2)]
  let ?c' = "c1 + 58 * ucast b"
  have ub: "unat (ucast b :: u32) = unat b"
    using unat_byte_lt [of b] by (simp add: unat_ucast_small)
  have n: "unat ?c' = unat c1 + 58 * unat b"
    using IH unat_byte_lt [of b] by (simp add: unat_word_ariths ub)
  have bs': "bs' = ucast (?c' AND 0xFF) # r" and c: "c = drop_bit 8 ?c'"
    using Cons.prems(1) rec by (auto simp: Let_def)
  have "unat (?c' AND 0xFF) = unat ?c' mod 256"
    unfolding mask8 by (simp only: take_bit_eq_mask [symmetric] unsigned_take_bit_eq) (simp add: take_bit_eq_mod)
  then have lo: "unat (ucast (?c' AND 0xFF) :: byte) = unat ?c' mod 256"
    by (subst unat_ucast_small) simp_all
  have hi: "unat c = unat ?c' div 256"
    unfolding c by (simp add: drop_bit_eq_div unat_div_distrib)
  have "unat c < 58"
    unfolding hi n using IH unat_byte_lt [of b] by linarith
  moreover have "be_val bs' + 256 ^ length (b # bs) * unat c = 58 * be_val (b # bs) + unat carry"
  proof -
    have "be_val bs' + 256 ^ length (b # bs) * unat c =
        (unat ?c' mod 256 + 256 * (unat ?c' div 256)) * 256 ^ length bs + be_val r"
      using IH unfolding bs' be_val_Cons lo hi by (simp only: carry_arith list.size add_0_right add_Suc_right power_Suc)
    also have "unat ?c' mod 256 + 256 * (unat ?c' div 256) = unat c1 + 58 * unat b"
      unfolding n by simp
    also have "(unat c1 + 58 * unat b) * 256 ^ length bs + be_val r = 58 * be_val (b # bs) + unat carry"
      using IH by (simp add: be_val_Cons algebra_simps)
    finally show ?thesis .
  qed
  ultimately show ?case using IH by (simp add: bs')
qed simp

definition b58_acc :: "nat \<Rightarrow> string \<Rightarrow> nat" where
  "b58_acc a s = foldl (\<lambda>a c. a * 58 + b58_index c) a s"

lemma b58_acc_ge: "a \<le> b58_acc a s"
proof (induction s arbitrary: a)
  case (Cons c s)
  have "a \<le> a * 58 + b58_index c" by simp
  also have "\<dots> \<le> b58_acc (a * 58 + b58_index c) s" by (rule Cons)
  finally show ?case by (simp add: b58_acc_def)
qed (simp add: b58_acc_def)

lemma const_b58_loop_value:
  "const_b58_loop result (bytes_of_string s) =
    (if set s \<subseteq> set b58_alphabet \<and> b58_acc (be_val result) s < 256 ^ length result
     then Some (be_bytes (length result) (b58_acc (be_val result) s)) else None)"
proof (induction s arbitrary: result)
  case Nil
  show ?case using be_val_bound [of result] by (simp add: bytes_of_string_def b58_acc_def)
next
  case (Cons ch s)
  let ?c = "word_of_nat (of_char ch) :: byte"
  show ?case
  proof (cases "ch \<in> set b58_alphabet")
    case False
    have "B58_DECODE ! of_char ch = 0xFF" if "(of_char ch :: nat) < 128"
      using that False by (simp add: B58_DECODE_nth)
    with False show ?thesis
      by (auto simp: bytes_of_string_def unat_char_byte Let_def)
  next
    case True
    have lt: "b58_index ch < 58" by (rule b58_index_lt [OF True])
    let ?d = "word_of_nat (b58_index ch) :: byte"
    have d: "B58_DECODE ! of_char ch = ?d"
      using True b58_alphabet_ascii [OF True] by (simp add: B58_DECODE_nth)
    have ud: "unat ?d = b58_index ch" using lt by (intro unat_of_nat_small) simp
    then have nff: "?d \<noteq> 0xFF" using lt unat_numeral_ff by (auto simp del: unsigned_of_nat of_nat_unat)
    obtain r c where m: "mul58_add result (ucast ?d) = (r, c)" by fastforce
    have uc: "unat (ucast ?d :: u32) = b58_index ch"
      using ud lt by (subst unat_ucast_small) simp_all
    note val = mul58_add_value [OF m, unfolded uc, OF lt]
    have acc: "b58_acc (be_val result) (ch # s) = b58_acc (58 * be_val result + b58_index ch) s"
      by (simp add: b58_acc_def mult.commute)
    have step: "const_b58_loop result (bytes_of_string (ch # s)) =
        (if c \<noteq> 0 then None else const_b58_loop r (bytes_of_string s))"
      using True b58_alphabet_ascii [OF True] nff
      by (simp add: bytes_of_string_def unat_char_byte d m Let_def)
    show ?thesis
    proof (cases "c = 0")
      case True
      then have "be_val r = 58 * be_val result + b58_index ch" "length r = length result"
        using val by simp_all
      with True \<open>ch \<in> set b58_alphabet\<close> show ?thesis
        unfolding step acc using Cons.IH [of r] by simp
    next
      case False
      then have "unat c \<noteq> 0" by (simp add: unat_eq_zero)
      then have "256 ^ length result \<le> 256 ^ length result * unat c" by simp
      then have "256 ^ length result \<le> 58 * be_val result + b58_index ch"
        using val by linarith
      then have "\<not> b58_acc (58 * be_val result + b58_index ch) s < 256 ^ length result"
        using b58_acc_ge [of "58 * be_val result + b58_index ch" s] by linarith
      with False show ?thesis unfolding step acc by simp
    qed
  qed
qed


lemma from_str_const_value:
  "from_str_const s =
    (if set s \<subseteq> set b58_alphabet \<and> b58_value s < 256 ^ 32
     then Some (Pubkey (be_bytes 32 (b58_value s))) else None)"
  using const_b58_loop_value [of "replicate 32 0" s]
  by (simp add: from_str_const_def const_b58_decode_32_def b58_acc_def b58_value_def del: replicate.simps)

section \<open>Lemmas: program derived addresses\<close>

definition seeds_ok :: "bytes list \<Rightarrow> bool" where
  "seeds_ok seeds = (length seeds < MAX_SEEDS \<and> (\<forall>s \<in> set seeds. length s \<le> MAX_SEED_LEN))"

definition pda_hash :: "hash_fn \<Rightarrow> bytes list \<Rightarrow> pubkey \<Rightarrow> byte \<Rightarrow> bytes" where
  "pda_hash sha256 seeds program_id nonce =
     sha256 (concat seeds @ nonce # pubkey_bytes program_id @ PDA_MARKER)"

lemma seed_error_None: "seed_error seeds = None \<longleftrightarrow> (\<forall>s \<in> set seeds. length s \<le> MAX_SEED_LEN)"
  by (induction seeds) auto

lemma seed_error_not_InvalidSeeds: "seed_error seeds \<noteq> Some InvalidSeeds"
  by (induction seeds) auto

lemma create_with_nonce:
  "create_program_address sha256 on_curve (seeds @ [[nonce]]) p =
    (if on_curve (pda_hash sha256 seeds p nonce) then Err InvalidSeeds
     else Ok (Pubkey (pda_hash sha256 seeds p nonce)))" if "seeds_ok seeds"
proof -
  have "seed_error (seeds @ [[nonce]]) = None"
    using that unfolding seed_error_None by (auto simp: seeds_ok_def MAX_SEED_LEN_def)
  with that show ?thesis
    by (simp add: create_program_address_def seeds_ok_def pda_hash_def Let_def)
qed

lemma create_with_nonce_bad:
  assumes "\<not> seeds_ok seeds"
  shows "\<exists>e. create_program_address sha256 on_curve (seeds @ [[nonce]]) p = Inl e \<and> e \<noteq> InvalidSeeds"
proof (cases "length (seeds @ [[nonce]]) > MAX_SEEDS")
  case True
  then show ?thesis by (simp add: create_program_address_def)
next
  case False
  with assms have "seed_error (seeds @ [[nonce]]) \<noteq> None"
    unfolding seed_error_None by (auto simp: seeds_ok_def)
  with False seed_error_not_InvalidSeeds [of "seeds @ [[nonce]]"] show ?thesis
    by (auto simp: create_program_address_def)
qed

lemma byte_minus_one: "(n :: byte) \<noteq> 0 \<Longrightarrow> b \<le> n \<longleftrightarrow> b = n \<or> b \<le> n - 1"
proof -
  assume "n \<noteq> 0"
  then have "unat (n - 1) = unat n - 1" "0 < unat n"
    by (simp_all only: unat_minus_one unat_gt_0 not_False_eq_True)
  then show ?thesis
    unfolding word_le_nat_alt word_unat_eq_iff by linarith
qed

lemma try_find_from_ok:
  assumes "seeds_ok seeds"
  shows "(try_find_from sha256 on_curve seeds p n = Some (address, b) \<longleftrightarrow>
      b \<le> n \<and> \<not> on_curve (pda_hash sha256 seeds p b) \<and> address = Pubkey (pda_hash sha256 seeds p b) \<and>
      (\<forall>b'. b < b' \<and> b' \<le> n \<longrightarrow> on_curve (pda_hash sha256 seeds p b'))) \<and>
    (try_find_from sha256 on_curve seeds p n = None \<longleftrightarrow>
      (\<forall>b \<le> n. on_curve (pda_hash sha256 seeds p b)))"
proof (induction n rule: measure_induct_rule [where f = unat])
  case (less n)
  show ?case
  proof (cases "on_curve (pda_hash sha256 seeds p n)")
    case False
    then have "try_find_from sha256 on_curve seeds p n = Some (Pubkey (pda_hash sha256 seeds p n), n)"
      by (subst try_find_from.simps) (simp add: create_with_nonce [OF assms])
    with False show ?thesis by (auto simp: word_le_less_eq) 
  next
    case True
    then have step: "try_find_from sha256 on_curve seeds p n =
        (if n = 0 then None else try_find_from sha256 on_curve seeds p (n - 1))"
      by (subst try_find_from.simps) (simp add: create_with_nonce [OF assms])
    show ?thesis
    proof (cases "n = 0")
      case True
      with \<open>on_curve _\<close> step show ?thesis by auto
    next
      case False
      note IH = less.IH [OF measure_unat [OF False]]
      show ?thesis
        using step False IH byte_minus_one [OF False] \<open>on_curve _\<close> by auto
    qed
  qed
qed

lemma try_find_from_bad: "\<not> seeds_ok seeds \<Longrightarrow> try_find_from sha256 on_curve seeds p n = None"
  using create_with_nonce_bad [of seeds sha256 on_curve n p]
  by (subst try_find_from.simps) (auto split: pubkey_error.splits)

section \<open>Properties\<close>

text \<open>
  C19: Keys, blockhashes and signatures survive printing and parsing, and parsing accepts exactly
  the texts that print a value of the right length, for any codec with the laws of base 58.
\<close>

theorem sol_text_roundtrip:
  assumes "base58_codec enc dec"
  shows "(pubkey_from_base58 dec s = Ok p \<longleftrightarrow> wf_pubkey p \<and> pubkey_to_base58 enc p = s) \<and>
    (sol_hash_from_base58 dec s = Ok h \<longleftrightarrow> wf_sol_hash h \<and> sol_hash_to_base58 enc h = s) \<and>
    (signature_from_base58 dec s = Ok sig \<longleftrightarrow> wf_signature sig \<and> signature_to_base58 enc sig = s)"
proof (intro conjI)
  note dec = base58_codec.dec_iff [OF assms, of s]
  show "pubkey_from_base58 dec s = Ok p \<longleftrightarrow> wf_pubkey p \<and> pubkey_to_base58 enc p = s"
    by (cases p) (auto simp: pubkey_from_base58_def and_then_eq_Inr dec pubkey_to_base58_def wf_pubkey_def)
  show "sol_hash_from_base58 dec s = Ok h \<longleftrightarrow> wf_sol_hash h \<and> sol_hash_to_base58 enc h = s"
    by (cases h) (auto simp: sol_hash_from_base58_def and_then_eq_Inr dec sol_hash_to_base58_def wf_sol_hash_def)
  show "signature_from_base58 dec s = Ok sig \<longleftrightarrow> wf_signature sig \<and> signature_to_base58 enc sig = s"
    by (cases sig) (auto simp: signature_from_base58_def and_then_eq_Inr dec signature_to_base58_def wf_signature_def)
qed

lemma sol_text_roundtrip_witness:
  "pubkey_from_base58 ref_b58_dec (pubkey_to_base58 ref_b58_enc pubkey_zero) = Ok pubkey_zero"
  using sol_text_roundtrip [OF ref_b58.base58_codec_axioms, of "pubkey_to_base58 ref_b58_enc pubkey_zero" pubkey_zero]
  by (simp add: wf_pubkey_def pubkey_zero_def)

text \<open>
  C20: What the compile-time decoder accepts: texts over the alphabet whose base-58 value is below
  \<open>256 ^ 32\<close>, giving that value as 32 big-endian bytes. It agrees with the run-time parser wherever
  that succeeds, but it also accepts texts that do not decode to 32 bytes, such as the empty one.
\<close>

theorem key_constants_agree:
  "from_str_const s =
      (if set s \<subseteq> set b58_alphabet \<and> b58_value s < 256 ^ 32
       then Some (Pubkey (be_bytes 32 (b58_value s))) else None) \<and>
   (base58_numeric enc dec \<longrightarrow>
      (pubkey_from_base58 dec s = Ok p \<longrightarrow> from_str_const s = Some p) \<and>
      from_str_const [] = Some pubkey_zero \<and> pubkey_from_base58 dec [] = Err (PkWrongLength 0))"
proof (intro conjI impI)
  show "from_str_const s =
      (if set s \<subseteq> set b58_alphabet \<and> b58_value s < 256 ^ 32
       then Some (Pubkey (be_bytes 32 (b58_value s))) else None)"
    by (rule from_str_const_value)
  assume num: "base58_numeric enc dec"
  then have cod: "base58_codec enc dec" by (simp add: base58_numeric_def)
  {
    assume ok: "pubkey_from_base58 dec s = Ok p"
    obtain bs where bs: "dec s = Inr bs" "length bs = 32" "p = Pubkey bs"
      using ok by (auto simp: pubkey_from_base58_def and_then_eq_Inr split: if_splits)
    have "enc bs = s" using bs(1) base58_codec.enc_dec [OF cod] by blast
    then have "b58_value s = be_val bs" and "set s \<subseteq> set b58_alphabet"
      using base58_numeric.enc_value [OF num, of bs] base58_codec.enc_alphabet [OF cod, of bs] by auto
    with bs be_val_bound [of bs] show "from_str_const s = Some p"
      by (simp add: from_str_const_value be_bytes_be_val' del: be_bytes.simps)
  }
  show "from_str_const [] = Some pubkey_zero"
    by (simp add: from_str_const_value b58_value_def pubkey_zero_def del: be_bytes.simps replicate.simps)
  have "leading (0 :: byte) [] = 0" by (simp add: leading_def)
  have "dec [] = Inr []"
  proof -
    obtain bs where bs: "dec [] = Inr bs" using base58_codec.dec_total [OF cod, of "[]"] by auto
    then have e: "enc bs = []" by (rule base58_codec.enc_dec [OF cod])
    have "be_val bs = 0" "leading 0 bs = 0"
      using base58_numeric.enc_value [OF num, of bs] base58_numeric.enc_leading [OF num, of bs] e
      by (simp_all add: b58_value_def leading_def)
    then have "bs = []"
      by (cases bs) (auto simp: be_val_Cons leading_def unat_eq_zero split: if_splits)
    with bs show ?thesis by simp
  qed
  then show "pubkey_from_base58 dec [] = Err (PkWrongLength 0)"
    by (simp add: pubkey_from_base58_def)
qed

lemma key_constants_agree_witness:
  "from_str_const (pubkey_to_base58 ref_b58_enc pubkey_zero) = Some pubkey_zero"
proof -
  have "pubkey_from_base58 ref_b58_dec (pubkey_to_base58 ref_b58_enc pubkey_zero) = Ok pubkey_zero"
    by (simp add: pubkey_from_base58_def pubkey_to_base58_def pubkey_zero_def ref_b58_dec_enc del: replicate.simps)
  then show ?thesis
    by (rule key_constants_agree [THEN conjunct2, THEN mp, OF ref_b58.base58_numeric_axioms, THEN conjunct1, THEN mp])
qed

text \<open>
  C21: The address search always ends. With at most 15 seeds of at most 32 bytes it returns the
  highest nonce whose hash is off the curve, with that hash as the address, and fails only when all
  256 hashes are on the curve; with more or longer seeds it fails.
\<close>

theorem pda_canonical_bump:
  "(seeds_ok seeds \<longrightarrow>
      (try_find_program_address sha256 on_curve seeds p = Some (address, b) \<longleftrightarrow>
         \<not> on_curve (pda_hash sha256 seeds p b) \<and> address = Pubkey (pda_hash sha256 seeds p b) \<and>
         (\<forall>b' > b. on_curve (pda_hash sha256 seeds p b'))) \<and>
      (try_find_program_address sha256 on_curve seeds p = None \<longleftrightarrow>
         (\<forall>b. on_curve (pda_hash sha256 seeds p b)))) \<and>
   (\<not> seeds_ok seeds \<longrightarrow> try_find_program_address sha256 on_curve seeds p = None)"
proof -
  have top: "b \<le> (255 :: byte)" for b
    using unat_byte_lt [of b] by (simp add: word_le_nat_alt)
  show ?thesis
    using try_find_from_ok [of seeds sha256 on_curve p 255 address b] try_find_from_bad
    by (auto simp: try_find_program_address_def top)
qed

lemma pda_canonical_bump_witness:
  "try_find_program_address (\<lambda>bs. bs) (\<lambda>h. hd h > 253) [] pubkey_zero =
     Some (Pubkey (253 # replicate 32 0 @ PDA_MARKER), 253)"
proof -
  have "seeds_ok []" by (simp add: seeds_ok_def MAX_SEEDS_def)
  then show ?thesis
    using pda_canonical_bump [of "[]" "\<lambda>bs. bs" "\<lambda>h. hd h > 253" pubkey_zero
        "Pubkey (253 # replicate 32 0 @ PDA_MARKER)" 253]
    by (simp add: pda_hash_def pubkey_zero_def)
qed

end
