(* ===== verification/SolTransaction.thy ===== *)
theory SolTransaction
  imports SolWire SolPubkey
begin

text \<open>
  Solana transactions (\<open>crates/solana-types/src\<close>: \<open>instruction.rs\<close>, \<open>keypair.rs\<close>,
  \<open>transaction.rs\<close>): the wire format and its parser, the compilation of instructions into a message
  with indexed accounts, and signing. The Ed25519 operations of \<open>ed25519-dalek\<close> are two arguments:
  the public key of a seed and the signature of a message. A panic of the code is \<open>None\<close>.
\<close>

section \<open>Data\<close>

record account_meta =
  am_pubkey :: pubkey
  am_is_signer :: bool
  am_is_writable :: bool

definition account_meta_new :: "pubkey \<Rightarrow> bool \<Rightarrow> account_meta" where
  "account_meta_new p is_signer = \<lparr>am_pubkey = p, am_is_signer = is_signer, am_is_writable = True\<rparr>"

definition account_meta_new_readonly :: "pubkey \<Rightarrow> bool \<Rightarrow> account_meta" where
  "account_meta_new_readonly p is_signer = \<lparr>am_pubkey = p, am_is_signer = is_signer, am_is_writable = False\<rparr>"

record instruction =
  ix_program_id :: pubkey
  ix_accounts :: "account_meta list"
  ix_data :: bytes

definition instruction_new_with_bytes :: "pubkey \<Rightarrow> bytes \<Rightarrow> account_meta list \<Rightarrow> instruction" where
  "instruction_new_with_bytes program_id d accounts =
     \<lparr>ix_program_id = program_id, ix_accounts = accounts, ix_data = d\<rparr>"

record message_header =
  num_required_signatures :: byte
  num_readonly_signed_accounts :: byte
  num_readonly_unsigned_accounts :: byte

record compiled_instruction =
  ci_program_id_index :: byte
  ci_accounts :: bytes
  ci_data :: bytes

record message =
  msg_header :: message_header
  msg_account_keys :: "pubkey list"
  msg_recent_blockhash :: sol_hash
  msg_instructions :: "compiled_instruction list"

record transaction =
  tx_signatures :: "signature list"
  tx_message :: message

section \<open>Key pairs\<close>

type_synonym public_key_fn = "bytes \<Rightarrow> bytes"
type_synonym sign_fn = "bytes \<Rightarrow> bytes \<Rightarrow> bytes"

record keypair =
  kp_seed :: bytes
  kp_pubkey :: pubkey

datatype keypair_error = PublicKeyMismatch

definition keypair_from_seed_bytes :: "public_key_fn \<Rightarrow> bytes \<Rightarrow> keypair" where
  "keypair_from_seed_bytes public_key seed = \<lparr>kp_seed = seed, kp_pubkey = Pubkey (public_key seed)\<rparr>"

definition keypair_from_secret_bytes ::
    "public_key_fn \<Rightarrow> bytes \<Rightarrow> (keypair, keypair_error) result" where
  "keypair_from_secret_bytes public_key secret =
     (let seed = slice secret 0 32;
          derived = public_key seed;
          claimed = slice secret 32 64
      in if derived \<noteq> claimed then Err PublicKeyMismatch
         else Ok \<lparr>kp_seed = seed, kp_pubkey = Pubkey derived\<rparr>)"

definition sign_message :: "sign_fn \<Rightarrow> keypair \<Rightarrow> bytes \<Rightarrow> signature" where
  "sign_message sign kp msg = Signature (sign (kp_seed kp) msg)"

section \<open>The wire format: writing\<close>

definition write_instruction :: "compiled_instruction \<Rightarrow> bytes \<Rightarrow> bytes" where
  "write_instruction ix out =
     (let out = out @ [ci_program_id_index ix];
          out = encode_compact_u16 (word_of_nat (length (ci_accounts ix))) out;
          out = out @ ci_accounts ix;
          out = encode_compact_u16 (word_of_nat (length (ci_data ix))) out
      in out @ ci_data ix)"

definition write_wire :: "message \<Rightarrow> bytes \<Rightarrow> bytes" where
  "write_wire m out =
     (let h = msg_header m;
          out = out @ [num_required_signatures h];
          out = out @ [num_readonly_signed_accounts h];
          out = out @ [num_readonly_unsigned_accounts h];
          out = encode_compact_u16 (word_of_nat (length (msg_account_keys m))) out;
          out = fold (\<lambda>pk out. out @ pubkey_bytes pk) (msg_account_keys m) out;
          out = out @ sol_hash_bytes (msg_recent_blockhash m);
          out = encode_compact_u16 (word_of_nat (length (msg_instructions m))) out
      in fold write_instruction (msg_instructions m) out)"

definition serialize_for_signing :: "message \<Rightarrow> bytes" where
  "serialize_for_signing m = write_wire m []"

definition tx_serialize :: "transaction \<Rightarrow> bytes" where
  "tx_serialize tx =
     (let out = encode_compact_u16 (word_of_nat (length (tx_signatures tx))) [];
          out = fold (\<lambda>sig out. out @ signature_bytes sig) (tx_signatures tx) out
      in write_wire (tx_message tx) out)"

section \<open>The wire format: reading\<close>

text \<open>
  All readers take the whole input and a position and return the new position, as the code does.
  \<open>read_compact\<close> is \<open>decode_compact_u16(&bytes[pos..])?\<close> followed by \<open>pos += n\<close>.
\<close>

definition read_compact :: "bytes \<Rightarrow> usize \<Rightarrow> (nat \<times> usize, wire_error) result" where
  "read_compact bs pos =
     and_then (decode_compact_u16 (drop pos bs)) (\<lambda>(count, n). Ok (unat count, pos + n))"

text \<open>The loops that copy \<open>count\<close> fixed-size arrays of \<open>w\<close> bytes.\<close>

fun read_arrays :: "nat \<Rightarrow> bytes \<Rightarrow> nat \<Rightarrow> usize \<Rightarrow> (bytes list \<times> usize, wire_error) result" where
  "read_arrays w bs 0 pos = Ok ([], pos)"
| "read_arrays w bs (Suc count) pos =
     (if pos + w > length bs then Err UnexpectedEof
      else and_then (read_arrays w bs count (pos + w))
        (\<lambda>(rest, p). Ok (slice bs pos (pos + w) # rest, p)))"

text \<open>A byte string with its compact-u16 length.\<close>

definition read_bytes :: "bytes \<Rightarrow> usize \<Rightarrow> (bytes \<times> usize, wire_error) result" where
  "read_bytes bs pos =
     and_then (read_compact bs pos) (\<lambda>(count, pos).
       if pos + count > length bs then Err UnexpectedEof
       else Ok (slice bs pos (pos + count), pos + count))"

definition read_instruction :: "bytes \<Rightarrow> usize \<Rightarrow> (compiled_instruction \<times> usize, wire_error) result" where
  "read_instruction bs pos =
     (if pos \<ge> length bs then Err UnexpectedEof
      else
        let program_id_index = bs ! pos in
        and_then (read_bytes bs (pos + 1)) (\<lambda>(accounts, pos).
        and_then (read_bytes bs pos) (\<lambda>(d, pos).
        Ok (\<lparr>ci_program_id_index = program_id_index, ci_accounts = accounts, ci_data = d\<rparr>, pos))))"

fun read_instructions ::
    "bytes \<Rightarrow> nat \<Rightarrow> usize \<Rightarrow> (compiled_instruction list \<times> usize, wire_error) result" where
  "read_instructions bs 0 pos = Ok ([], pos)"
| "read_instructions bs (Suc count) pos =
     and_then (read_instruction bs pos) (\<lambda>(ix, pos).
     and_then (read_instructions bs count pos) (\<lambda>(rest, pos). Ok (ix # rest, pos)))"

definition tx_from_bytes :: "bytes \<Rightarrow> (transaction, wire_error) result" where
  "tx_from_bytes bs =
     and_then (read_compact bs 0) (\<lambda>(sig_count, pos).
     and_then (read_arrays 64 bs sig_count pos) (\<lambda>(sigs, pos).
     if pos + 3 > length bs then Err UnexpectedEof
     else
       let header = \<lparr>num_required_signatures = bs ! pos, num_readonly_signed_accounts = bs ! (pos + 1),
                     num_readonly_unsigned_accounts = bs ! (pos + 2)\<rparr> in
     and_then (read_compact bs (pos + 3)) (\<lambda>(key_count, pos).
     and_then (read_arrays 32 bs key_count pos) (\<lambda>(keys, pos).
     if pos + 32 > length bs then Err UnexpectedEof
     else
       let recent_blockhash = SolHash (slice bs pos (pos + 32)) in
     and_then (read_compact bs (pos + 32)) (\<lambda>(ix_count, pos).
     and_then (read_instructions bs ix_count pos) (\<lambda>(ixs, pos).
     Ok \<lparr>tx_signatures = map Signature sigs,
         tx_message = \<lparr>msg_header = header, msg_account_keys = map Pubkey keys,
                       msg_recent_blockhash = recent_blockhash, msg_instructions = ixs\<rparr>\<rparr>))))))"

section \<open>Signing\<close>

definition new_unsigned :: "message \<Rightarrow> transaction" where
  "new_unsigned m =
     \<lparr>tx_signatures = replicate (unat (num_required_signatures (msg_header m))) signature_zero, tx_message = m\<rparr>"

text \<open>\<open>iter().position(p)\<close>.\<close>

fun position :: "('a \<Rightarrow> bool) \<Rightarrow> 'a list \<Rightarrow> nat option" where
  "position P [] = None"
| "position P (x # xs) = (if P x then Some 0 else map_option Suc (position P xs))"

fun sign_loop ::
    "sign_fn \<Rightarrow> bytes \<Rightarrow> nat \<Rightarrow> pubkey list \<Rightarrow> signature list \<Rightarrow> keypair list \<Rightarrow> signature list option" where
  "sign_loop sign msg n_signers keys sigs [] = Some sigs"
| "sign_loop sign msg n_signers keys sigs (kp # kps) =
     (if n_signers > length keys then None
      else
        let sigs' = (case position (\<lambda>k. k = kp_pubkey kp) (take n_signers keys) of
                       Some idx \<Rightarrow> if idx < length sigs then sigs[idx := sign_message sign kp msg] else sigs
                     | None \<Rightarrow> sigs)
        in sign_loop sign msg n_signers keys sigs' kps)"

definition tx_sign :: "sign_fn \<Rightarrow> transaction \<Rightarrow> keypair list \<Rightarrow> transaction option" where
  "tx_sign sign tx kps =
     (let m = tx_message tx in
      map_option (\<lambda>sigs. tx\<lparr>tx_signatures := sigs\<rparr>)
        (sign_loop sign (serialize_for_signing m) (unat (num_required_signatures (msg_header m)))
           (msg_account_keys m) (tx_signatures tx) kps))"

section \<open>Message compilation\<close>

text \<open>
  The first walk fills two maps from keys to writability. The rest of the function does not read
  them.
\<close>

definition account_properties ::
    "instruction list \<Rightarrow> pubkey option \<Rightarrow> (pubkey \<rightharpoonup> bool) \<times> (pubkey \<rightharpoonup> bool)" where
  "account_properties ixs payer =
     (let signer_set = (case payer of Some p \<Rightarrow> [p \<mapsto> True] | None \<Rightarrow> Map.empty);
          visit_meta = (\<lambda>m (ss, us).
            let or_insert = (\<lambda>f. f(am_pubkey m \<mapsto>
                  am_is_writable m \<or> (case f (am_pubkey m) of Some w \<Rightarrow> w | None \<Rightarrow> False)))
            in if am_is_signer m then (or_insert ss, us)
               else if am_pubkey m \<in> dom ss then (ss, us)
               else (ss, or_insert us))
      in fold (\<lambda>ix (ss, us). fold visit_meta (ix_accounts ix) (ss, us(ix_program_id ix \<mapsto> False)))
           ixs (signer_set, Map.empty))"

definition push_unless :: "bool \<Rightarrow> 'a \<Rightarrow> 'a list \<Rightarrow> 'a list" where
  "push_unless already pk xs = (if already then xs else xs @ [pk])"

definition collect_writable_signers :: "instruction list \<Rightarrow> pubkey option \<Rightarrow> pubkey list" where
  "collect_writable_signers ixs payer =
     fold (\<lambda>ix. fold (\<lambda>m ws.
         if am_is_signer m \<and> am_is_writable m then push_unless (am_pubkey m \<in> set ws) (am_pubkey m) ws else ws)
       (ix_accounts ix)) ixs (case payer of Some p \<Rightarrow> [p] | None \<Rightarrow> [])"

definition collect_readonly_signers :: "instruction list \<Rightarrow> pubkey list \<Rightarrow> pubkey list" where
  "collect_readonly_signers ixs ws =
     fold (\<lambda>ix. fold (\<lambda>m rs.
         if am_is_signer m \<and> \<not> am_is_writable m
         then push_unless (am_pubkey m \<in> set ws \<or> am_pubkey m \<in> set rs) (am_pubkey m) rs else rs)
       (ix_accounts ix)) ixs []"

text \<open>The third loop fills the writable unsigned keys and puts program ids into the read-only ones.\<close>

definition visit_writable_unsigned ::
    "pubkey list \<Rightarrow> pubkey list \<Rightarrow> account_meta \<Rightarrow> pubkey list \<Rightarrow> pubkey list" where
  "visit_writable_unsigned ws rs m wu =
     (if \<not> am_is_signer m \<and> am_is_writable m
      then push_unless (am_pubkey m \<in> set ws \<or> am_pubkey m \<in> set rs \<or> am_pubkey m \<in> set wu) (am_pubkey m) wu
      else wu)"

definition visit_third ::
    "pubkey list \<Rightarrow> pubkey list \<Rightarrow> instruction \<Rightarrow> pubkey list \<times> pubkey list \<Rightarrow> pubkey list \<times> pubkey list" where
  "visit_third ws rs ix = (\<lambda>(wu, ru).
     let wu' = fold (visit_writable_unsigned ws rs) (ix_accounts ix) wu;
         pk = ix_program_id ix
     in (wu', push_unless (pk \<in> set ws \<or> pk \<in> set rs \<or> pk \<in> set wu' \<or> pk \<in> set ru) pk ru))"

definition collect_unsigned ::
    "instruction list \<Rightarrow> pubkey list \<Rightarrow> pubkey list \<Rightarrow> pubkey list \<times> pubkey list" where
  "collect_unsigned ixs ws rs = fold (visit_third ws rs) ixs ([], [])"

definition collect_readonly_unsigned ::
    "instruction list \<Rightarrow> pubkey list \<Rightarrow> pubkey list \<Rightarrow> pubkey list \<Rightarrow> pubkey list \<Rightarrow> pubkey list" where
  "collect_readonly_unsigned ixs ws rs wu ru =
     fold (\<lambda>ix. fold (\<lambda>m ru.
         if \<not> am_is_signer m \<and> \<not> am_is_writable m
         then push_unless (am_pubkey m \<in> set ws \<or> am_pubkey m \<in> set rs \<or> am_pubkey m \<in> set wu \<or>
                           am_pubkey m \<in> set ru) (am_pubkey m) ru else ru)
       (ix_accounts ix)) ixs ru"

text \<open>A later entry of the same key replaces an earlier one when the map is collected.\<close>

definition key_index :: "pubkey list \<Rightarrow> pubkey \<Rightarrow> byte option" where
  "key_index keys = map_of (rev (zip keys (map word_of_nat [0..<length keys])))"

definition compile_instruction :: "(pubkey \<Rightarrow> byte option) \<Rightarrow> instruction \<Rightarrow> compiled_instruction option" where
  "compile_instruction index ix =
     (case index (ix_program_id ix) of
        None \<Rightarrow> None
      | Some pid \<Rightarrow>
          map_option (\<lambda>accounts. \<lparr>ci_program_id_index = pid, ci_accounts = accounts, ci_data = ix_data ix\<rparr>)
            (those (map (\<lambda>m. index (am_pubkey m)) (ix_accounts ix))))"

definition compile_message :: "instruction list \<Rightarrow> pubkey option \<Rightarrow> sol_hash \<Rightarrow> message option" where
  "compile_message ixs payer recent_blockhash =
     (let properties = account_properties ixs payer;
          ws = collect_writable_signers ixs payer;
          rs = collect_readonly_signers ixs ws;
          (wu, ru0) = collect_unsigned ixs ws rs;
          ru = collect_readonly_unsigned ixs ws rs wu ru0;
          account_keys = ws @ rs @ wu @ ru
      in map_option (\<lambda>compiled.
           \<lparr>msg_header = \<lparr>num_required_signatures = word_of_nat (length ws + length rs),
                          num_readonly_signed_accounts = word_of_nat (length rs),
                          num_readonly_unsigned_accounts = word_of_nat (length ru)\<rparr>,
            msg_account_keys = account_keys, msg_recent_blockhash = recent_blockhash,
            msg_instructions = compiled\<rparr>)
         (those (map (compile_instruction (key_index account_keys)) ixs)))"

definition new_signed_with_payer ::
    "sign_fn \<Rightarrow> instruction list \<Rightarrow> pubkey option \<Rightarrow> keypair list \<Rightarrow> sol_hash \<Rightarrow> transaction option" where
  "new_signed_with_payer sign ixs payer signers recent_blockhash =
     (case compile_message ixs payer recent_blockhash of
        None \<Rightarrow> None
      | Some m \<Rightarrow> tx_sign sign (new_unsigned m) signers)"


section \<open>Lemmas: the wire format\<close>

text \<open>\<open>at_pos bs pos rest\<close>: the reader stands at \<open>pos\<close> and \<open>rest\<close> is what it has left.\<close>

definition at_pos :: "bytes \<Rightarrow> usize \<Rightarrow> bytes \<Rightarrow> bool" where
  "at_pos bs pos rest = (pos \<le> length bs \<and> drop pos bs = rest)"

definition enc_len :: "'a list \<Rightarrow> bytes" where
  "enc_len xs = encode_compact_u16 (word_of_nat (length xs)) []"

lemma at_pos_append:
  assumes "at_pos bs pos (x @ rest)"
  shows "at_pos bs (pos + length x) rest" and "slice bs pos (pos + length x) = x"
    and "pos + length x \<le> length bs"
proof -
  from assms have d: "drop pos bs = x @ rest" and le: "pos \<le> length bs"
    by (auto simp: at_pos_def)
  have "drop (length x) (drop pos bs) = rest" by (simp add: d)
  moreover have "length (drop pos bs) = length x + length rest" by (simp add: d)
  then show l: "pos + length x \<le> length bs" using le by simp
  ultimately show "at_pos bs (pos + length x) rest"
    by (simp add: at_pos_def add.commute)
  show "slice bs pos (pos + length x) = x" by (simp add: slice_def d)
qed

lemma at_pos_Cons:
  assumes "at_pos bs pos (b # rest)"
  shows "at_pos bs (Suc pos) rest" and "bs ! pos = b" and "pos < length bs"
proof -
  from assms have d: "drop pos bs = b # rest" and le: "pos \<le> length bs"
    by (auto simp: at_pos_def)
  show l: "pos < length bs" using d le by (cases "pos = length bs") auto
  show "bs ! pos = b" using d l by (metis Cons_nth_drop_Suc list.inject)
  show "at_pos bs (Suc pos) rest"
    using d l by (metis Cons_nth_drop_Suc Suc_leI at_pos_def list.inject)
qed

lemma fold_append: "fold (\<lambda>x out. out @ f x) xs out = out @ concat (map f xs)"
  by (induction xs arbitrary: out) auto

lemma write_instruction_bytes:
  "write_instruction ix out =
     out @ ci_program_id_index ix # enc_len (ci_accounts ix) @ ci_accounts ix @ enc_len (ci_data ix) @ ci_data ix"
  unfolding write_instruction_def Let_def
  by (subst encode_compact_u16_append, subst encode_compact_u16_append) (simp add: enc_len_def)

lemma write_wire_bytes:
  "write_wire m out = out @
     num_required_signatures (msg_header m) # num_readonly_signed_accounts (msg_header m) #
     num_readonly_unsigned_accounts (msg_header m) #
     enc_len (msg_account_keys m) @ concat (map pubkey_bytes (msg_account_keys m)) @
     sol_hash_bytes (msg_recent_blockhash m) @
     enc_len (msg_instructions m) @ concat (map (\<lambda>ix. write_instruction ix []) (msg_instructions m))"
proof -
  have fold_wi: "fold write_instruction xs out = out @ concat (map (\<lambda>ix. write_instruction ix []) xs)" for xs out
    by (induction xs arbitrary: out) (simp_all add: write_instruction_bytes)
  show ?thesis
    unfolding write_wire_def Let_def fold_wi fold_append
    by (simp add: enc_len_def encode_compact_u16_append [where out = "_ @ _"])
qed

lemma tx_serialize_bytes:
  "tx_serialize tx = enc_len (tx_signatures tx) @ concat (map signature_bytes (tx_signatures tx)) @
     write_wire (tx_message tx) []"
  unfolding tx_serialize_def Let_def fold_append by (simp add: enc_len_def write_wire_bytes)

lemma read_compact_at:
  assumes "at_pos bs pos (enc_len xs @ rest)" "length xs < 65536"
  shows "\<exists>p. read_compact bs pos = Ok (length xs, p) \<and> at_pos bs p rest"
proof -
  have "unat (word_of_nat (length xs) :: u16) = length xs"
    using assms(2) by (simp add: unat_of_nat)
  then have "read_compact bs pos = Ok (length xs, pos + length (enc_len xs))"
    using assms(1) decode_encode_compact_u16 [of "word_of_nat (length xs)" rest]
    by (simp add: read_compact_def at_pos_def enc_len_def)
  with at_pos_append(1) [OF assms(1)] show ?thesis by blast
qed

lemma read_arrays_at:
  assumes "at_pos bs pos (concat xs @ rest)" "\<forall>x \<in> set xs. length x = w"
  shows "\<exists>p. read_arrays w bs (length xs) pos = Ok (xs, p) \<and> at_pos bs p rest"
  using assms
proof (induction xs arbitrary: pos)
  case (Cons x xs)
  then have a: "at_pos bs pos (x @ concat xs @ rest)" and w: "length x = w" by simp_all
  note step = at_pos_append [OF a]
  from Cons.IH [OF step(1)] Cons.prems(2) obtain p
    where "read_arrays w bs (length xs) (pos + length x) = Ok (xs, p)" "at_pos bs p rest" by auto
  with step w show ?case by auto
qed simp

lemma read_bytes_at:
  assumes "at_pos bs pos (enc_len x @ x @ rest)" "length x < 65536"
  shows "\<exists>p. read_bytes bs pos = Ok (x, p) \<and> at_pos bs p rest"
proof -
  from read_compact_at [OF assms] obtain p where
    p: "read_compact bs pos = Ok (length x, p)" "at_pos bs p (x @ rest)" by auto
  from at_pos_append [OF p(2)] p(1) show ?thesis by (simp add: read_bytes_def)
qed

definition wf_compiled :: "compiled_instruction \<Rightarrow> bool" where
  "wf_compiled ix = (length (ci_accounts ix) < 65536 \<and> length (ci_data ix) < 65536)"

definition wf_message :: "message \<Rightarrow> bool" where
  "wf_message m =
     (length (msg_account_keys m) < 65536 \<and> list_all wf_pubkey (msg_account_keys m) \<and>
      wf_sol_hash (msg_recent_blockhash m) \<and>
      length (msg_instructions m) < 65536 \<and> list_all wf_compiled (msg_instructions m))"

definition wf_transaction :: "transaction \<Rightarrow> bool" where
  "wf_transaction tx =
     (length (tx_signatures tx) < 65536 \<and> list_all wf_signature (tx_signatures tx) \<and> wf_message (tx_message tx))"

lemma read_instruction_at:
  assumes "at_pos bs pos (write_instruction ix [] @ rest)" "wf_compiled ix"
  shows "\<exists>p. read_instruction bs pos = Ok (ix, p) \<and> at_pos bs p rest"
proof -
  note c = at_pos_Cons [OF assms(1) [unfolded write_instruction_bytes, simplified]]
  from read_bytes_at [OF c(1)] assms(2) obtain p1 where
    p1: "read_bytes bs (Suc pos) = Ok (ci_accounts ix, p1)" "at_pos bs p1 (enc_len (ci_data ix) @ ci_data ix @ rest)"
    by (auto simp: wf_compiled_def)
  from read_bytes_at [OF p1(2)] assms(2) obtain p2 where
    "read_bytes bs p1 = Ok (ci_data ix, p2)" "at_pos bs p2 rest"
    by (auto simp: wf_compiled_def)
  with c p1 show ?thesis by (auto simp: read_instruction_def)
qed

lemma read_instructions_at:
  assumes "at_pos bs pos (concat (map (\<lambda>ix. write_instruction ix []) ixs) @ rest)" "list_all wf_compiled ixs"
  shows "\<exists>p. read_instructions bs (length ixs) pos = Ok (ixs, p) \<and> at_pos bs p rest"
  using assms
proof (induction ixs arbitrary: pos)
  case (Cons ix ixs)
  then obtain p where p: "read_instruction bs pos = Ok (ix, p)"
      "at_pos bs p (concat (map (\<lambda>ix. write_instruction ix []) ixs) @ rest)"
    using read_instruction_at [of bs pos ix "concat (map (\<lambda>ix. write_instruction ix []) ixs) @ rest"] by auto
  from Cons.IH [OF p(2)] Cons.prems p(1) show ?case by auto
qed simp

lemma tx_from_bytes_serialize:
  assumes "wf_transaction tx"
  shows "tx_from_bytes (tx_serialize tx @ rest) = Ok tx"
proof -
  let ?bs = "tx_serialize tx @ rest" and ?m = "tx_message tx"
  let ?sigs = "tx_signatures tx" and ?keys = "msg_account_keys ?m" and ?ixs = "msg_instructions ?m"
  let ?h = "msg_header ?m"
  note wf = assms [unfolded wf_transaction_def wf_message_def wf_sol_hash_def]
  have start: "at_pos ?bs 0 (enc_len ?sigs @ concat (map signature_bytes ?sigs) @ write_wire ?m [] @ rest)"
    by (simp add: at_pos_def tx_serialize_bytes)
  from read_compact_at [OF start] wf obtain p1 where
    p1: "read_compact ?bs 0 = Ok (length ?sigs, p1)"
      "at_pos ?bs p1 (concat (map signature_bytes ?sigs) @ write_wire ?m [] @ rest)" by auto
  from read_arrays_at [OF p1(2), of 64] wf obtain p2 where
    p2: "read_arrays 64 ?bs (length ?sigs) p1 = Ok (map signature_bytes ?sigs, p2)"
      "at_pos ?bs p2 (write_wire ?m [] @ rest)"
    by (auto simp: list_all_iff wf_signature_def)
  note h1 = at_pos_Cons [OF p2(2) [unfolded write_wire_bytes, simplified]]
  note h2 = at_pos_Cons [OF h1(1)]
  note h3 = at_pos_Cons [OF h2(1)]
  from read_compact_at [OF h3(1)] wf obtain p3 where
    p3: "read_compact ?bs (p2 + 3) = Ok (length ?keys, p3)"
      "at_pos ?bs p3 (concat (map pubkey_bytes ?keys) @ sol_hash_bytes (msg_recent_blockhash ?m) @
         enc_len ?ixs @ concat (map (\<lambda>ix. write_instruction ix []) ?ixs) @ rest)"
    by (auto simp: numeral_3_eq_3)
  from read_arrays_at [OF p3(2), of 32] wf obtain p4 where
    p4: "read_arrays 32 ?bs (length ?keys) p3 = Ok (map pubkey_bytes ?keys, p4)"
      "at_pos ?bs p4 (sol_hash_bytes (msg_recent_blockhash ?m) @
         enc_len ?ixs @ concat (map (\<lambda>ix. write_instruction ix []) ?ixs) @ rest)"
    by (auto simp: list_all_iff wf_pubkey_def)
  note bh = at_pos_append [OF p4(2)]
  from read_compact_at [OF bh(1)] wf obtain p5 where
    p5: "read_compact ?bs (p4 + 32) = Ok (length ?ixs, p5)"
      "at_pos ?bs p5 (concat (map (\<lambda>ix. write_instruction ix []) ?ixs) @ rest)" by auto
  from read_instructions_at [OF p5(2)] wf obtain p6 where
    p6: "read_instructions ?bs (length ?ixs) p5 = Ok (?ixs, p6)" by auto
  have "p2 + 3 \<le> length ?bs" using h3(3) by simp
  then show ?thesis
    using p1(1) p2(1) p3(1) p4(1) p5(1) p6 h1(2) h2(2) h3(2) bh(2,3) wf
    by (simp add: tx_from_bytes_def numeral_2_eq_2 comp_def)
qed


lemma read_arrays_lengths:
  "read_arrays w bs count pos = Ok (xs, p) \<Longrightarrow> length xs = count \<and> (\<forall>x \<in> set xs. length x = w)"
  by (induction count arbitrary: pos xs) (auto simp: and_then_eq_Inr split: if_splits)

lemma read_compact_lt: "read_compact bs pos = Ok (n, p) \<Longrightarrow> n < 65536"
  using unsigned_less [where 'a = nat and 'b = 16] by (fastforce simp: read_compact_def and_then_eq_Inr)

lemma read_bytes_lt: "read_bytes bs pos = Ok (x, p) \<Longrightarrow> length x < 65536"
  by (auto simp: read_bytes_def and_then_eq_Inr split: if_splits dest!: read_compact_lt)

lemma read_instruction_wf: "read_instruction bs pos = Ok (ix, p) \<Longrightarrow> wf_compiled ix"
  by (auto simp: read_instruction_def and_then_eq_Inr wf_compiled_def split: if_splits dest!: read_bytes_lt)

lemma read_instructions_wf:
  "read_instructions bs count pos = Ok (ixs, p) \<Longrightarrow> length ixs = count \<and> list_all wf_compiled ixs"
  by (induction count arbitrary: pos ixs) (fastforce simp: and_then_eq_Inr dest: read_instruction_wf)+

lemma tx_from_bytes_wf:
  assumes "tx_from_bytes bs = Ok tx"
  shows "wf_transaction tx"
  using assms
  by (auto simp: tx_from_bytes_def and_then_eq_Inr Let_def wf_transaction_def wf_message_def
      list_all_iff wf_signature_def wf_pubkey_def wf_sol_hash_def
      split: if_splits dest!: read_compact_lt read_arrays_lengths read_instructions_wf)

section \<open>Lemmas: message compilation\<close>

definition metas :: "instruction list \<Rightarrow> account_meta list" where
  "metas ixs = concat (map ix_accounts ixs)"

definition meta_keys :: "(account_meta \<Rightarrow> bool) \<Rightarrow> instruction list \<Rightarrow> pubkey set" where
  "meta_keys P ixs = am_pubkey ` {m \<in> set (metas ixs). P m}"

definition writable_signer_keys :: "instruction list \<Rightarrow> pubkey option \<Rightarrow> pubkey set" where
  "writable_signer_keys ixs payer = set_option payer \<union> meta_keys (\<lambda>m. am_is_signer m \<and> am_is_writable m) ixs"

definition signer_keys :: "instruction list \<Rightarrow> pubkey option \<Rightarrow> pubkey set" where
  "signer_keys ixs payer = set_option payer \<union> meta_keys am_is_signer ixs"

definition writable_unsigned_keys :: "instruction list \<Rightarrow> pubkey set" where
  "writable_unsigned_keys ixs = meta_keys (\<lambda>m. \<not> am_is_signer m \<and> am_is_writable m) ixs"

definition referenced_keys :: "instruction list \<Rightarrow> pubkey option \<Rightarrow> pubkey set" where
  "referenced_keys ixs payer =
     set_option payer \<union> meta_keys (\<lambda>_. True) ixs \<union> ix_program_id ` set ixs"

text \<open>All four walks push new keys in first-seen order; \<open>S\<close> is what they skip besides their own list.\<close>

definition push_new :: "('b \<Rightarrow> bool) \<Rightarrow> ('b \<Rightarrow> 'a) \<Rightarrow> 'a set \<Rightarrow> 'b \<Rightarrow> 'a list \<Rightarrow> 'a list" where
  "push_new P g S m xs = (if P m then push_unless (g m \<in> S \<or> g m \<in> set xs) (g m) xs else xs)"

lemma fold_push_new:
  "set (fold (push_new P g S) ms xs) = set xs \<union> (g ` {m \<in> set ms. P m} - S) \<and>
   (distinct xs \<longrightarrow> distinct (fold (push_new P g S) ms xs)) \<and>
   (\<exists>ys. fold (push_new P g S) ms xs = xs @ ys)"
proof (induction ms arbitrary: xs)
  case (Cons m ms)
  note IH = Cons.IH [of "push_new P g S m xs"]
  have set: "set (push_new P g S m xs) = set xs \<union> (if P m then {g m} - S else {})"
    and dist: "distinct xs \<longrightarrow> distinct (push_new P g S m xs)"
    and pre: "\<exists>ys. push_new P g S m xs = xs @ ys"
    by (auto simp: push_new_def push_unless_def)
  have "set (fold (push_new P g S) (m # ms) xs) = set xs \<union> (g ` {m' \<in> set (m # ms). P m'} - S)"
    using IH set by (auto split: if_splits)
  with IH dist pre show ?case by auto
qed simp

lemma fold_nested: "fold (\<lambda>ix. fold f (g ix)) ixs s = fold f (concat (map g ixs)) s"
  by (induction ixs arbitrary: s) (simp_all add: fold_append)

lemma collect_writable_signers_push:
  "collect_writable_signers ixs payer =
     fold (push_new (\<lambda>m. am_is_signer m \<and> am_is_writable m) am_pubkey {}) (metas ixs)
       (case payer of Some p \<Rightarrow> [p] | None \<Rightarrow> [])"
  unfolding collect_writable_signers_def fold_nested metas_def
  by (intro arg_cong [where f = "\<lambda>f. fold f _ _"] ext) (simp add: push_new_def)

lemma collect_readonly_signers_push:
  "collect_readonly_signers ixs ws =
     fold (push_new (\<lambda>m. am_is_signer m \<and> \<not> am_is_writable m) am_pubkey (set ws)) (metas ixs) []"
  unfolding collect_readonly_signers_def fold_nested metas_def
  by (intro arg_cong [where f = "\<lambda>f. fold f _ _"] ext) (simp add: push_new_def)

lemma visit_writable_unsigned_push:
  "visit_writable_unsigned ws rs =
     push_new (\<lambda>m. \<not> am_is_signer m \<and> am_is_writable m) am_pubkey (set ws \<union> set rs)"
  by (intro ext) (simp add: push_new_def visit_writable_unsigned_def disj_assoc)

lemma collect_readonly_unsigned_push:
  "collect_readonly_unsigned ixs ws rs wu ru =
     fold (push_new (\<lambda>m. \<not> am_is_signer m \<and> \<not> am_is_writable m) am_pubkey (set ws \<union> set rs \<union> set wu)) (metas ixs) ru"
  unfolding collect_readonly_unsigned_def fold_nested metas_def
  by (intro arg_cong [where f = "\<lambda>f. fold f _ _"] ext) (simp add: push_new_def disj_assoc)


text \<open>The third walk: the invariant of both lists over the instructions visited.\<close>

lemma collect_unsigned_facts:
  assumes "collect_unsigned ixs ws rs = (wu, ru)"
  shows "set wu = writable_unsigned_keys ixs - (set ws \<union> set rs) \<and> distinct wu \<and> distinct ru \<and>
    set ru \<subseteq> ix_program_id ` set ixs - (set ws \<union> set rs) \<and>
    ix_program_id ` set ixs \<subseteq> set ws \<union> set rs \<union> set wu \<union> set ru"
  using assms
proof (induction ixs arbitrary: wu ru rule: rev_induct)
  case Nil
  then show ?case by (auto simp: collect_unsigned_def writable_unsigned_keys_def meta_keys_def metas_def)
next
  case (snoc ix ixs)
  obtain wu0 ru0 where prev: "collect_unsigned ixs ws rs = (wu0, ru0)" by fastforce
  note IH = snoc.IH [OF prev]
  have wu: "wu = fold (visit_writable_unsigned ws rs) (ix_accounts ix) wu0"
    and ru: "ru = push_unless (ix_program_id ix \<in> set ws \<or> ix_program_id ix \<in> set rs \<or>
        ix_program_id ix \<in> set wu \<or> ix_program_id ix \<in> set ru0) (ix_program_id ix) ru0"
    using snoc.prems prev by (auto simp: collect_unsigned_def visit_third_def Let_def)
  have keys: "writable_unsigned_keys (ixs @ [ix]) = writable_unsigned_keys ixs \<union>
      am_pubkey ` {m \<in> set (ix_accounts ix). \<not> am_is_signer m \<and> am_is_writable m}"
    by (auto simp: writable_unsigned_keys_def meta_keys_def metas_def)
  note push = fold_push_new [of "\<lambda>m. \<not> am_is_signer m \<and> am_is_writable m" am_pubkey
      "set ws \<union> set rs" "ix_accounts ix" wu0, folded visit_writable_unsigned_push, folded wu]
  have "set wu = writable_unsigned_keys (ixs @ [ix]) - (set ws \<union> set rs)"
    using push IH unfolding keys by auto
  moreover have "distinct wu" using push IH by blast
  moreover have "distinct ru" "set ru \<subseteq> ix_program_id ` set (ixs @ [ix]) - (set ws \<union> set rs)"
    using IH unfolding ru push_unless_def by auto
  moreover have "set wu0 \<subseteq> set wu" using push by auto
  then have "ix_program_id ` set ixs \<subseteq> set ws \<union> set rs \<union> set wu \<union> set ru0" using IH by blast
  then have "ix_program_id ` set (ixs @ [ix]) \<subseteq> set ws \<union> set rs \<union> set wu \<union> set ru"
    unfolding ru push_unless_def by simp blast
  ultimately show ?case by simp
qed

lemma key_index_resolves:
  assumes "k \<in> set keys" "length keys \<le> 256"
  shows "\<exists>v. key_index keys k = Some v \<and> unat v < length keys \<and> keys ! unat v = k"
proof -
  let ?al = "rev (zip keys (map word_of_nat [0..<length keys])) :: (pubkey \<times> byte) list"
  have "k \<in> fst ` set ?al" using assms(1) by (auto simp: set_zip in_set_conv_nth image_iff)
  then obtain v where v: "map_of ?al k = Some v"
    by (metis domD dom_map_of_conv_image_fst)
  then have "(k, v) \<in> set ?al" by (rule map_of_SomeD)
  then obtain i where i: "i < length keys" "keys ! i = k" "v = word_of_nat i"
    by (auto simp: set_zip)
  then have "unat v = i" using assms(2) by (simp add: unat_of_nat)
  with v i show ?thesis by (auto simp: key_index_def)
qed

lemma key_index_defined: "k \<in> set keys \<Longrightarrow> \<exists>v. key_index keys k = Some v"
proof -
  let ?al = "rev (zip keys (map word_of_nat [0..<length keys])) :: (pubkey \<times> byte) list"
  assume "k \<in> set keys"
  then have "k \<in> fst ` set ?al" by (auto simp: set_zip in_set_conv_nth image_iff)
  then show ?thesis
    unfolding key_index_def by (metis domD dom_map_of_conv_image_fst)
qed

lemma those_map_Some:
  "\<forall>x \<in> set xs. f x \<noteq> None \<Longrightarrow> those (map f xs) = Some (map (the \<circ> f) xs)"
  by (induction xs) auto

definition resolve :: "pubkey list \<Rightarrow> compiled_instruction \<Rightarrow> pubkey \<times> pubkey list \<times> bytes" where
  "resolve keys ci =
     (keys ! unat (ci_program_id_index ci), map (\<lambda>a. keys ! unat a) (ci_accounts ci), ci_data ci)"

lemma compile_instruction_resolves:
  assumes "ix_program_id ix \<in> set keys" "am_pubkey ` set (ix_accounts ix) \<subseteq> set keys"
  shows "\<exists>ci. compile_instruction (key_index keys) ix = Some ci \<and>
    (length keys \<le> 256 \<longrightarrow>
       resolve keys ci = (ix_program_id ix, map am_pubkey (ix_accounts ix), ix_data ix))"
proof -
  obtain pid where pid: "key_index keys (ix_program_id ix) = Some pid"
    using key_index_defined [OF assms(1)] by blast
  have acc: "those (map (\<lambda>m. key_index keys (am_pubkey m)) (ix_accounts ix)) =
      Some (map (the \<circ> (\<lambda>m. key_index keys (am_pubkey m))) (ix_accounts ix))"
    using assms(2) key_index_defined [of _ keys] by (intro those_map_Some) fastforce
  have "keys ! unat (the (key_index keys k)) = k" if "length keys \<le> 256" "k \<in> set keys" for k
    using key_index_resolves [OF that(2,1)] by auto
  with pid acc assms show ?thesis
    by (auto simp: compile_instruction_def resolve_def) (metis option.sel)
qed


lemma meta_keys_split:
  "meta_keys P ixs = meta_keys (\<lambda>m. P m \<and> Q m) ixs \<union> meta_keys (\<lambda>m. P m \<and> \<not> Q m) ixs"
  by (auto simp: meta_keys_def)

text \<open>What the four groups of keys hold.\<close>

lemma collected_groups:
  assumes ws: "ws = collect_writable_signers ixs payer"
    and rs: "rs = collect_readonly_signers ixs ws"
    and un: "collect_unsigned ixs ws rs = (wu, ru0)"
    and ru: "ru = collect_readonly_unsigned ixs ws rs wu ru0"
  shows "set ws = writable_signer_keys ixs payer" "distinct (ws @ rs)" "distinct wu" "distinct ru"
    "set ws \<union> set rs = signer_keys ixs payer"
    "set wu = writable_unsigned_keys ixs - signer_keys ixs payer"
    "set ru \<inter> (set ws \<union> set rs) = {}"
    "set ws \<union> set rs \<union> set wu \<union> set ru = referenced_keys ixs payer"
    "payer = Some p \<Longrightarrow> \<exists>rest. ws = p # rest"
    "set ru \<inter> set wu \<subseteq> ix_program_id ` set ixs"
proof -
  let ?init = "case payer of Some p \<Rightarrow> [p] | None \<Rightarrow> []"
  have init: "set ?init = set_option payer" "distinct ?init" by (cases payer; simp)+
  note pws = fold_push_new [of "\<lambda>m. am_is_signer m \<and> am_is_writable m" am_pubkey "{}" "metas ixs" ?init,
      folded collect_writable_signers_push, folded ws]
  note prs = fold_push_new [of "\<lambda>m. am_is_signer m \<and> \<not> am_is_writable m" am_pubkey "set ws" "metas ixs" "[]",
      folded collect_readonly_signers_push, folded rs]
  note pru = fold_push_new [of "\<lambda>m. \<not> am_is_signer m \<and> \<not> am_is_writable m" am_pubkey
      "set ws \<union> set rs \<union> set wu" "metas ixs" ru0, folded collect_readonly_unsigned_push, folded ru]
  note pun = collect_unsigned_facts [OF un]
  show w: "set ws = writable_signer_keys ixs payer"
    using pws init by (auto simp: writable_signer_keys_def meta_keys_def)
  show "distinct (ws @ rs)" using pws prs init by auto
  show "distinct wu" using pun by blast
  show "distinct ru" using pru pun by blast
  have r: "set rs = meta_keys (\<lambda>m. am_is_signer m \<and> \<not> am_is_writable m) ixs - set ws"
    using prs by (auto simp: meta_keys_def)
  show s: "set ws \<union> set rs = signer_keys ixs payer"
    using w r meta_keys_split [of am_is_signer ixs am_is_writable]
    by (auto simp: writable_signer_keys_def signer_keys_def)
  show u: "set wu = writable_unsigned_keys ixs - signer_keys ixs payer"
    using pun s by blast
  have o: "set ru = set ru0 \<union> (meta_keys (\<lambda>m. \<not> am_is_signer m \<and> \<not> am_is_writable m) ixs -
      (set ws \<union> set rs \<union> set wu))"
    using pru by (auto simp: meta_keys_def)
  show "set ru \<inter> (set ws \<union> set rs) = {}" using o pun by blast
  show "set ru \<inter> set wu \<subseteq> ix_program_id ` set ixs" using o pun by blast
  have all: "meta_keys (\<lambda>_. True) ixs = meta_keys am_is_signer ixs \<union> writable_unsigned_keys ixs \<union>
      meta_keys (\<lambda>m. \<not> am_is_signer m \<and> \<not> am_is_writable m) ixs"
    by (auto simp: meta_keys_def writable_unsigned_keys_def)
  have "ix_program_id ` set ixs \<subseteq> set ws \<union> set rs \<union> set wu \<union> set ru"
    using pun o by blast
  moreover have "set ru0 \<subseteq> ix_program_id ` set ixs" using pun by blast
  ultimately show "set ws \<union> set rs \<union> set wu \<union> set ru = referenced_keys ixs payer"
    unfolding referenced_keys_def all using s u o by (auto simp: signer_keys_def)
  show "\<exists>rest. ws = p # rest" if "payer = Some p" using pws that by auto
qed

text \<open>Compilation never panics, and the message is the four groups in order.\<close>

lemma compile_message_shape:
  obtains ws rs wu ru m where
    "compile_message ixs payer h = Some m"
    "msg_account_keys m = ws @ rs @ wu @ ru" "msg_recent_blockhash m = h"
    "msg_header m = \<lparr>num_required_signatures = word_of_nat (length ws + length rs),
       num_readonly_signed_accounts = word_of_nat (length rs),
       num_readonly_unsigned_accounts = word_of_nat (length ru)\<rparr>"
    "length (ws @ rs @ wu @ ru) \<le> 256 \<longrightarrow> map (resolve (ws @ rs @ wu @ ru)) (msg_instructions m) =
       map (\<lambda>ix. (ix_program_id ix, map am_pubkey (ix_accounts ix), ix_data ix)) ixs"
    "set ws = writable_signer_keys ixs payer" "distinct (ws @ rs)" "distinct wu" "distinct ru"
    "set ws \<union> set rs = signer_keys ixs payer"
    "set wu = writable_unsigned_keys ixs - signer_keys ixs payer"
    "set ru \<inter> (set ws \<union> set rs) = {}"
    "set ws \<union> set rs \<union> set wu \<union> set ru = referenced_keys ixs payer"
    "\<forall>p. payer = Some p \<longrightarrow> (\<exists>rest. ws = p # rest)"
    "set ru \<inter> set wu \<subseteq> ix_program_id ` set ixs"
proof -
  define ws where "ws = collect_writable_signers ixs payer"
  define rs where "rs = collect_readonly_signers ixs ws"
  obtain wu ru0 where un: "collect_unsigned ixs ws rs = (wu, ru0)" by fastforce
  define ru where "ru = collect_readonly_unsigned ixs ws rs wu ru0"
  note groups = collected_groups [OF ws_def rs_def un ru_def]
  let ?keys = "ws @ rs @ wu @ ru"
  have keys: "set ?keys = referenced_keys ixs payer" using groups(8) by auto
  have "ix_program_id ix \<in> set ?keys \<and> am_pubkey ` set (ix_accounts ix) \<subseteq> set ?keys" if "ix \<in> set ixs" for ix
    unfolding keys using that by (auto simp: referenced_keys_def meta_keys_def metas_def)
  then have ci: "\<exists>ci. compile_instruction (key_index ?keys) ix = Some ci \<and> (length ?keys \<le> 256 \<longrightarrow>
       resolve ?keys ci = (ix_program_id ix, map am_pubkey (ix_accounts ix), ix_data ix))" if "ix \<in> set ixs" for ix
    using compile_instruction_resolves [of ix ?keys] that by blast
  have some: "those (map (compile_instruction (key_index ?keys)) ixs) =
      Some (map (the \<circ> compile_instruction (key_index ?keys)) ixs)"
    using ci by (intro those_map_Some) fastforce
  have res: "length ?keys \<le> 256 \<longrightarrow>
      map (resolve ?keys) (map (the \<circ> compile_instruction (key_index ?keys)) ixs) =
      map (\<lambda>ix. (ix_program_id ix, map am_pubkey (ix_accounts ix), ix_data ix)) ixs"
    using ci by fastforce
  have "compile_message ixs payer h = Some
     \<lparr>msg_header = \<lparr>num_required_signatures = word_of_nat (length ws + length rs),
         num_readonly_signed_accounts = word_of_nat (length rs),
         num_readonly_unsigned_accounts = word_of_nat (length ru)\<rparr>,
      msg_account_keys = ?keys, msg_recent_blockhash = h,
      msg_instructions = map (the \<circ> compile_instruction (key_index ?keys)) ixs\<rparr>"
    unfolding compile_message_def Let_def ws_def [symmetric] rs_def [symmetric] un prod.case
      ru_def [symmetric] some by simp
  then show thesis
    using that [of _ ws rs wu ru] groups res by simp
qed


section \<open>Lemmas: signing\<close>

lemma position_Some: "position P xs = Some i \<Longrightarrow> i < length xs \<and> P (xs ! i)"
  by (induction xs arbitrary: i) (auto simp: nth_Cons split: if_splits nat.splits)

lemma position_None: "position P xs = None \<longleftrightarrow> (\<forall>x \<in> set xs. \<not> P x)"
  by (induction xs) auto

lemma sign_loop_facts:
  assumes "n \<le> length keys" "distinct (take n keys)" "length sigs = n"
  shows "\<exists>sigs'. sign_loop sign msg n keys sigs kps = Some sigs' \<and> length sigs' = n \<and>
    (\<forall>i < n. (\<exists>kp \<in> set kps. kp_pubkey kp = keys ! i \<and> sigs' ! i = sign_message sign kp msg) \<or>
       keys ! i \<notin> kp_pubkey ` set kps \<and> sigs' ! i = sigs ! i)"
  using assms(3)
proof (induction kps arbitrary: sigs)
  case (Cons kp kps)
  define sigs1 where "sigs1 = (case position (\<lambda>k. k = kp_pubkey kp) (take n keys) of
      Some idx \<Rightarrow> if idx < length sigs then sigs[idx := sign_message sign kp msg] else sigs | None \<Rightarrow> sigs)"
  have len: "length sigs1 = n" using Cons.prems by (simp add: sigs1_def split: option.split)
  have new: "sigs1 ! i = (if keys ! i = kp_pubkey kp then sign_message sign kp msg else sigs ! i)" if "i < n" for i
  proof (cases "position (\<lambda>k. k = kp_pubkey kp) (take n keys)")
    case None
    then have "keys ! i \<noteq> kp_pubkey kp"
      using that assms(1) unfolding position_None by (metis in_set_conv_nth length_take min.absorb2 nth_take)
    with None show ?thesis by (simp add: sigs1_def)
  next
    case (Some idx)
    note pos = position_Some [OF Some]
    then have idx: "idx < n" "keys ! idx = kp_pubkey kp" using assms(1) by auto
    have "keys ! i = kp_pubkey kp \<longleftrightarrow> i = idx"
      using idx that assms(1) nth_eq_iff_index_eq [OF assms(2), of i idx] by auto
    with Some idx that Cons.prems show ?thesis by (simp add: sigs1_def)
  qed
  from Cons.IH [OF len] obtain sigs' where "sign_loop sign msg n keys sigs1 kps = Some sigs'" "length sigs' = n"
    and s: "\<forall>i < n. (\<exists>kp \<in> set kps. kp_pubkey kp = keys ! i \<and> sigs' ! i = sign_message sign kp msg) \<or>
       keys ! i \<notin> kp_pubkey ` set kps \<and> sigs' ! i = sigs1 ! i" by blast
  moreover have "sign_loop sign msg n keys sigs (kp # kps) = sign_loop sign msg n keys sigs1 kps"
    using assms(1) by (simp add: sigs1_def Let_def)
  moreover have "\<forall>i < n. (\<exists>kp' \<in> set (kp # kps). kp_pubkey kp' = keys ! i \<and> sigs' ! i = sign_message sign kp' msg) \<or>
       keys ! i \<notin> kp_pubkey ` set (kp # kps) \<and> sigs' ! i = sigs ! i"
  proof (intro allI impI)
    fix i assume i: "i < n"
    from s [rule_format, OF i] new [OF i] show "(\<exists>kp' \<in> set (kp # kps). kp_pubkey kp' = keys ! i \<and> sigs' ! i = sign_message sign kp' msg) \<or>
       keys ! i \<notin> kp_pubkey ` set (kp # kps) \<and> sigs' ! i = sigs ! i"
      by (cases "keys ! i = kp_pubkey kp") auto
  qed
  ultimately show ?case by auto
qed simp

text \<open>How a validator reads the header: the writable positions of the key list.\<close>

definition writable_index :: "message \<Rightarrow> nat \<Rightarrow> bool" where
  "writable_index m i =
     (let h = msg_header m; ns = unat (num_required_signatures h) in
      i < ns - unat (num_readonly_signed_accounts h) \<or>
      ns \<le> i \<and> i < length (msg_account_keys m) - unat (num_readonly_unsigned_accounts h))"

lemma nth_set_slice: "n \<le> length xs \<Longrightarrow> {xs ! i | i. k \<le> i \<and> i < n} = set (drop k (take n xs))"
proof -
  assume n: "n \<le> length xs"
  have "x \<in> set (drop k (take n xs)) \<longleftrightarrow> (\<exists>i. k \<le> i \<and> i < n \<and> x = xs ! i)" for x
  proof
    assume "x \<in> set (drop k (take n xs))"
    then obtain j where "j < length (drop k (take n xs))" "x = drop k (take n xs) ! j"
      by (auto simp: in_set_conv_nth)
    with n show "\<exists>i. k \<le> i \<and> i < n \<and> x = xs ! i"
      by (intro exI [where x = "k + j"]) auto
  next
    assume "\<exists>i. k \<le> i \<and> i < n \<and> x = xs ! i"
    then obtain i where "k \<le> i" "i < n" "x = xs ! i" by auto
    with n have "drop k (take n xs) ! (i - k) = x" "i - k < length (drop k (take n xs))" by auto
    then show "x \<in> set (drop k (take n xs))" by (metis nth_mem)
  qed
  then show ?thesis by auto
qed

lemma nth_set_take: "n \<le> length xs \<Longrightarrow> {xs ! i | i. i < n} = set (take n xs)"
  using nth_set_slice [of n xs 0] by simp

text \<open>What the compiled message means.\<close>

lemma compile_message_facts:
  "\<exists>m. compile_message ixs payer h = Some m \<and> msg_recent_blockhash m = h \<and>
     set (msg_account_keys m) = referenced_keys ixs payer \<and>
     (\<forall>p. payer = Some p \<longrightarrow> hd (msg_account_keys m) = p) \<and>
     ((\<forall>ix \<in> set ixs. ix_program_id ix \<notin> writable_unsigned_keys ixs) \<longrightarrow> distinct (msg_account_keys m)) \<and>
     (length (msg_account_keys m) < 256 \<longrightarrow>
        map (resolve (msg_account_keys m)) (msg_instructions m) =
          map (\<lambda>ix. (ix_program_id ix, map am_pubkey (ix_accounts ix), ix_data ix)) ixs \<and>
        distinct (take (unat (num_required_signatures (msg_header m))) (msg_account_keys m)) \<and>
        set (take (unat (num_required_signatures (msg_header m))) (msg_account_keys m)) = signer_keys ixs payer \<and>
        {msg_account_keys m ! i | i. writable_index m i} =
          writable_signer_keys ixs payer \<union> (writable_unsigned_keys ixs - signer_keys ixs payer))"
proof -
  obtain ws rs wu ru m where m: "compile_message ixs payer h = Some m"
    and keys: "msg_account_keys m = ws @ rs @ wu @ ru" and bh: "msg_recent_blockhash m = h"
    and hdr: "msg_header m = \<lparr>num_required_signatures = word_of_nat (length ws + length rs),
       num_readonly_signed_accounts = word_of_nat (length rs),
       num_readonly_unsigned_accounts = word_of_nat (length ru)\<rparr>"
    and res: "length (ws @ rs @ wu @ ru) \<le> 256 \<longrightarrow> map (resolve (ws @ rs @ wu @ ru)) (msg_instructions m) =
       map (\<lambda>ix. (ix_program_id ix, map am_pubkey (ix_accounts ix), ix_data ix)) ixs"
    and ws: "set ws = writable_signer_keys ixs payer" and dist: "distinct (ws @ rs)" "distinct wu" "distinct ru"
    and sig: "set ws \<union> set rs = signer_keys ixs payer"
    and wu: "set wu = writable_unsigned_keys ixs - signer_keys ixs payer"
    and disj: "set ru \<inter> (set ws \<union> set rs) = {}"
    and all: "set ws \<union> set rs \<union> set wu \<union> set ru = referenced_keys ixs payer"
    and pay: "\<forall>p. payer = Some p \<longrightarrow> (\<exists>rest. ws = p # rest)"
    and prog: "set ru \<inter> set wu \<subseteq> ix_program_id ` set ixs"
    by (rule compile_message_shape [of ixs payer h]) (rule that; assumption)
  have "distinct (msg_account_keys m)" if "\<forall>ix \<in> set ixs. ix_program_id ix \<notin> writable_unsigned_keys ixs"
  proof -
    have "set ru \<inter> set wu = {}" using that prog wu by blast
    then show ?thesis using dist disj sig wu unfolding keys by auto
  qed
  moreover have "map (resolve (msg_account_keys m)) (msg_instructions m) =
        map (\<lambda>ix. (ix_program_id ix, map am_pubkey (ix_accounts ix), ix_data ix)) ixs \<and>
      distinct (take (unat (num_required_signatures (msg_header m))) (msg_account_keys m)) \<and>
      set (take (unat (num_required_signatures (msg_header m))) (msg_account_keys m)) = signer_keys ixs payer \<and>
      {msg_account_keys m ! i | i. writable_index m i} =
        writable_signer_keys ixs payer \<union> (writable_unsigned_keys ixs - signer_keys ixs payer)"
    if "length (msg_account_keys m) < 256"
  proof -
    let ?keys = "ws @ rs @ wu @ ru" and ?ns = "length ws + length rs"
    have len: "length ws + length rs + length wu + length ru < 256" using that keys by simp
    have counts: "unat (num_required_signatures (msg_header m)) = ?ns"
      "unat (num_readonly_signed_accounts (msg_header m)) = length rs"
      "unat (num_readonly_unsigned_accounts (msg_header m)) = length ru"
      using len unfolding hdr by (auto simp: unat_of_nat_small simp del: of_nat_add)
    have "writable_index m i \<longleftrightarrow> i < length ws \<or> ?ns \<le> i \<and> i < ?ns + length wu" for i
      unfolding writable_index_def Let_def counts keys by (simp add: add.assoc)
    then have "{?keys ! i | i. writable_index m i} =
        {?keys ! i | i. i < length ws} \<union> {?keys ! i | i. ?ns \<le> i \<and> i < ?ns + length wu}"
      by (simp only:) blast
    also have "\<dots> = set ws \<union> set wu"
      using nth_set_take [of "length ws" ?keys] nth_set_slice [of "?ns + length wu" ?keys ?ns] by simp
    finally show ?thesis using res len dist(1) sig ws wu unfolding counts keys by simp
  qed
  moreover have "\<forall>p. payer = Some p \<longrightarrow> hd (msg_account_keys m) = p" using pay keys by fastforce
  moreover have "set (msg_account_keys m) = referenced_keys ixs payer" using all keys by auto
  ultimately show ?thesis using m bh by blast
qed

lemma new_signed_facts:
  assumes "card (signer_keys ixs payer) < 256"
  shows "\<exists>tx. new_signed_with_payer sign ixs payer kps h = Some tx \<and>
    compile_message ixs payer h = Some (tx_message tx) \<and>
    length (tx_signatures tx) = card (signer_keys ixs payer) \<and>
    (\<forall>i < length (tx_signatures tx).
       (\<exists>kp \<in> set kps. kp_pubkey kp = msg_account_keys (tx_message tx) ! i \<and>
          tx_signatures tx ! i = sign_message sign kp (serialize_for_signing (tx_message tx))) \<or>
       msg_account_keys (tx_message tx) ! i \<notin> kp_pubkey ` set kps \<and> tx_signatures tx ! i = signature_zero)"
proof -
  obtain ws rs wu ru m where m: "compile_message ixs payer h = Some m"
    and keys: "msg_account_keys m = ws @ rs @ wu @ ru"
    and hdr: "num_required_signatures (msg_header m) = word_of_nat (length ws + length rs)"
    and dist: "distinct (ws @ rs)" and sig: "set ws \<union> set rs = signer_keys ixs payer"
    by (rule compile_message_shape [of ixs payer h])
       (rule that, assumption, assumption, simp only: message_header.select_convs, assumption+)
  have "length (ws @ rs) = card (signer_keys ixs payer)"
    using dist sig by (metis distinct_card set_append)
  then have n: "unat (num_required_signatures (msg_header m)) = card (signer_keys ixs payer)"
    and le: "length ws + length rs = card (signer_keys ixs payer)"
    using assms unfolding hdr by (auto simp: unat_of_nat_small simp del: of_nat_add)
  let ?sigs = "tx_signatures (new_unsigned m)" and ?n = "card (signer_keys ixs payer)"
  have zero: "\<forall>i < ?n. ?sigs ! i = signature_zero" and "length ?sigs = ?n"
    by (simp_all add: new_unsigned_def n)
  moreover have "?n \<le> length (msg_account_keys m)" "distinct (take ?n (msg_account_keys m))"
    using dist unfolding keys le [symmetric] by simp_all
  ultimately obtain sigs' where
    "sign_loop sign (serialize_for_signing m) ?n (msg_account_keys m) ?sigs kps = Some sigs'" "length sigs' = ?n"
    "\<forall>i < ?n. (\<exists>kp \<in> set kps. kp_pubkey kp = msg_account_keys m ! i \<and>
         sigs' ! i = sign_message sign kp (serialize_for_signing m)) \<or>
       msg_account_keys m ! i \<notin> kp_pubkey ` set kps \<and> sigs' ! i = ?sigs ! i"
    using sign_loop_facts [of ?n "msg_account_keys m" ?sigs sign "serialize_for_signing m" kps] by blast
  with m zero show ?thesis
    by (auto simp: new_signed_with_payer_def tx_sign_def Let_def n new_unsigned_def)
qed

text \<open>The key list is no longer than the mentions of keys.\<close>

lemma card_set_map_le: "card (f ` set xs) \<le> length xs"
  by (metis card_length list.set_map length_map)

lemma compile_message_key_count:
  assumes "compile_message ixs payer h = Some m"
  shows "length (msg_account_keys m) \<le> 1 + length (metas ixs) + 2 * length ixs"
proof -
  obtain ws rs wu ru m' where m: "compile_message ixs payer h = Some m'"
    and keys: "msg_account_keys m' = ws @ rs @ wu @ ru"
    and dist: "distinct (ws @ rs)" "distinct wu" "distinct ru"
    and sig: "set ws \<union> set rs = signer_keys ixs payer"
    and wu: "set wu = writable_unsigned_keys ixs - signer_keys ixs payer"
    and disj: "set ru \<inter> (set ws \<union> set rs) = {}"
    and all: "set ws \<union> set rs \<union> set wu \<union> set ru = referenced_keys ixs payer"
    and prog: "set ru \<inter> set wu \<subseteq> ix_program_id ` set ixs"
    by (rule compile_message_shape [of ixs payer h]) (rule that; assumption)
  let ?P = "ix_program_id ` set ixs"
  have "length (ws @ rs @ wu @ ru) = card (set (ws @ rs)) + card (set wu) + card (set ru)"
    using distinct_card [OF dist(1)] distinct_card [OF dist(2)] distinct_card [OF dist(3)] by simp
  also have "card (set ru) \<le> card (set ru - set wu) + card ?P"
  proof -
    have "card (set ru) = card (set ru - set wu) + card (set ru \<inter> set wu)"
      by (metis card_Diff_subset_Int card_mono diff_add finite_set inf_le1 finite_Int)
    moreover have "card (set ru \<inter> set wu) \<le> card ?P" using prog by (intro card_mono) auto
    ultimately show ?thesis by linarith
  qed
  also have "card (set (ws @ rs)) + card (set wu) + (card (set ru - set wu) + card ?P) =
      card (referenced_keys ixs payer) + card ?P"
  proof -
    have "set (ws @ rs) \<inter> set wu = {}" using sig wu by auto
    moreover have "(set (ws @ rs) \<union> set wu) \<inter> (set ru - set wu) = {}" using disj by auto
    ultimately have "card (set (ws @ rs) \<union> set wu \<union> (set ru - set wu)) =
        card (set (ws @ rs)) + card (set wu) + card (set ru - set wu)"
      by (simp only: card_Un_disjoint finite_set finite_Un finite_Diff)
    moreover have "set (ws @ rs) \<union> set wu \<union> (set ru - set wu) = referenced_keys ixs payer"
      using all by auto
    ultimately show ?thesis by simp
  qed
  also have "card (referenced_keys ixs payer) \<le> 1 + length (metas ixs) + card ?P"
  proof -
    have "card (set_option payer) \<le> 1" by (cases payer) simp_all
    moreover have "card (meta_keys (\<lambda>_. True) ixs) \<le> length (metas ixs)"
      using card_set_map_le [of am_pubkey "metas ixs"] by (simp add: meta_keys_def)
    ultimately show ?thesis
      unfolding referenced_keys_def
      using card_Un_le [of "set_option payer \<union> meta_keys (\<lambda>_. True) ixs" ?P]
        card_Un_le [of "set_option payer" "meta_keys (\<lambda>_. True) ixs"] by linarith
  qed
  also have "card ?P \<le> length ixs" by (rule card_set_map_le)
  finally show ?thesis using m assms keys by simp
qed

section \<open>Properties\<close>

text \<open>
  C22: The transaction parser inverts the serializer on every transaction whose arrays have their
  lengths and whose counts fit in 16 bits, and ignores bytes after the transaction. Whatever it
  accepts is such a transaction.
\<close>

theorem transaction_roundtrip:
  "(wf_transaction tx \<longrightarrow> tx_from_bytes (tx_serialize tx @ rest) = Ok tx) \<and>
   (tx_from_bytes bs = Ok tx \<longrightarrow> wf_transaction tx)"
  using tx_from_bytes_serialize tx_from_bytes_wf by blast

lemma transaction_roundtrip_witness:
  "\<exists>tx. wf_transaction tx \<and> tx_from_bytes (tx_serialize tx @ [7]) = Ok tx"
proof -
  let ?tx = "new_unsigned \<lparr>msg_header = \<lparr>num_required_signatures = 1, num_readonly_signed_accounts = 0,
      num_readonly_unsigned_accounts = 0\<rparr>, msg_account_keys = [pubkey_zero], msg_recent_blockhash = sol_hash_zero,
      msg_instructions = [\<lparr>ci_program_id_index = 0, ci_accounts = [0], ci_data = [1, 2]\<rparr>]\<rparr>"
  have "wf_transaction ?tx"
    by (simp add: wf_transaction_def wf_message_def wf_compiled_def new_unsigned_def wf_signature_def
        signature_zero_def wf_pubkey_def pubkey_zero_def wf_sol_hash_def sol_hash_zero_def)
  with transaction_roundtrip [of ?tx "[7]" "[]"] show ?thesis by blast
qed

text \<open>
  C23: Message compilation never panics. The key list holds exactly the keys the instructions and
  the payer mention, the payer first; it has no duplicates unless a program id is also passed as a
  writable unsigned account. With fewer than 256 keys, every compiled index leads back to the key it
  came from, the first \<open>num_required_signatures\<close> keys are the signers without duplicates, and the
  positions that the header marks writable are the keys some instruction signs and writes and the
  written keys that nobody signs.
\<close>

theorem compile_message_meaning:
  "\<exists>m. compile_message ixs payer h = Some m \<and> msg_recent_blockhash m = h \<and>
     set (msg_account_keys m) = referenced_keys ixs payer \<and>
     (\<forall>p. payer = Some p \<longrightarrow> hd (msg_account_keys m) = p) \<and>
     ((\<forall>ix \<in> set ixs. ix_program_id ix \<notin> writable_unsigned_keys ixs) \<longrightarrow> distinct (msg_account_keys m)) \<and>
     (length (msg_account_keys m) < 256 \<longrightarrow>
        map (resolve (msg_account_keys m)) (msg_instructions m) =
          map (\<lambda>ix. (ix_program_id ix, map am_pubkey (ix_accounts ix), ix_data ix)) ixs \<and>
        distinct (take (unat (num_required_signatures (msg_header m))) (msg_account_keys m)) \<and>
        set (take (unat (num_required_signatures (msg_header m))) (msg_account_keys m)) = signer_keys ixs payer \<and>
        {msg_account_keys m ! i | i. writable_index m i} =
          writable_signer_keys ixs payer \<union> (writable_unsigned_keys ixs - signer_keys ixs payer))"
  by (rule compile_message_facts)

lemma compile_message_meaning_witness:
  "\<exists>m. compile_message [\<lparr>ix_program_id = pubkey_zero, ix_accounts = [], ix_data = [9]\<rparr>] None sol_hash_zero = Some m \<and>
     distinct (msg_account_keys m) \<and> set (msg_account_keys m) = {pubkey_zero}"
  using compile_message_meaning [of "[\<lparr>ix_program_id = pubkey_zero, ix_accounts = [], ix_data = [9]\<rparr>]" None sol_hash_zero]
  by (auto simp: referenced_keys_def meta_keys_def metas_def writable_unsigned_keys_def)




end
