(* ===== verification/DexCommon.thy ===== *)
theory DexCommon
  imports Chain SolTransaction
begin

text \<open>
  What the decoders of the DEX adapter share (\<open>crates/dex-adapter/src\<close>: \<open>error.rs\<close>,
  \<open>solana/common.rs\<close>, the event type of \<open>lib.rs\<close>): little-endian readers with their bounds,
  account lookup, address parsing and the events. Base 58 and the printing of an \<open>f64\<close> are
  arguments.
\<close>

section \<open>Little-endian integers\<close>

text \<open>\<open>to_le_bytes\<close> and \<open>from_le_bytes\<close> of the unsigned integers; \<open>n\<close> is the width in bytes.\<close>

definition to_le_bytes :: "nat \<Rightarrow> 'a::len word \<Rightarrow> bytes" where
  "to_le_bytes n w = rev (be_bytes n (unat w))"

definition from_le_bytes :: "bytes \<Rightarrow> 'a::len word" where
  "from_le_bytes bs = word_of_nat (be_val (rev bs))"

lemma length_to_le_bytes [simp]: "length (to_le_bytes n w) = n"
  by (simp add: to_le_bytes_def)

lemma from_to_le_bytes [simp]: "LENGTH('a) \<le> 8 * n \<Longrightarrow> from_le_bytes (to_le_bytes n (w :: 'a::len word)) = w"
proof -
  assume n: "LENGTH('a) \<le> 8 * n"
  have "unat w < 2 ^ LENGTH('a)" by (rule unsigned_less)
  also have "\<dots> \<le> 2 ^ (8 * n)" using n by (intro power_increasing) auto
  also have "(2 :: nat) ^ (8 * n) = 256 ^ n" by (simp add: power_mult)
  finally show ?thesis by (simp add: from_le_bytes_def to_le_bytes_def)
qed

lemma to_from_le_bytes: "length bs = n \<Longrightarrow> 8 * n \<le> LENGTH('a) \<Longrightarrow> to_le_bytes n (from_le_bytes bs :: 'a::len word) = bs"
proof -
  assume *: "length bs = n" "8 * n \<le> LENGTH('a)"
  have "be_val (rev bs) < 256 ^ n" using be_val_bound [of "rev bs"] *(1) by simp
  also have "(256 :: nat) ^ n = 2 ^ (8 * n)" by (simp add: power_mult)
  also have "\<dots> \<le> 2 ^ LENGTH('a)" using *(2) by (intro power_increasing) auto
  finally have "unat (from_le_bytes bs :: 'a word) = be_val (rev bs)"
    by (simp add: from_le_bytes_def unat_of_nat)
  with *(1) show ?thesis by (simp add: to_le_bytes_def be_bytes_be_val')
qed

section \<open>Errors and events\<close>

datatype dex_adapter_error =
    DataTooShort string usize usize usize
  | UnknownDiscriminator string bytes
  | MissingAccount string usize string
  | InvalidAccountAddress string usize string
  | WrongProgram string string

datatype decoded_event = DecodedSwap swap | DecodedPoolEvent pool_event

section \<open>Readers\<close>

definition read_u64_le :: "bytes \<Rightarrow> usize \<Rightarrow> string \<Rightarrow> (u64, dex_adapter_error) result" where
  "read_u64_le d offset context =
     (let hi = offset + 8 in
      if length d < hi then Err (DataTooShort context offset 8 (length d - offset))
      else Ok (from_le_bytes (slice d offset hi)))"

definition read_u8 :: "bytes \<Rightarrow> usize \<Rightarrow> string \<Rightarrow> (byte, dex_adapter_error) result" where
  "read_u8 d offset context =
     ok_or (DataTooShort context offset 1 0) (if offset < length d then Some (d ! offset) else None)"

definition get_account :: "string list \<Rightarrow> usize \<Rightarrow> string \<Rightarrow> string \<Rightarrow> (string, dex_adapter_error) result" where
  "get_account accounts index program name =
     ok_or (MissingAccount program index name)
       (if index < length accounts then Some (accounts ! index) else None)"

definition parse_solana_addr ::
    "b58_encoder \<Rightarrow> b58_decoder \<Rightarrow> (u64 \<Rightarrow> string) \<Rightarrow> string \<Rightarrow> string \<Rightarrow> usize \<Rightarrow> (address, dex_adapter_error) result" where
  "parse_solana_addr enc dec show_f64 s program index =
     map_err (\<lambda>e. InvalidAccountAddress program index (common_error_display show_f64 e))
       (address_parse enc dec Solana s)"

text \<open>
  The swap arms of both programs look up and then parse the pool, the sender and the two token
  accounts in this order; an account is given by its index and its name.
\<close>

definition swap_from_accounts ::
    "b58_encoder \<Rightarrow> b58_decoder \<Rightarrow> (u64 \<Rightarrow> string) \<Rightarrow> string \<Rightarrow> dex_kind \<Rightarrow> string list \<Rightarrow>
     usize \<Rightarrow> string \<Rightarrow> usize \<Rightarrow> string \<Rightarrow> usize \<Rightarrow> string \<Rightarrow> usize \<Rightarrow> string \<Rightarrow>
     tx_hash \<Rightarrow> block_ref \<Rightarrow> date_time \<Rightarrow> u32 \<Rightarrow> u128 \<Rightarrow> byte \<Rightarrow> u128 \<Rightarrow> byte \<Rightarrow>
     (decoded_event option, dex_adapter_error) result" where
  "swap_from_accounts enc dec show_f64 program dex accounts i_pool n_pool i_sender n_sender i_in n_in
       i_out n_out txh block block_time log_index amount_in decimals_in amount_out decimals_out =
     and_then (get_account accounts i_pool program n_pool) (\<lambda>pool_addr.
     and_then (get_account accounts i_sender program n_sender) (\<lambda>sender_addr.
     and_then (get_account accounts i_in program n_in) (\<lambda>token_in_addr.
     and_then (get_account accounts i_out program n_out) (\<lambda>token_out_addr.
     and_then (parse_solana_addr enc dec show_f64 pool_addr program i_pool) (\<lambda>pool.
     and_then (parse_solana_addr enc dec show_f64 sender_addr program i_sender) (\<lambda>sender.
     and_then (parse_solana_addr enc dec show_f64 token_in_addr program i_in) (\<lambda>token_in.
     and_then (parse_solana_addr enc dec show_f64 token_out_addr program i_out) (\<lambda>token_out.
     Ok (Some (DecodedSwap
       \<lparr>s_chain = Solana, s_tx_hash = txh, s_block = block, s_block_time = block_time, s_pool = pool,
        s_dex = dex, s_sender = sender, s_token_in = token_in, s_token_out = token_out,
        s_amount_in_raw = amount_in, s_decimals_in = decimals_in, s_amount_out_raw = amount_out,
        s_decimals_out = decimals_out, s_usd_value = None, s_log_index = log_index\<rparr>))))))))))"

text \<open>The pool events are built in field order: the pool, the kind with its addresses, the actor.\<close>

definition pool_event_at ::
    "b58_encoder \<Rightarrow> b58_decoder \<Rightarrow> (u64 \<Rightarrow> string) \<Rightarrow> string \<Rightarrow> dex_kind \<Rightarrow> string \<Rightarrow> usize \<Rightarrow> string \<Rightarrow> usize \<Rightarrow>
     tx_hash \<Rightarrow> block_ref \<Rightarrow> date_time \<Rightarrow> u32 \<Rightarrow> (pool_event_kind, dex_adapter_error) result \<Rightarrow>
     (decoded_event option, dex_adapter_error) result" where
  "pool_event_at enc dec show_f64 program dex pool_addr i_pool actor_addr i_actor txh block block_time
       log_index kind_result =
     and_then (parse_solana_addr enc dec show_f64 pool_addr program i_pool) (\<lambda>pool.
     and_then kind_result (\<lambda>kind.
     and_then (parse_solana_addr enc dec show_f64 actor_addr program i_actor) (\<lambda>actor.
     Ok (Some (DecodedPoolEvent
       \<lparr>p_chain = Solana, p_tx_hash = txh, p_block = block, p_block_time = block_time, p_pool = pool,
        p_dex = dex, p_kind = kind, p_actor = actor, p_log_index = log_index\<rparr>)))))"

definition initialize_kind ::
    "b58_encoder \<Rightarrow> b58_decoder \<Rightarrow> (u64 \<Rightarrow> string) \<Rightarrow> string \<Rightarrow> string \<Rightarrow> usize \<Rightarrow> string \<Rightarrow> usize \<Rightarrow>
     (pool_event_kind, dex_adapter_error) result" where
  "initialize_kind enc dec show_f64 program token0 i0 token1 i1 =
     and_then (parse_solana_addr enc dec show_f64 token0 program i0) (\<lambda>t0.
     and_then (parse_solana_addr enc dec show_f64 token1 program i1) (\<lambda>t1.
     Ok (PoolInitialize t0 t1)))"

section \<open>Lemmas\<close>

text \<open>The address of an account text that is accepted.\<close>

definition sol_address :: "string \<Rightarrow> address" where
  "sol_address s = \<lparr>addr_chain = Solana, canonical = s\<rparr>"

definition sol_account :: "b58_decoder \<Rightarrow> string \<Rightarrow> bool" where
  "sol_account dec s = (case dec s of Inr bs \<Rightarrow> length bs = 32 | Inl _ \<Rightarrow> False)"

lemma parse_solana_addr_Ok:
  assumes "base58_codec enc dec"
  shows "parse_solana_addr enc dec show_f64 s program i = Inr a \<longleftrightarrow> sol_account dec s \<and> a = sol_address s"
  using base58_codec.enc_dec [OF assms, of s]
  by (auto simp: parse_solana_addr_def address_parse_def and_then_eq_Inr sol_account_def sol_address_def
      split: sum.splits)

lemma parse_solana_addr_enc:
  assumes "base58_codec enc dec" "wf_pubkey p"
  shows "parse_solana_addr enc dec show_f64 (pubkey_to_base58 enc p) program i = Inr (sol_address (pubkey_to_base58 enc p))"
  using assms base58_codec.dec_enc [OF assms(1), of "pubkey_bytes p"]
  by (simp add: parse_solana_addr_Ok sol_account_def pubkey_to_base58_def wf_pubkey_def)

lemma parse_solana_addr_Err:
  "parse_solana_addr enc dec show_f64 s program i = Inl e \<Longrightarrow> \<exists>reason. e = InvalidAccountAddress program i reason"
  by (auto simp: parse_solana_addr_def map_err_eq_Inl)

lemma read_u64_le_Ok:
  "read_u64_le d off ctx = Inr w \<longleftrightarrow> off + 8 \<le> length d \<and> w = from_le_bytes (slice d off (off + 8))"
  by (auto simp: read_u64_le_def Let_def)

lemma read_u64_le_Err:
  "read_u64_le d off ctx = Inl e \<longleftrightarrow> length d < off + 8 \<and> e = DataTooShort ctx off 8 (length d - off)"
  by (auto simp: read_u64_le_def Let_def)

lemma read_u8_Ok: "read_u8 d off ctx = Inr b \<longleftrightarrow> off < length d \<and> b = d ! off"
  by (auto simp: read_u8_def)

lemma read_u8_Err: "read_u8 d off ctx = Inl e \<longleftrightarrow> length d \<le> off \<and> e = DataTooShort ctx off 1 0"
  by (auto simp: read_u8_def)

lemma get_account_Ok: "get_account as i program nm = Inr s \<longleftrightarrow> i < length as \<and> s = as ! i"
  by (auto simp: get_account_def)

lemma get_account_Err: "get_account as i program nm = Inl e \<longleftrightarrow> length as \<le> i \<and> e = MissingAccount program i nm"
  by (auto simp: get_account_def)

lemmas reader_Ok = and_then_eq_Inr read_u64_le_Ok read_u8_Ok get_account_Ok

lemma read_u64_le_append:
  "n = length pre \<Longrightarrow> read_u64_le (pre @ to_le_bytes 8 w @ post) n ctx = Inr w"
  by (auto simp: read_u64_le_Ok slice_middle')

text \<open>What the shared tails accept.\<close>

lemma swap_from_accounts_Ok:
  assumes "base58_codec enc dec"
  shows "swap_from_accounts enc dec show_f64 program dex accounts ip np is ns ii ni io no
       txh block block_time li ain din aout dout = Inr r \<longleftrightarrow>
     (\<forall>i \<in> {ip, is, ii, io}. i < length accounts \<and> sol_account dec (accounts ! i)) \<and>
     r = Some (DecodedSwap
       \<lparr>s_chain = Solana, s_tx_hash = txh, s_block = block, s_block_time = block_time,
        s_pool = sol_address (accounts ! ip), s_dex = dex, s_sender = sol_address (accounts ! is),
        s_token_in = sol_address (accounts ! ii), s_token_out = sol_address (accounts ! io),
        s_amount_in_raw = ain, s_decimals_in = din, s_amount_out_raw = aout,
        s_decimals_out = dout, s_usd_value = None, s_log_index = li\<rparr>)"
  by (auto simp: swap_from_accounts_def reader_Ok parse_solana_addr_Ok [OF assms])

lemma pool_event_at_Ok:
  assumes "base58_codec enc dec"
  shows "pool_event_at enc dec show_f64 program dex pool ip actor ia txh block block_time li k = Inr r \<longleftrightarrow>
     sol_account dec pool \<and> sol_account dec actor \<and>
     (\<exists>kind. k = Inr kind \<and> r = Some (DecodedPoolEvent
       \<lparr>p_chain = Solana, p_tx_hash = txh, p_block = block, p_block_time = block_time, p_pool = sol_address pool,
        p_dex = dex, p_kind = kind, p_actor = sol_address actor, p_log_index = li\<rparr>))"
  by (auto simp: pool_event_at_def and_then_eq_Inr parse_solana_addr_Ok [OF assms])

lemma initialize_kind_Ok:
  assumes "base58_codec enc dec"
  shows "initialize_kind enc dec show_f64 program t0 i0 t1 i1 = Inr k \<longleftrightarrow>
     sol_account dec t0 \<and> sol_account dec t1 \<and> k = PoolInitialize (sol_address t0) (sol_address t1)"
  by (auto simp: initialize_kind_def and_then_eq_Inr parse_solana_addr_Ok [OF assms])

text \<open>The errors that decoding can produce.\<close>

fun malformed :: "string \<Rightarrow> dex_adapter_error \<Rightarrow> bool" where
  "malformed program (DataTooShort _ _ _ _) = True"
| "malformed program (MissingAccount p _ _) = (p = program)"
| "malformed program (InvalidAccountAddress p _ _) = (p = program)"
| "malformed program _ = False"

lemma swap_from_accounts_Err:
  "swap_from_accounts enc dec show_f64 program dex accounts ip np is ns ii ni io no
     txh block block_time li ain din aout dout = Inl e \<Longrightarrow> malformed program e"
  by (auto simp: swap_from_accounts_def and_then_eq_Inl get_account_Err dest: parse_solana_addr_Err)

lemma pool_event_at_Err:
  "pool_event_at enc dec show_f64 program dex pool ip actor ia txh block block_time li k = Inl e \<Longrightarrow>
     malformed program e \<or> k = Inl e"
  by (auto simp: pool_event_at_def and_then_eq_Inl dest: parse_solana_addr_Err)

lemma initialize_kind_Err:
  "initialize_kind enc dec show_f64 program t0 i0 t1 i1 = Inl e \<Longrightarrow> malformed program e"
  by (auto simp: initialize_kind_def and_then_eq_Inl dest: parse_solana_addr_Err)

text \<open>How the layout specifications of the programs read data and accounts.\<close>

definition u64_at :: "bytes \<Rightarrow> usize \<Rightarrow> u64" where
  "u64_at d i = from_le_bytes (slice d i (i + 8))"

definition accounts_ok :: "b58_decoder \<Rightarrow> string list \<Rightarrow> nat set \<Rightarrow> bool" where
  "accounts_ok dec accounts I = (\<forall>i \<in> I. i < length accounts \<and> sol_account dec (accounts ! i))"

end
