(* ===== verification/DexSimulation.thy ===== *)
theory DexSimulation
  imports DexCommon
begin

text \<open>
  Simulation helpers of the DEX adapter (\<open>crates/dex-adapter/src/solana/simulation.rs\<close>): the
  instruction builders around a simulated swap, the derivation of token accounts and the throwaway
  signers. SHA-256, the curve test and the public key of a seed are arguments; \<open>None\<close> is a panic.
\<close>

section \<open>Program ids\<close>

definition COMPUTE_BUDGET_PROGRAM_ID :: pubkey where
  "COMPUTE_BUDGET_PROGRAM_ID = the (from_str_const ''ComputeBudget111111111111111111111111111111'')"

definition SET_COMPUTE_UNIT_LIMIT_DISC :: byte where
  "SET_COMPUTE_UNIT_LIMIT_DISC = 0x02"

definition SPL_TOKEN_PROGRAM_ID :: pubkey where
  "SPL_TOKEN_PROGRAM_ID = the (from_str_const ''TokenkegQfeZyiNwAJbNbGKPFXCWuBvf9Ss623VQ5DA'')"

definition WSOL_MINT :: pubkey where
  "WSOL_MINT = the (from_str_const ''So11111111111111111111111111111111111111112'')"

definition ASSOCIATED_TOKEN_PROGRAM_ID :: pubkey where
  "ASSOCIATED_TOKEN_PROGRAM_ID = the (from_str_const ''ATokenGPvbdGVxr1b2hvZbsiqW5xWH25efTNsLJA8knL'')"

definition SYSTEM_PROGRAM_ID :: pubkey where
  "SYSTEM_PROGRAM_ID = the (from_str_const ''11111111111111111111111111111111'')"

section \<open>Instruction builders\<close>

definition build_set_compute_unit_limit_instruction :: "u32 \<Rightarrow> instruction" where
  "build_set_compute_unit_limit_instruction units =
     \<lparr>ix_program_id = COMPUTE_BUDGET_PROGRAM_ID, ix_accounts = [],
      ix_data = [SET_COMPUTE_UNIT_LIMIT_DISC] @ to_le_bytes 4 units\<rparr>"

definition derive_associated_token_account ::
    "hash_fn \<Rightarrow> (bytes \<Rightarrow> bool) \<Rightarrow> pubkey \<Rightarrow> pubkey \<Rightarrow> pubkey \<Rightarrow> pubkey option" where
  "derive_associated_token_account sha256 on_curve owner token_program mint =
     map_option fst
       (find_program_address sha256 on_curve [pubkey_bytes owner, pubkey_bytes token_program, pubkey_bytes mint]
          ASSOCIATED_TOKEN_PROGRAM_ID)"

definition build_create_associated_token_account_idempotent_ix ::
    "hash_fn \<Rightarrow> (bytes \<Rightarrow> bool) \<Rightarrow> pubkey \<Rightarrow> pubkey \<Rightarrow> pubkey \<Rightarrow> pubkey \<Rightarrow> instruction option" where
  "build_create_associated_token_account_idempotent_ix sha256 on_curve payer owner mint token_program =
     map_option (\<lambda>ata.
       \<lparr>ix_program_id = ASSOCIATED_TOKEN_PROGRAM_ID,
        ix_accounts =
          [account_meta_new payer True, account_meta_new ata False, account_meta_new_readonly owner False,
           account_meta_new_readonly mint False, account_meta_new_readonly SYSTEM_PROGRAM_ID False,
           account_meta_new_readonly token_program False],
        ix_data = [0x01]\<rparr>)
     (derive_associated_token_account sha256 on_curve owner token_program mint)"

definition build_system_transfer_ix :: "pubkey \<Rightarrow> pubkey \<Rightarrow> u64 \<Rightarrow> instruction" where
  "build_system_transfer_ix from_key to_key lamports =
     \<lparr>ix_program_id = SYSTEM_PROGRAM_ID,
      ix_accounts = [account_meta_new from_key True, account_meta_new to_key False],
      ix_data = to_le_bytes 4 (2 :: u32) @ to_le_bytes 8 lamports\<rparr>"

definition build_sync_native_ix :: "pubkey \<Rightarrow> pubkey \<Rightarrow> instruction" where
  "build_sync_native_ix token_program native_account =
     \<lparr>ix_program_id = token_program, ix_accounts = [account_meta_new native_account False], ix_data = [0x11]\<rparr>"

definition build_close_account_ix :: "pubkey \<Rightarrow> pubkey \<Rightarrow> pubkey \<Rightarrow> pubkey \<Rightarrow> instruction" where
  "build_close_account_ix token_program account destination owner =
     \<lparr>ix_program_id = token_program,
      ix_accounts =
        [account_meta_new account False, account_meta_new destination False, account_meta_new_readonly owner True],
      ix_data = [0x09]\<rparr>"

definition derive_simulation_keypair :: "hash_fn \<Rightarrow> public_key_fn \<Rightarrow> pubkey \<Rightarrow> pubkey \<Rightarrow> byte \<Rightarrow> keypair" where
  "derive_simulation_keypair sha256 public_key token pool path_index =
     keypair_from_seed_bytes public_key (sha256 (pubkey_bytes token @ pubkey_bytes pool @ [path_index]))"

section \<open>Lemmas: constant program ids\<close>

text \<open>The value of a constant; it is a key of 32 bytes whenever the text is accepted.\<close>

lemma from_str_const_wf: "from_str_const s = Some p \<Longrightarrow> wf_pubkey p"
  by (auto simp: from_str_const_value wf_pubkey_def split: if_splits)

lemma const_ok:
  "set s \<subseteq> set b58_alphabet \<Longrightarrow> b58_value s < 256 ^ 32 \<Longrightarrow>
     from_str_const s = Some (Pubkey (be_bytes 32 (b58_value s)))"
  by (simp add: from_str_const_value del: be_bytes.simps)

text \<open>
  The run-time parser reads a text with no leading zero digit as the same key, when its value has
  exactly 32 bytes.
\<close>

lemma const_parsed:
  assumes "base58_numeric enc dec" "set s \<subseteq> set b58_alphabet" "leading CHR ''1'' s = 0"
    and "256 ^ 31 \<le> b58_value s" "b58_value s < 256 ^ 32"
  shows "dec s = Inr (be_bytes 32 (b58_value s))"
proof -
  have cod: "base58_codec enc dec" using assms(1) by (simp add: base58_numeric_def)
  obtain bs where bs: "dec s = Inr bs" using base58_codec.dec_total [OF cod assms(2)] by blast
  then have e: "enc bs = s" by (rule base58_codec.enc_dec [OF cod])
  have val: "be_val bs = b58_value s" and lead: "leading 0 bs = 0"
    using base58_numeric.enc_value [OF assms(1), of bs] base58_numeric.enc_leading [OF assms(1), of bs] e assms(3)
    by simp_all
  have "be_val bs < 256 ^ length bs" by (rule be_val_bound)
  with val assms(4) have "(256::nat) ^ 31 < 256 ^ length bs" by linarith
  then have "31 < length bs" by (rule power_less_imp_less_exp [rotated]) simp
  moreover have "length bs \<le> 32"
  proof (rule ccontr)
    assume "\<not> length bs \<le> 32"
    then obtain b bs' where b: "bs = b # bs'" "32 \<le> length bs'" by (cases bs) auto
    then have "b \<noteq> 0" using lead by (auto simp: leading_def split: if_splits)
    then have "1 \<le> unat b" using unat_gt_0 [of b] by linarith
    then have "1 * 256 ^ 32 \<le> unat b * 256 ^ length bs'"
      using b(2) by (intro mult_le_mono power_increasing) auto
    then have "256 ^ 32 \<le> be_val bs" using b(1) by (simp add: be_val_Cons)
    with val assms(5) show False by linarith
  qed
  ultimately have "length bs = 32" by linarith
  then show ?thesis using bs be_bytes_be_val' [of 32 bs] val by simp
qed

lemmas b58_eval = b58_value_def b58_index_def b58_alphabet_def leading_def

lemma sim_constants:
  "from_str_const ''ComputeBudget111111111111111111111111111111'' = Some COMPUTE_BUDGET_PROGRAM_ID"
  "from_str_const ''TokenkegQfeZyiNwAJbNbGKPFXCWuBvf9Ss623VQ5DA'' = Some SPL_TOKEN_PROGRAM_ID"
  "from_str_const ''So11111111111111111111111111111111111111112'' = Some WSOL_MINT"
  "from_str_const ''ATokenGPvbdGVxr1b2hvZbsiqW5xWH25efTNsLJA8knL'' = Some ASSOCIATED_TOKEN_PROGRAM_ID"
  "from_str_const ''11111111111111111111111111111111'' = Some SYSTEM_PROGRAM_ID"
  unfolding COMPUTE_BUDGET_PROGRAM_ID_def SPL_TOKEN_PROGRAM_ID_def WSOL_MINT_def ASSOCIATED_TOKEN_PROGRAM_ID_def
    SYSTEM_PROGRAM_ID_def
  by (simp_all add: from_str_const_value b58_eval del: be_bytes.simps)

lemmas sim_constants_wf = sim_constants [THEN from_str_const_wf]

end
