(* ===== verification/RaydiumV4.thy ===== *)
theory RaydiumV4
  imports DexSimulation
begin

text \<open>
  Raydium AMM v4 (\<open>crates/dex-adapter/src/solana/raydium_v4.rs\<close>): the instruction decoder, which
  reads one discriminator byte and little-endian fields at fixed offsets and picks the accounts by
  position, and the builder of the \<open>SwapBaseIn\<close> instruction.
\<close>

named_theorems v4_consts

section \<open>Constants\<close>

definition RAYDIUM_V4_PROGRAM_ID :: string where
  "RAYDIUM_V4_PROGRAM_ID = ''675kPX9MHTjS2zt1qfr1NYHuzeLXfQM9H24wFSUt1Mp8''"

text \<open>A constant of \<open>from_str_const\<close>; the decoder panics at compile time on a bad text.\<close>

definition V4_SPL_TOKEN_PROGRAM_ID :: pubkey where
  "V4_SPL_TOKEN_PROGRAM_ID = the (from_str_const ''TokenkegQfeZyiNwAJbNbGKPFXCWuBvf9Ss623VQ5DA'')"

definition DISC_INITIALIZE2 :: byte where [v4_consts]: "DISC_INITIALIZE2 = 1"

definition DISC_DEPOSIT :: byte where [v4_consts]: "DISC_DEPOSIT = 3"

definition DISC_WITHDRAW :: byte where [v4_consts]: "DISC_WITHDRAW = 4"

definition DISC_SWAP_BASE_IN :: byte where [v4_consts]: "DISC_SWAP_BASE_IN = 9"

definition DISC_SWAP_BASE_OUT :: byte where [v4_consts]: "DISC_SWAP_BASE_OUT = 11"

definition ACC_AMM_POOL :: usize where [v4_consts]: "ACC_AMM_POOL = 1"

definition ACC_USER_SOURCE :: usize where [v4_consts]: "ACC_USER_SOURCE = 15"

definition ACC_USER_DESTINATION :: usize where [v4_consts]: "ACC_USER_DESTINATION = 16"

definition ACC_USER_WALLET :: usize where [v4_consts]: "ACC_USER_WALLET = 17"

definition ACC_DEP_AMM :: usize where [v4_consts]: "ACC_DEP_AMM = 1"

definition ACC_DEP_LP_MINT :: usize where [v4_consts]: "ACC_DEP_LP_MINT = 5"

definition ACC_DEP_USER_LP :: usize where [v4_consts]: "ACC_DEP_USER_LP = 11"

definition ACC_DEP_USER_WALLET :: usize where [v4_consts]: "ACC_DEP_USER_WALLET = 12"

definition ACC_WIT_AMM :: usize where [v4_consts]: "ACC_WIT_AMM = 1"

definition ACC_WIT_USER_WALLET :: usize where [v4_consts]: "ACC_WIT_USER_WALLET = 19"

definition ACC_INIT_AMM :: usize where [v4_consts]: "ACC_INIT_AMM = 3"

definition ACC_INIT_COIN_MINT :: usize where [v4_consts]: "ACC_INIT_COIN_MINT = 7"

definition ACC_INIT_PC_MINT :: usize where [v4_consts]: "ACC_INIT_PC_MINT = 8"

definition ACC_INIT_USER_WALLET :: usize where [v4_consts]: "ACC_INIT_USER_WALLET = 16"

section \<open>Instruction payloads\<close>

record swap_base_in =
  sbi_amount_in :: u64
  sbi_minimum_amount_out :: u64

record swap_base_out =
  sbo_max_amount_in :: u64
  sbo_amount_out :: u64

record v4_deposit =
  dep_max_coin_amount :: u64
  dep_max_pc_amount :: u64

record v4_withdraw =
  wit_lp_amount :: u64

record v4_initialize2 =
  init_coin_amount :: u64
  init_pc_amount :: u64

definition parse_swap_base_in :: "bytes \<Rightarrow> (swap_base_in, dex_adapter_error) result" where
  "parse_swap_base_in d =
     and_then (read_u64_le d 1 ''RaydiumV4::SwapBaseIn::amount_in'') (\<lambda>amount_in.
     and_then (read_u64_le d 9 ''RaydiumV4::SwapBaseIn::minimum_amount_out'') (\<lambda>minimum_amount_out.
     Ok \<lparr>sbi_amount_in = amount_in, sbi_minimum_amount_out = minimum_amount_out\<rparr>))"

definition parse_swap_base_out :: "bytes \<Rightarrow> (swap_base_out, dex_adapter_error) result" where
  "parse_swap_base_out d =
     and_then (read_u64_le d 1 ''RaydiumV4::SwapBaseOut::max_amount_in'') (\<lambda>max_amount_in.
     and_then (read_u64_le d 9 ''RaydiumV4::SwapBaseOut::amount_out'') (\<lambda>amount_out.
     Ok \<lparr>sbo_max_amount_in = max_amount_in, sbo_amount_out = amount_out\<rparr>))"

definition parse_deposit :: "bytes \<Rightarrow> (v4_deposit, dex_adapter_error) result" where
  "parse_deposit d =
     and_then (read_u64_le d 1 ''RaydiumV4::Deposit::max_coin_amount'') (\<lambda>max_coin_amount.
     and_then (read_u64_le d 9 ''RaydiumV4::Deposit::max_pc_amount'') (\<lambda>max_pc_amount.
     Ok \<lparr>dep_max_coin_amount = max_coin_amount, dep_max_pc_amount = max_pc_amount\<rparr>))"

definition parse_withdraw :: "bytes \<Rightarrow> (v4_withdraw, dex_adapter_error) result" where
  "parse_withdraw d =
     and_then (read_u64_le d 1 ''RaydiumV4::Withdraw::amount'') (\<lambda>lp_amount.
     Ok \<lparr>wit_lp_amount = lp_amount\<rparr>)"

definition parse_initialize2 :: "bytes \<Rightarrow> (v4_initialize2, dex_adapter_error) result" where
  "parse_initialize2 d =
     and_then (read_u8 d 1 ''RaydiumV4::Initialize2::nonce'') (\<lambda>_.
     and_then (read_u64_le d 2 ''RaydiumV4::Initialize2::open_time'') (\<lambda>_.
     and_then (read_u64_le d 10 ''RaydiumV4::Initialize2::init_pc_amount'') (\<lambda>pc.
     and_then (read_u64_le d 18 ''RaydiumV4::Initialize2::init_coin_amount'') (\<lambda>coin.
     Ok \<lparr>init_coin_amount = coin, init_pc_amount = pc\<rparr>))))"

section \<open>The decoder\<close>

abbreviation "v4_prog \<equiv> ''RaydiumV4''"

definition v4_decode_swap ::
    "b58_encoder \<Rightarrow> b58_decoder \<Rightarrow> (u64 \<Rightarrow> string) \<Rightarrow> string list \<Rightarrow> tx_hash \<Rightarrow> block_ref \<Rightarrow> date_time \<Rightarrow> u32 \<Rightarrow>
     byte \<Rightarrow> byte \<Rightarrow> u64 \<Rightarrow> u64 \<Rightarrow> (decoded_event option, dex_adapter_error) result" where
  "v4_decode_swap enc dec show_f64 accounts txh block block_time log_index decimals_in decimals_out amount_in amount_out =
     swap_from_accounts enc dec show_f64 v4_prog RaydiumV4 accounts
       ACC_AMM_POOL ''amm_pool'' ACC_USER_WALLET ''user_wallet'' ACC_USER_SOURCE ''user_source''
       ACC_USER_DESTINATION ''user_destination'' txh block block_time log_index
       (ucast amount_in) decimals_in (ucast amount_out) decimals_out"

definition v4_decode_deposit ::
    "b58_encoder \<Rightarrow> b58_decoder \<Rightarrow> (u64 \<Rightarrow> string) \<Rightarrow> bytes \<Rightarrow> string list \<Rightarrow> tx_hash \<Rightarrow> block_ref \<Rightarrow> date_time \<Rightarrow> u32 \<Rightarrow>
     (decoded_event option, dex_adapter_error) result" where
  "v4_decode_deposit enc dec show_f64 d accounts txh block block_time log_index =
     and_then (parse_deposit d) (\<lambda>parsed.
     and_then (get_account accounts ACC_DEP_AMM v4_prog ''amm'') (\<lambda>pool_addr.
     and_then (get_account accounts ACC_DEP_USER_WALLET v4_prog ''user_wallet'') (\<lambda>actor_addr.
     and_then (get_account accounts ACC_DEP_USER_LP v4_prog ''user_lp'') (\<lambda>_.
     and_then (get_account accounts ACC_DEP_LP_MINT v4_prog ''lp_mint'') (\<lambda>_.
     pool_event_at enc dec show_f64 v4_prog RaydiumV4 pool_addr ACC_DEP_AMM actor_addr ACC_DEP_USER_WALLET
       txh block block_time log_index
       (Ok (PoolMint (ucast (dep_max_coin_amount parsed)) (ucast (dep_max_pc_amount parsed)) 0)))))))"

definition v4_decode_withdraw ::
    "b58_encoder \<Rightarrow> b58_decoder \<Rightarrow> (u64 \<Rightarrow> string) \<Rightarrow> bytes \<Rightarrow> string list \<Rightarrow> tx_hash \<Rightarrow> block_ref \<Rightarrow> date_time \<Rightarrow> u32 \<Rightarrow>
     (decoded_event option, dex_adapter_error) result" where
  "v4_decode_withdraw enc dec show_f64 d accounts txh block block_time log_index =
     and_then (parse_withdraw d) (\<lambda>parsed.
     and_then (get_account accounts ACC_WIT_AMM v4_prog ''amm'') (\<lambda>pool_addr.
     and_then (get_account accounts ACC_WIT_USER_WALLET v4_prog ''user_wallet'') (\<lambda>actor_addr.
     pool_event_at enc dec show_f64 v4_prog RaydiumV4 pool_addr ACC_WIT_AMM actor_addr ACC_WIT_USER_WALLET
       txh block block_time log_index (Ok (PoolBurn 0 0 (ucast (wit_lp_amount parsed)))))))"

definition v4_decode_initialize ::
    "b58_encoder \<Rightarrow> b58_decoder \<Rightarrow> (u64 \<Rightarrow> string) \<Rightarrow> bytes \<Rightarrow> string list \<Rightarrow> tx_hash \<Rightarrow> block_ref \<Rightarrow> date_time \<Rightarrow> u32 \<Rightarrow>
     (decoded_event option, dex_adapter_error) result" where
  "v4_decode_initialize enc dec show_f64 d accounts txh block block_time log_index =
     and_then (parse_initialize2 d) (\<lambda>_.
     and_then (get_account accounts ACC_INIT_AMM v4_prog ''amm'') (\<lambda>pool_addr.
     and_then (get_account accounts ACC_INIT_USER_WALLET v4_prog ''user_wallet'') (\<lambda>actor_addr.
     and_then (get_account accounts ACC_INIT_COIN_MINT v4_prog ''coin_mint'') (\<lambda>coin_mint_addr.
     and_then (get_account accounts ACC_INIT_PC_MINT v4_prog ''pc_mint'') (\<lambda>pc_mint_addr.
     pool_event_at enc dec show_f64 v4_prog RaydiumV4 pool_addr ACC_INIT_AMM actor_addr ACC_INIT_USER_WALLET
       txh block block_time log_index
       (initialize_kind enc dec show_f64 v4_prog coin_mint_addr ACC_INIT_COIN_MINT pc_mint_addr ACC_INIT_PC_MINT))))))"

definition v4_decode ::
    "b58_encoder \<Rightarrow> b58_decoder \<Rightarrow> (u64 \<Rightarrow> string) \<Rightarrow> string \<Rightarrow> bytes \<Rightarrow> string list \<Rightarrow> tx_hash \<Rightarrow> block_ref \<Rightarrow>
     date_time \<Rightarrow> u32 \<Rightarrow> byte \<Rightarrow> byte \<Rightarrow> (decoded_event option, dex_adapter_error) result" where
  "v4_decode enc dec show_f64 program_id d accounts txh block block_time log_index decimals_in decimals_out =
     (if program_id \<noteq> RAYDIUM_V4_PROGRAM_ID then Err (WrongProgram RAYDIUM_V4_PROGRAM_ID program_id)
      else if d = [] then Err (DataTooShort ''RaydiumV4::decode'' 0 1 0)
      else
        let disc = d ! 0 in
        if disc = DISC_SWAP_BASE_IN then
          and_then (parse_swap_base_in d) (\<lambda>parsed.
            v4_decode_swap enc dec show_f64 accounts txh block block_time log_index decimals_in decimals_out
              (sbi_amount_in parsed) (sbi_minimum_amount_out parsed))
        else if disc = DISC_SWAP_BASE_OUT then
          and_then (parse_swap_base_out d) (\<lambda>parsed.
            v4_decode_swap enc dec show_f64 accounts txh block block_time log_index decimals_in decimals_out
              (sbo_max_amount_in parsed) (sbo_amount_out parsed))
        else if disc = DISC_DEPOSIT then
          v4_decode_deposit enc dec show_f64 d accounts txh block block_time log_index
        else if disc = DISC_WITHDRAW then
          v4_decode_withdraw enc dec show_f64 d accounts txh block block_time log_index
        else if disc = DISC_INITIALIZE2 then
          v4_decode_initialize enc dec show_f64 d accounts txh block block_time log_index
        else Ok None)"

section \<open>The swap builder\<close>

record raydium_v4_swap_accounts =
  v4_amm_pool :: pubkey
  v4_amm_authority :: pubkey
  v4_amm_open_orders :: pubkey
  v4_amm_target_orders :: pubkey
  v4_pool_coin_vault :: pubkey
  v4_pool_pc_vault :: pubkey
  v4_market_program :: pubkey
  v4_market :: pubkey
  v4_market_bids :: pubkey
  v4_market_asks :: pubkey
  v4_market_event_queue :: pubkey
  v4_market_coin_vault :: pubkey
  v4_market_pc_vault :: pubkey
  v4_market_vault_signer :: pubkey
  v4_user_source_token :: pubkey
  v4_user_dest_token :: pubkey
  v4_user_owner :: pubkey

text \<open>\<open>parse().expect()\<close> of the program id: \<open>None\<close> is the panic.\<close>

definition build_swap_base_in_instruction ::
    "b58_decoder \<Rightarrow> raydium_v4_swap_accounts \<Rightarrow> u64 \<Rightarrow> u64 \<Rightarrow> instruction option" where
  "build_swap_base_in_instruction dec accounts amount_in minimum_amount_out =
     (let account_metas =
        [account_meta_new_readonly V4_SPL_TOKEN_PROGRAM_ID False,
         account_meta_new (v4_amm_pool accounts) False,
         account_meta_new_readonly (v4_amm_authority accounts) False,
         account_meta_new (v4_amm_open_orders accounts) False,
         account_meta_new (v4_amm_target_orders accounts) False,
         account_meta_new (v4_pool_coin_vault accounts) False,
         account_meta_new (v4_pool_pc_vault accounts) False,
         account_meta_new_readonly (v4_market_program accounts) False,
         account_meta_new (v4_market accounts) False,
         account_meta_new (v4_market_bids accounts) False,
         account_meta_new (v4_market_asks accounts) False,
         account_meta_new (v4_market_event_queue accounts) False,
         account_meta_new (v4_market_coin_vault accounts) False,
         account_meta_new (v4_market_pc_vault accounts) False,
         account_meta_new_readonly (v4_market_vault_signer accounts) False,
         account_meta_new (v4_user_source_token accounts) False,
         account_meta_new (v4_user_dest_token accounts) False,
         account_meta_new_readonly (v4_user_owner accounts) True];
          d = [DISC_SWAP_BASE_IN] @ to_le_bytes 8 amount_in @ to_le_bytes 8 minimum_amount_out
      in case pubkey_from_base58 dec RAYDIUM_V4_PROGRAM_ID of
           Inl _ \<Rightarrow> None
         | Inr program_id \<Rightarrow> Some \<lparr>ix_program_id = program_id, ix_accounts = account_metas, ix_data = d\<rparr>)"

definition V4_SIMULATION_COMPUTE_UNIT_LIMIT :: u32 where
  "V4_SIMULATION_COMPUTE_UNIT_LIMIT = 400000"

definition build_swap_base_in_transaction ::
    "b58_decoder \<Rightarrow> sign_fn \<Rightarrow> raydium_v4_swap_accounts \<Rightarrow> u64 \<Rightarrow> u64 \<Rightarrow> keypair \<Rightarrow> sol_hash \<Rightarrow> transaction option" where
  "build_swap_base_in_transaction dec sign accounts amount_in minimum_amount_out payer recent_blockhash =
     (let compute_budget_ix = build_set_compute_unit_limit_instruction V4_SIMULATION_COMPUTE_UNIT_LIMIT in
      case build_swap_base_in_instruction dec accounts amount_in minimum_amount_out of
        None \<Rightarrow> None
      | Some swap_ix \<Rightarrow>
          new_signed_with_payer sign [compute_budget_ix, swap_ix] (Some (kp_pubkey payer)) [payer] recent_blockhash)"

section \<open>Lemmas\<close>

lemmas v4_parsers = parse_swap_base_in_def parse_swap_base_out_def parse_deposit_def parse_withdraw_def
  parse_initialize2_def

lemmas v4_arms = v4_decode_swap_def v4_decode_deposit_def v4_decode_withdraw_def v4_decode_initialize_def

text \<open>The swap a v4 instruction reports.\<close>

definition v4_swap_of ::
    "string list \<Rightarrow> tx_hash \<Rightarrow> block_ref \<Rightarrow> date_time \<Rightarrow> u32 \<Rightarrow> byte \<Rightarrow> byte \<Rightarrow> u64 \<Rightarrow> u64 \<Rightarrow> swap" where
  "v4_swap_of accounts txh block block_time li din dout amount_in amount_out =
     \<lparr>s_chain = Solana, s_tx_hash = txh, s_block = block, s_block_time = block_time,
      s_pool = sol_address (accounts ! 1), s_dex = RaydiumV4, s_sender = sol_address (accounts ! 17),
      s_token_in = sol_address (accounts ! 15), s_token_out = sol_address (accounts ! 16),
      s_amount_in_raw = ucast amount_in, s_decimals_in = din, s_amount_out_raw = ucast amount_out,
      s_decimals_out = dout, s_usd_value = None, s_log_index = li\<rparr>"

definition v4_pool_event_of ::
    "string list \<Rightarrow> tx_hash \<Rightarrow> block_ref \<Rightarrow> date_time \<Rightarrow> u32 \<Rightarrow> usize \<Rightarrow> usize \<Rightarrow> pool_event_kind \<Rightarrow> pool_event" where
  "v4_pool_event_of accounts txh block block_time li i_pool i_actor kind =
     \<lparr>p_chain = Solana, p_tx_hash = txh, p_block = block, p_block_time = block_time,
      p_pool = sol_address (accounts ! i_pool), p_dex = RaydiumV4, p_kind = kind,
      p_actor = sol_address (accounts ! i_actor), p_log_index = li\<rparr>"

text \<open>
  The documented layouts: which data lengths and accounts each instruction needs, and the event.
\<close>

definition v4_layout ::
    "b58_decoder \<Rightarrow> bytes \<Rightarrow> string list \<Rightarrow> tx_hash \<Rightarrow> block_ref \<Rightarrow> date_time \<Rightarrow> u32 \<Rightarrow> byte \<Rightarrow> byte \<Rightarrow>
     decoded_event option \<Rightarrow> bool" where
  "v4_layout dec d accounts txh block block_time li din dout r =
     (if d ! 0 = 9 \<or> d ! 0 = 11 then
        17 \<le> length d \<and> accounts_ok dec accounts {1, 15, 16, 17} \<and>
        r = Some (DecodedSwap (v4_swap_of accounts txh block block_time li din dout (u64_at d 1) (u64_at d 9)))
      else if d ! 0 = 3 then
        17 \<le> length d \<and> accounts_ok dec accounts {1, 12} \<and>
        r = Some (DecodedPoolEvent (v4_pool_event_of accounts txh block block_time li 1 12
                    (PoolMint (ucast (u64_at d 1)) (ucast (u64_at d 9)) 0)))
      else if d ! 0 = 4 then
        9 \<le> length d \<and> accounts_ok dec accounts {1, 19} \<and>
        r = Some (DecodedPoolEvent (v4_pool_event_of accounts txh block block_time li 1 19
                    (PoolBurn 0 0 (ucast (u64_at d 1)))))
      else if d ! 0 = 1 then
        26 \<le> length d \<and> accounts_ok dec accounts {3, 7, 8, 16} \<and>
        r = Some (DecodedPoolEvent (v4_pool_event_of accounts txh block block_time li 3 16
                    (PoolInitialize (sol_address (accounts ! 7)) (sol_address (accounts ! 8)))))
      else r = None)"

lemma v4_decode_Ok:
  assumes "base58_codec enc dec"
  shows "v4_decode enc dec show_f64 program_id d accounts txh block block_time li din dout = Inr r \<longleftrightarrow>
     program_id = RAYDIUM_V4_PROGRAM_ID \<and> d \<noteq> [] \<and>
     v4_layout dec d accounts txh block block_time li din dout r"
proof -
  note Ok_simps = reader_Ok swap_from_accounts_Ok [OF assms] pool_event_at_Ok [OF assms] initialize_kind_Ok [OF assms]
  consider "d ! 0 = 9" | "d ! 0 = 11" | "d ! 0 = 3" | "d ! 0 = 4" | "d ! 0 = 1"
    | "d ! 0 \<notin> {9, 11, 3, 4, 1}" by auto
  then show ?thesis
    by cases (auto simp: v4_decode_def v4_layout_def v4_consts v4_arms v4_parsers Ok_simps accounts_ok_def
        v4_swap_of_def v4_pool_event_of_def u64_at_def Let_def)
qed

lemma v4_decode_Err:
  "v4_decode enc dec show_f64 RAYDIUM_V4_PROGRAM_ID d accounts txh block block_time li din dout = Inl e \<Longrightarrow>
     malformed v4_prog e"
  by (auto simp: v4_decode_def v4_arms v4_parsers and_then_eq_Inl read_u64_le_Err read_u8_Err get_account_Err Let_def
      split: if_splits dest: swap_from_accounts_Err pool_event_at_Err initialize_kind_Err)

end
