(* ===== verification/RaydiumCpmm.thy ===== *)
theory RaydiumCpmm
  imports DexSimulation
begin

text \<open>
  Raydium CPMM (\<open>crates/dex-adapter/src/solana/raydium_cpmm.rs\<close>): the decoder of Anchor
  instructions (8-byte discriminator, packed little-endian parameters), and the builder of
  \<open>swap_base_input\<close>. The decoder of the pool state is in \<open>PoolStates\<close>.
\<close>

named_theorems cpmm_consts

section \<open>Constants\<close>

definition RAYDIUM_CPMM_PROGRAM_ID :: string where
  "RAYDIUM_CPMM_PROGRAM_ID = ''CPMMoo8L3F4NbTegBCKVNunggL7H1ZpdTHKxQB5qKP1C''"

definition DISC_SWAP_BASE_INPUT :: bytes where [cpmm_consts]:
  "DISC_SWAP_BASE_INPUT = [0x8f, 0xbe, 0x5a, 0xda, 0xc4, 0x1e, 0x33, 0xde]"

definition DISC_SWAP_BASE_OUTPUT :: bytes where [cpmm_consts]:
  "DISC_SWAP_BASE_OUTPUT = [0x37, 0xd9, 0x62, 0x56, 0xa3, 0x4a, 0xb4, 0xad]"

definition CPMM_DISC_DEPOSIT :: bytes where [cpmm_consts]:
  "CPMM_DISC_DEPOSIT = [0xf2, 0x23, 0xc6, 0x89, 0x52, 0xe1, 0xf2, 0xb6]"

definition CPMM_DISC_WITHDRAW :: bytes where [cpmm_consts]:
  "CPMM_DISC_WITHDRAW = [0xb7, 0x12, 0x46, 0x9c, 0x94, 0x6d, 0xa1, 0x22]"

definition CPMM_DISC_INITIALIZE :: bytes where [cpmm_consts]:
  "CPMM_DISC_INITIALIZE = [0xaf, 0xaf, 0x6d, 0x1f, 0x0d, 0x98, 0x9b, 0xed]"

definition MIN_DATA_LEN :: usize where "MIN_DATA_LEN = 8"

definition ACC_SWAP_PAYER :: usize where [cpmm_consts]: "ACC_SWAP_PAYER = 0"

definition ACC_SWAP_POOL :: usize where [cpmm_consts]: "ACC_SWAP_POOL = 3"

definition ACC_SWAP_INPUT_MINT :: usize where [cpmm_consts]: "ACC_SWAP_INPUT_MINT = 10"

definition ACC_SWAP_OUTPUT_MINT :: usize where [cpmm_consts]: "ACC_SWAP_OUTPUT_MINT = 11"

definition CPMM_ACC_DEP_OWNER :: usize where [cpmm_consts]: "CPMM_ACC_DEP_OWNER = 0"

definition CPMM_ACC_DEP_POOL :: usize where [cpmm_consts]: "CPMM_ACC_DEP_POOL = 2"

definition CPMM_ACC_DEP_LP_MINT :: usize where [cpmm_consts]: "CPMM_ACC_DEP_LP_MINT = 12"

definition ACC_WIT_OWNER :: usize where [cpmm_consts]: "ACC_WIT_OWNER = 0"

definition ACC_WIT_POOL :: usize where [cpmm_consts]: "ACC_WIT_POOL = 2"

definition ACC_WIT_LP_MINT :: usize where [cpmm_consts]: "ACC_WIT_LP_MINT = 12"

definition ACC_INIT_CREATOR :: usize where [cpmm_consts]: "ACC_INIT_CREATOR = 0"

definition ACC_INIT_POOL :: usize where [cpmm_consts]: "ACC_INIT_POOL = 3"

definition ACC_INIT_TOKEN0_MINT :: usize where [cpmm_consts]: "ACC_INIT_TOKEN0_MINT = 4"

definition ACC_INIT_TOKEN1_MINT :: usize where [cpmm_consts]: "ACC_INIT_TOKEN1_MINT = 5"

definition PARAM_OFFSET :: usize where "PARAM_OFFSET = 8"

section \<open>The decoder\<close>

abbreviation "cpmm_prog \<equiv> ''RaydiumCPMM''"

definition check_discriminator :: "bytes \<Rightarrow> bytes \<Rightarrow> string \<Rightarrow> (unit, dex_adapter_error) result" where
  "check_discriminator d expected name =
     (if length d < MIN_DATA_LEN then Err (DataTooShort name 0 MIN_DATA_LEN (length d))
      else if take 8 d \<noteq> expected then Err (UnknownDiscriminator cpmm_prog (take 8 d))
      else Ok ())"

definition cpmm_swap ::
    "b58_encoder \<Rightarrow> b58_decoder \<Rightarrow> (u64 \<Rightarrow> string) \<Rightarrow> string list \<Rightarrow> tx_hash \<Rightarrow> block_ref \<Rightarrow> date_time \<Rightarrow> u32 \<Rightarrow>
     byte \<Rightarrow> byte \<Rightarrow> u64 \<Rightarrow> u64 \<Rightarrow> (decoded_event option, dex_adapter_error) result" where
  "cpmm_swap enc dec show_f64 accounts txh block block_time log_index decimals_in decimals_out amount_in amount_out =
     swap_from_accounts enc dec show_f64 cpmm_prog RaydiumCpmm accounts
       ACC_SWAP_POOL ''pool_state'' ACC_SWAP_PAYER ''payer'' ACC_SWAP_INPUT_MINT ''input_token_mint''
       ACC_SWAP_OUTPUT_MINT ''output_token_mint'' txh block block_time log_index
       (ucast amount_in) decimals_in (ucast amount_out) decimals_out"

definition decode_swap_base_input ::
    "b58_encoder \<Rightarrow> b58_decoder \<Rightarrow> (u64 \<Rightarrow> string) \<Rightarrow> bytes \<Rightarrow> string list \<Rightarrow> tx_hash \<Rightarrow> block_ref \<Rightarrow> date_time \<Rightarrow> u32 \<Rightarrow>
     byte \<Rightarrow> byte \<Rightarrow> (decoded_event option, dex_adapter_error) result" where
  "decode_swap_base_input enc dec show_f64 d accounts txh block block_time log_index decimals_in decimals_out =
     and_then (check_discriminator d DISC_SWAP_BASE_INPUT ''RaydiumCPMM::swap_base_input'') (\<lambda>_.
     and_then (read_u64_le d PARAM_OFFSET ''RaydiumCPMM::swap_base_input::amount_in'') (\<lambda>amount_in.
     and_then (read_u64_le d (PARAM_OFFSET + 8) ''RaydiumCPMM::swap_base_input::minimum_amount_out'')
       (\<lambda>minimum_amount_out.
     cpmm_swap enc dec show_f64 accounts txh block block_time log_index decimals_in decimals_out
       amount_in minimum_amount_out)))"

definition decode_swap_base_output ::
    "b58_encoder \<Rightarrow> b58_decoder \<Rightarrow> (u64 \<Rightarrow> string) \<Rightarrow> bytes \<Rightarrow> string list \<Rightarrow> tx_hash \<Rightarrow> block_ref \<Rightarrow> date_time \<Rightarrow> u32 \<Rightarrow>
     byte \<Rightarrow> byte \<Rightarrow> (decoded_event option, dex_adapter_error) result" where
  "decode_swap_base_output enc dec show_f64 d accounts txh block block_time log_index decimals_in decimals_out =
     and_then (check_discriminator d DISC_SWAP_BASE_OUTPUT ''RaydiumCPMM::swap_base_output'') (\<lambda>_.
     and_then (read_u64_le d PARAM_OFFSET ''RaydiumCPMM::swap_base_output::max_amount_in'') (\<lambda>max_amount_in.
     and_then (read_u64_le d (PARAM_OFFSET + 8) ''RaydiumCPMM::swap_base_output::amount_out'') (\<lambda>amount_out.
     cpmm_swap enc dec show_f64 accounts txh block block_time log_index decimals_in decimals_out
       max_amount_in amount_out)))"

definition decode_deposit ::
    "b58_encoder \<Rightarrow> b58_decoder \<Rightarrow> (u64 \<Rightarrow> string) \<Rightarrow> bytes \<Rightarrow> string list \<Rightarrow> tx_hash \<Rightarrow> block_ref \<Rightarrow> date_time \<Rightarrow> u32 \<Rightarrow>
     (decoded_event option, dex_adapter_error) result" where
  "decode_deposit enc dec show_f64 d accounts txh block block_time log_index =
     and_then (check_discriminator d CPMM_DISC_DEPOSIT ''RaydiumCPMM::deposit'') (\<lambda>_.
     and_then (read_u64_le d PARAM_OFFSET ''RaydiumCPMM::deposit::lp_token_amount'') (\<lambda>lp_amount.
     and_then (read_u64_le d (PARAM_OFFSET + 8) ''RaydiumCPMM::deposit::maximum_token_0_amount'') (\<lambda>max_token0.
     and_then (read_u64_le d (PARAM_OFFSET + 16) ''RaydiumCPMM::deposit::maximum_token_1_amount'') (\<lambda>max_token1.
     and_then (get_account accounts CPMM_ACC_DEP_POOL cpmm_prog ''pool_state'') (\<lambda>pool_addr.
     and_then (get_account accounts CPMM_ACC_DEP_OWNER cpmm_prog ''owner'') (\<lambda>owner_addr.
     and_then (get_account accounts CPMM_ACC_DEP_LP_MINT cpmm_prog ''lp_mint'') (\<lambda>_.
     pool_event_at enc dec show_f64 cpmm_prog RaydiumCpmm pool_addr CPMM_ACC_DEP_POOL owner_addr CPMM_ACC_DEP_OWNER
       txh block block_time log_index (Ok (PoolMint (ucast max_token0) (ucast max_token1) (ucast lp_amount))))))))))"

definition decode_withdraw ::
    "b58_encoder \<Rightarrow> b58_decoder \<Rightarrow> (u64 \<Rightarrow> string) \<Rightarrow> bytes \<Rightarrow> string list \<Rightarrow> tx_hash \<Rightarrow> block_ref \<Rightarrow> date_time \<Rightarrow> u32 \<Rightarrow>
     (decoded_event option, dex_adapter_error) result" where
  "decode_withdraw enc dec show_f64 d accounts txh block block_time log_index =
     and_then (check_discriminator d CPMM_DISC_WITHDRAW ''RaydiumCPMM::withdraw'') (\<lambda>_.
     and_then (read_u64_le d PARAM_OFFSET ''RaydiumCPMM::withdraw::lp_token_amount'') (\<lambda>lp_amount.
     and_then (read_u64_le d (PARAM_OFFSET + 8) ''RaydiumCPMM::withdraw::minimum_token_0_amount'') (\<lambda>min_token0.
     and_then (read_u64_le d (PARAM_OFFSET + 16) ''RaydiumCPMM::withdraw::minimum_token_1_amount'') (\<lambda>min_token1.
     and_then (get_account accounts ACC_WIT_POOL cpmm_prog ''pool_state'') (\<lambda>pool_addr.
     and_then (get_account accounts ACC_WIT_OWNER cpmm_prog ''owner'') (\<lambda>owner_addr.
     and_then (get_account accounts ACC_WIT_LP_MINT cpmm_prog ''lp_mint'') (\<lambda>_.
     pool_event_at enc dec show_f64 cpmm_prog RaydiumCpmm pool_addr ACC_WIT_POOL owner_addr ACC_WIT_OWNER
       txh block block_time log_index (Ok (PoolBurn (ucast min_token0) (ucast min_token1) (ucast lp_amount))))))))))"

definition decode_initialize ::
    "b58_encoder \<Rightarrow> b58_decoder \<Rightarrow> (u64 \<Rightarrow> string) \<Rightarrow> bytes \<Rightarrow> string list \<Rightarrow> tx_hash \<Rightarrow> block_ref \<Rightarrow> date_time \<Rightarrow> u32 \<Rightarrow>
     (decoded_event option, dex_adapter_error) result" where
  "decode_initialize enc dec show_f64 d accounts txh block block_time log_index =
     and_then (check_discriminator d CPMM_DISC_INITIALIZE ''RaydiumCPMM::initialize'') (\<lambda>_.
     and_then (read_u64_le d PARAM_OFFSET ''RaydiumCPMM::initialize::init_amount_0'') (\<lambda>_.
     and_then (read_u64_le d (PARAM_OFFSET + 8) ''RaydiumCPMM::initialize::init_amount_1'') (\<lambda>_.
     and_then (get_account accounts ACC_INIT_POOL cpmm_prog ''pool_state'') (\<lambda>pool_addr.
     and_then (get_account accounts ACC_INIT_CREATOR cpmm_prog ''creator'') (\<lambda>creator_addr.
     and_then (get_account accounts ACC_INIT_TOKEN0_MINT cpmm_prog ''token_0_mint'') (\<lambda>token0_addr.
     and_then (get_account accounts ACC_INIT_TOKEN1_MINT cpmm_prog ''token_1_mint'') (\<lambda>token1_addr.
     pool_event_at enc dec show_f64 cpmm_prog RaydiumCpmm pool_addr ACC_INIT_POOL creator_addr ACC_INIT_CREATOR
       txh block block_time log_index
       (initialize_kind enc dec show_f64 cpmm_prog token0_addr ACC_INIT_TOKEN0_MINT token1_addr ACC_INIT_TOKEN1_MINT))))))))"

definition cpmm_decode ::
    "b58_encoder \<Rightarrow> b58_decoder \<Rightarrow> (u64 \<Rightarrow> string) \<Rightarrow> string \<Rightarrow> bytes \<Rightarrow> string list \<Rightarrow> tx_hash \<Rightarrow> block_ref \<Rightarrow>
     date_time \<Rightarrow> u32 \<Rightarrow> byte \<Rightarrow> byte \<Rightarrow> (decoded_event option, dex_adapter_error) result" where
  "cpmm_decode enc dec show_f64 program_id d accounts txh block block_time log_index decimals_in decimals_out =
     (if program_id \<noteq> RAYDIUM_CPMM_PROGRAM_ID then Err (WrongProgram RAYDIUM_CPMM_PROGRAM_ID program_id)
      else if length d < MIN_DATA_LEN then Err (DataTooShort ''RaydiumCPMM::decode'' 0 MIN_DATA_LEN (length d))
      else
        let disc = take 8 d in
        if disc = DISC_SWAP_BASE_INPUT then
          decode_swap_base_input enc dec show_f64 d accounts txh block block_time log_index decimals_in decimals_out
        else if disc = DISC_SWAP_BASE_OUTPUT then
          decode_swap_base_output enc dec show_f64 d accounts txh block block_time log_index decimals_in decimals_out
        else if disc = CPMM_DISC_DEPOSIT then
          decode_deposit enc dec show_f64 d accounts txh block block_time log_index
        else if disc = CPMM_DISC_WITHDRAW then
          decode_withdraw enc dec show_f64 d accounts txh block block_time log_index
        else if disc = CPMM_DISC_INITIALIZE then
          decode_initialize enc dec show_f64 d accounts txh block block_time log_index
        else Ok None)"

section \<open>The swap builder\<close>

record raydium_cpmm_swap_accounts =
  cp_payer :: pubkey
  cp_authority :: pubkey
  cp_amm_config :: pubkey
  cp_pool_state :: pubkey
  cp_input_token_account :: pubkey
  cp_output_token_account :: pubkey
  cp_input_vault :: pubkey
  cp_output_vault :: pubkey
  cp_input_token_program :: pubkey
  cp_output_token_program :: pubkey
  cp_input_token_mint :: pubkey
  cp_output_token_mint :: pubkey
  cp_observation_state :: pubkey

definition build_swap_base_input_instruction ::
    "b58_decoder \<Rightarrow> raydium_cpmm_swap_accounts \<Rightarrow> u64 \<Rightarrow> u64 \<Rightarrow> instruction option" where
  "build_swap_base_input_instruction dec accounts amount_in minimum_amount_out =
     (let account_metas =
        [account_meta_new_readonly (cp_payer accounts) True,
         account_meta_new_readonly (cp_authority accounts) False,
         account_meta_new_readonly (cp_amm_config accounts) False,
         account_meta_new (cp_pool_state accounts) False,
         account_meta_new (cp_input_token_account accounts) False,
         account_meta_new (cp_output_token_account accounts) False,
         account_meta_new (cp_input_vault accounts) False,
         account_meta_new (cp_output_vault accounts) False,
         account_meta_new_readonly (cp_input_token_program accounts) False,
         account_meta_new_readonly (cp_output_token_program accounts) False,
         account_meta_new_readonly (cp_input_token_mint accounts) False,
         account_meta_new_readonly (cp_output_token_mint accounts) False,
         account_meta_new (cp_observation_state accounts) False];
          d = DISC_SWAP_BASE_INPUT @ to_le_bytes 8 amount_in @ to_le_bytes 8 minimum_amount_out
      in case pubkey_from_base58 dec RAYDIUM_CPMM_PROGRAM_ID of
           Inl _ \<Rightarrow> None
         | Inr program_id \<Rightarrow> Some \<lparr>ix_program_id = program_id, ix_accounts = account_metas, ix_data = d\<rparr>)"

definition CPMM_SIMULATION_COMPUTE_UNIT_LIMIT :: u32 where
  "CPMM_SIMULATION_COMPUTE_UNIT_LIMIT = 400000"

definition build_swap_base_input_transaction ::
    "b58_decoder \<Rightarrow> sign_fn \<Rightarrow> raydium_cpmm_swap_accounts \<Rightarrow> u64 \<Rightarrow> u64 \<Rightarrow> keypair \<Rightarrow> sol_hash \<Rightarrow> transaction option" where
  "build_swap_base_input_transaction dec sign accounts amount_in minimum_amount_out payer recent_blockhash =
     (let compute_budget_ix = build_set_compute_unit_limit_instruction CPMM_SIMULATION_COMPUTE_UNIT_LIMIT in
      case build_swap_base_input_instruction dec accounts amount_in minimum_amount_out of
        None \<Rightarrow> None
      | Some swap_ix \<Rightarrow>
          new_signed_with_payer sign [compute_budget_ix, swap_ix] (Some (kp_pubkey payer)) [payer] recent_blockhash)"

section \<open>Lemmas\<close>

lemmas cpmm_arms = decode_swap_base_input_def decode_swap_base_output_def decode_deposit_def decode_withdraw_def
  decode_initialize_def cpmm_swap_def

lemma check_discriminator_Ok: "check_discriminator d expected name = Inr u \<longleftrightarrow> 8 \<le> length d \<and> take 8 d = expected"
  by (auto simp: check_discriminator_def MIN_DATA_LEN_def)

lemma check_discriminator_same:
  "8 \<le> length d \<Longrightarrow> take 8 d = expected \<Longrightarrow> check_discriminator d expected name = Inr ()"
  by (simp add: check_discriminator_Ok)

lemma cpmm_discriminators_distinct:
  "distinct [DISC_SWAP_BASE_INPUT, DISC_SWAP_BASE_OUTPUT, CPMM_DISC_DEPOSIT, CPMM_DISC_WITHDRAW, CPMM_DISC_INITIALIZE]"
  by (simp add: cpmm_consts)

definition cpmm_swap_of ::
    "string list \<Rightarrow> tx_hash \<Rightarrow> block_ref \<Rightarrow> date_time \<Rightarrow> u32 \<Rightarrow> byte \<Rightarrow> byte \<Rightarrow> u64 \<Rightarrow> u64 \<Rightarrow> swap" where
  "cpmm_swap_of accounts txh block block_time li din dout amount_in amount_out =
     \<lparr>s_chain = Solana, s_tx_hash = txh, s_block = block, s_block_time = block_time,
      s_pool = sol_address (accounts ! 3), s_dex = RaydiumCpmm, s_sender = sol_address (accounts ! 0),
      s_token_in = sol_address (accounts ! 10), s_token_out = sol_address (accounts ! 11),
      s_amount_in_raw = ucast amount_in, s_decimals_in = din, s_amount_out_raw = ucast amount_out,
      s_decimals_out = dout, s_usd_value = None, s_log_index = li\<rparr>"

definition cpmm_pool_event_of ::
    "string list \<Rightarrow> tx_hash \<Rightarrow> block_ref \<Rightarrow> date_time \<Rightarrow> u32 \<Rightarrow> usize \<Rightarrow> pool_event_kind \<Rightarrow> pool_event" where
  "cpmm_pool_event_of accounts txh block block_time li i_pool kind =
     \<lparr>p_chain = Solana, p_tx_hash = txh, p_block = block, p_block_time = block_time,
      p_pool = sol_address (accounts ! i_pool), p_dex = RaydiumCpmm, p_kind = kind,
      p_actor = sol_address (accounts ! 0), p_log_index = li\<rparr>"

definition cpmm_layout ::
    "b58_decoder \<Rightarrow> bytes \<Rightarrow> string list \<Rightarrow> tx_hash \<Rightarrow> block_ref \<Rightarrow> date_time \<Rightarrow> u32 \<Rightarrow> byte \<Rightarrow> byte \<Rightarrow>
     decoded_event option \<Rightarrow> bool" where
  "cpmm_layout dec d accounts txh block block_time li din dout r =
     (let disc = take 8 d in
      if disc = DISC_SWAP_BASE_INPUT \<or> disc = DISC_SWAP_BASE_OUTPUT then
        24 \<le> length d \<and> accounts_ok dec accounts {0, 3, 10, 11} \<and>
        r = Some (DecodedSwap (cpmm_swap_of accounts txh block block_time li din dout (u64_at d 8) (u64_at d 16)))
      else if disc = CPMM_DISC_DEPOSIT then
        32 \<le> length d \<and> 13 \<le> length accounts \<and> accounts_ok dec accounts {0, 2} \<and>
        r = Some (DecodedPoolEvent (cpmm_pool_event_of accounts txh block block_time li 2
                    (PoolMint (ucast (u64_at d 16)) (ucast (u64_at d 24)) (ucast (u64_at d 8)))))
      else if disc = CPMM_DISC_WITHDRAW then
        32 \<le> length d \<and> 13 \<le> length accounts \<and> accounts_ok dec accounts {0, 2} \<and>
        r = Some (DecodedPoolEvent (cpmm_pool_event_of accounts txh block block_time li 2
                    (PoolBurn (ucast (u64_at d 16)) (ucast (u64_at d 24)) (ucast (u64_at d 8)))))
      else if disc = CPMM_DISC_INITIALIZE then
        24 \<le> length d \<and> accounts_ok dec accounts {0, 3, 4, 5} \<and>
        r = Some (DecodedPoolEvent (cpmm_pool_event_of accounts txh block block_time li 3
                    (PoolInitialize (sol_address (accounts ! 4)) (sol_address (accounts ! 5)))))
      else r = None)"

lemma cpmm_decode_Ok:
  assumes "base58_codec enc dec"
  shows "cpmm_decode enc dec show_f64 program_id d accounts txh block block_time li din dout = Inr r \<longleftrightarrow>
     program_id = RAYDIUM_CPMM_PROGRAM_ID \<and> 8 \<le> length d \<and>
     cpmm_layout dec d accounts txh block block_time li din dout r"
proof -
  note Ok_simps = reader_Ok swap_from_accounts_Ok [OF assms] pool_event_at_Ok [OF assms] initialize_kind_Ok [OF assms]
    check_discriminator_Ok
  note idx = ACC_SWAP_PAYER_def ACC_SWAP_POOL_def ACC_SWAP_INPUT_MINT_def ACC_SWAP_OUTPUT_MINT_def
    CPMM_ACC_DEP_OWNER_def CPMM_ACC_DEP_POOL_def CPMM_ACC_DEP_LP_MINT_def ACC_WIT_OWNER_def ACC_WIT_POOL_def
    ACC_WIT_LP_MINT_def ACC_INIT_CREATOR_def ACC_INIT_POOL_def ACC_INIT_TOKEN0_MINT_def ACC_INIT_TOKEN1_MINT_def
    PARAM_OFFSET_def MIN_DATA_LEN_def
  consider "take 8 d = DISC_SWAP_BASE_INPUT" | "take 8 d = DISC_SWAP_BASE_OUTPUT" | "take 8 d = CPMM_DISC_DEPOSIT"
    | "take 8 d = CPMM_DISC_WITHDRAW" | "take 8 d = CPMM_DISC_INITIALIZE"
    | "take 8 d \<notin> {DISC_SWAP_BASE_INPUT, DISC_SWAP_BASE_OUTPUT, CPMM_DISC_DEPOSIT, CPMM_DISC_WITHDRAW, CPMM_DISC_INITIALIZE}"
    by auto
  then show ?thesis
    using cpmm_discriminators_distinct
    by cases (auto simp: cpmm_decode_def cpmm_layout_def cpmm_arms Ok_simps accounts_ok_def idx
        cpmm_swap_of_def cpmm_pool_event_of_def u64_at_def Let_def)
qed

lemma cpmm_decode_Err:
  "cpmm_decode enc dec show_f64 RAYDIUM_CPMM_PROGRAM_ID d accounts txh block block_time li din dout = Inl e \<Longrightarrow>
     malformed cpmm_prog e"
  by (auto simp: cpmm_decode_def cpmm_arms and_then_eq_Inl read_u64_le_Err get_account_Err check_discriminator_same Let_def
      MIN_DATA_LEN_def split: if_splits dest: swap_from_accounts_Err pool_event_at_Err initialize_kind_Err)

end
