(* ===== verification/PoolStates.thy ===== *)
theory PoolStates
  imports DexCommon
begin

text \<open>
  The account states a Raydium swap needs (\<open>crates/dex-adapter/src/solana\<close>:
  \<open>raydium_v4_state.rs\<close>, \<open>openbook_market.rs\<close>, the pool state part of \<open>raydium_cpmm.rs\<close>). The
  decoders read fields at fixed offsets; the layouts are the documented field tables, and the
  lemmas show that each decoder returns the fields of its table.
\<close>

named_theorems offset_defs

text \<open>The closure \<open>read_pubkey\<close>; \<open>read_u64\<close> is \<^const>\<open>u64_at\<close>. The callers have checked the bounds.\<close>

definition pubkey_at :: "bytes \<Rightarrow> usize \<Rightarrow> pubkey" where
  "pubkey_at d off = Pubkey (slice d off (off + 32))"

section \<open>Raydium AMM v4\<close>

definition AMM_V4_POOL_STATE_SIZE :: usize where
  "AMM_V4_POOL_STATE_SIZE = 752"

record amm_v4_pool_state =
  a4_status :: u64
  a4_nonce :: u64
  a4_coin_decimals :: u64
  a4_pc_decimals :: u64
  a4_coin_vault :: pubkey
  a4_pc_vault :: pubkey
  a4_coin_vault_mint :: pubkey
  a4_pc_vault_mint :: pubkey
  a4_lp_mint :: pubkey
  a4_open_orders :: pubkey
  a4_market :: pubkey
  a4_market_program :: pubkey
  a4_target_orders :: pubkey
  a4_withdraw_queue :: pubkey
  a4_lp_vault :: pubkey
  a4_owner :: pubkey
  a4_pnl_owner :: pubkey

datatype amm_v4_decode_error = A4TooShort usize usize | A4WrongOwner pubkey pubkey

definition decode_amm_v4_pool_state :: "bytes \<Rightarrow> (amm_v4_pool_state, amm_v4_decode_error) result" where
  "decode_amm_v4_pool_state d =
     (if length d < AMM_V4_POOL_STATE_SIZE then Err (A4TooShort AMM_V4_POOL_STATE_SIZE (length d))
      else Ok
        \<lparr>a4_status = u64_at d 0, a4_nonce = u64_at d 8, a4_coin_decimals = u64_at d 32, a4_pc_decimals = u64_at d 40,
         a4_coin_vault = pubkey_at d 336, a4_pc_vault = pubkey_at d 368, a4_coin_vault_mint = pubkey_at d 400,
         a4_pc_vault_mint = pubkey_at d 432, a4_lp_mint = pubkey_at d 464, a4_open_orders = pubkey_at d 496,
         a4_market = pubkey_at d 528, a4_market_program = pubkey_at d 560, a4_target_orders = pubkey_at d 592,
         a4_withdraw_queue = pubkey_at d 624, a4_lp_vault = pubkey_at d 656, a4_owner = pubkey_at d 688,
         a4_pnl_owner = pubkey_at d 720\<rparr>)"

section \<open>OpenBook and Serum markets\<close>

definition SERUM_MAGIC_LEN :: usize where [offset_defs]: "SERUM_MAGIC_LEN = 5"

definition ACCOUNT_FLAGS_LEN :: usize where [offset_defs]: "ACCOUNT_FLAGS_LEN = 8"

definition MARKET_STATE_HEADER_LEN :: usize where [offset_defs]:
  "MARKET_STATE_HEADER_LEN = SERUM_MAGIC_LEN + ACCOUNT_FLAGS_LEN"

definition OFF_OWN_ADDRESS :: usize where [offset_defs]: "OFF_OWN_ADDRESS = MARKET_STATE_HEADER_LEN"

definition OFF_VAULT_SIGNER_NONCE :: usize where [offset_defs]: "OFF_VAULT_SIGNER_NONCE = OFF_OWN_ADDRESS + 32"

definition OFF_COIN_MINT :: usize where [offset_defs]: "OFF_COIN_MINT = OFF_VAULT_SIGNER_NONCE + 8"

definition OFF_PC_MINT :: usize where [offset_defs]: "OFF_PC_MINT = OFF_COIN_MINT + 32"

definition OFF_COIN_VAULT :: usize where [offset_defs]: "OFF_COIN_VAULT = OFF_PC_MINT + 32"

definition OFF_PC_VAULT :: usize where [offset_defs]: "OFF_PC_VAULT = OFF_COIN_VAULT + 32 + 8 + 8"

definition OFF_REQ_Q :: usize where [offset_defs]: "OFF_REQ_Q = OFF_PC_VAULT + 32 + 8 + 8 + 8"

definition OFF_EVENT_Q :: usize where [offset_defs]: "OFF_EVENT_Q = OFF_REQ_Q + 32"

definition OFF_BIDS :: usize where [offset_defs]: "OFF_BIDS = OFF_EVENT_Q + 32"

definition OFF_ASKS :: usize where [offset_defs]: "OFF_ASKS = OFF_BIDS + 32"

definition MARKET_STATE_MIN_SIZE :: usize where [offset_defs]: "MARKET_STATE_MIN_SIZE = OFF_ASKS + 32"

record openbook_market_state =
  ob_vault_signer_nonce :: u64
  ob_coin_mint :: pubkey
  ob_pc_mint :: pubkey
  ob_coin_vault :: pubkey
  ob_pc_vault :: pubkey
  ob_bids :: pubkey
  ob_asks :: pubkey
  ob_event_queue :: pubkey

datatype market_state_decode_error = ObTooShort usize usize | MissingMagic

datatype market_signer_error = InvalidNonce u64

definition decode_openbook_market_state :: "bytes \<Rightarrow> (openbook_market_state, market_state_decode_error) result" where
  "decode_openbook_market_state d =
     (if length d < MARKET_STATE_MIN_SIZE then Err (ObTooShort MARKET_STATE_MIN_SIZE (length d))
      else if take 5 d \<noteq> bytes_of_string ''serum'' then Err MissingMagic
      else Ok
        \<lparr>ob_vault_signer_nonce = u64_at d OFF_VAULT_SIGNER_NONCE, ob_coin_mint = pubkey_at d OFF_COIN_MINT,
         ob_pc_mint = pubkey_at d OFF_PC_MINT, ob_coin_vault = pubkey_at d OFF_COIN_VAULT,
         ob_pc_vault = pubkey_at d OFF_PC_VAULT, ob_bids = pubkey_at d OFF_BIDS, ob_asks = pubkey_at d OFF_ASKS,
         ob_event_queue = pubkey_at d OFF_EVENT_Q\<rparr>)"

definition derive_market_vault_signer ::
    "hash_fn \<Rightarrow> (bytes \<Rightarrow> bool) \<Rightarrow> pubkey \<Rightarrow> u64 \<Rightarrow> pubkey \<Rightarrow> (pubkey, market_signer_error) result" where
  "derive_market_vault_signer sha256 on_curve market nonce market_program =
     (let nonce_bytes = to_le_bytes 8 nonce in
      map_err (\<lambda>_. InvalidNonce nonce)
        (create_program_address sha256 on_curve [pubkey_bytes market, nonce_bytes] market_program))"

section \<open>Raydium CPMM pool state\<close>

definition CPMM_POOL_STATE_DISCRIMINATOR :: bytes where
  "CPMM_POOL_STATE_DISCRIMINATOR = [0xf7, 0xed, 0xe3, 0xf5, 0xd7, 0xc3, 0xde, 0x46]"

definition CPMM_POOL_STATE_SIZE :: usize where
  "CPMM_POOL_STATE_SIZE = 637"

record cpmm_pool_state =
  cs_amm_config :: pubkey
  cs_pool_creator :: pubkey
  cs_token_0_vault :: pubkey
  cs_token_1_vault :: pubkey
  cs_lp_mint :: pubkey
  cs_token_0_mint :: pubkey
  cs_token_1_mint :: pubkey
  cs_token_0_program :: pubkey
  cs_token_1_program :: pubkey
  cs_observation_key :: pubkey
  cs_auth_bump :: byte

datatype pool_state_decode_error =
    CpTooShort usize usize
  | BadDiscriminator bytes bytes
  | CpWrongOwner pubkey pubkey

definition decode_cpmm_pool_state :: "bytes \<Rightarrow> (cpmm_pool_state, pool_state_decode_error) result" where
  "decode_cpmm_pool_state d =
     (if length d < CPMM_POOL_STATE_SIZE then Err (CpTooShort CPMM_POOL_STATE_SIZE (length d))
      else
        let got_disc = take 8 d in
        if got_disc \<noteq> CPMM_POOL_STATE_DISCRIMINATOR then Err (BadDiscriminator CPMM_POOL_STATE_DISCRIMINATOR got_disc)
        else Ok
          \<lparr>cs_amm_config = pubkey_at d 8, cs_pool_creator = pubkey_at d 40, cs_token_0_vault = pubkey_at d 72,
           cs_token_1_vault = pubkey_at d 104, cs_lp_mint = pubkey_at d 136, cs_token_0_mint = pubkey_at d 168,
           cs_token_1_mint = pubkey_at d 200, cs_token_0_program = pubkey_at d 232, cs_token_1_program = pubkey_at d 264,
           cs_observation_key = pubkey_at d 296, cs_auth_bump = d ! 328\<rparr>)"

section \<open>Layouts\<close>

text \<open>A layout lists field names and widths; a field's offset is the sum of the widths before it.\<close>

type_synonym layout = "(string \<times> nat) list"

fun layout_offset :: "layout \<Rightarrow> string \<Rightarrow> nat" where
  "layout_offset [] nm = 0"
| "layout_offset ((n, w) # L) nm = (if n = nm then 0 else w + layout_offset L nm)"

definition layout_size :: "layout \<Rightarrow> nat" where
  "layout_size L = sum_list (map snd L)"

definition layout_image :: "layout \<Rightarrow> (string \<Rightarrow> bytes) \<Rightarrow> bytes" where
  "layout_image L f = concat (map (f \<circ> fst) L)"

definition fits :: "layout \<Rightarrow> (string \<Rightarrow> bytes) \<Rightarrow> bool" where
  "fits L f = list_all (\<lambda>(n, w). length (f n) = w) L"

lemma length_layout_image: "fits L f \<Longrightarrow> length (layout_image L f) = layout_size L"
  by (induction L) (auto simp: fits_def layout_image_def layout_size_def)

lemma slice_shift: "slice (xs @ ys) (length xs + i) (length xs + j) = slice ys i j"
  by (simp add: slice_def)

lemma layout_field:
  "fits L f \<Longrightarrow> map_of L nm = Some w \<Longrightarrow>
     slice (layout_image L f @ rest) (layout_offset L nm) (layout_offset L nm + w) = f nm"
proof (induction L)
  case (Cons a L)
  obtain n v where a: "a = (n, v)" by fastforce
  show ?case
  proof (cases "n = nm")
    case True
    with Cons.prems a show ?thesis by (simp add: fits_def layout_image_def slice_def)
  next
    case False
    with Cons a have "slice (layout_image L f @ rest) (layout_offset L nm) (layout_offset L nm + w) = f nm"
      by (simp add: fits_def)
    moreover have "length (f n) = v" using Cons.prems a by (simp add: fits_def)
    ultimately show ?thesis
      using a False slice_shift [of "f n" "layout_image L f @ rest"] by (simp add: layout_image_def add.assoc)
  qed
qed simp

text \<open>Every string of sufficient length is an image of the layout.\<close>

definition layout_fields :: "layout \<Rightarrow> bytes \<Rightarrow> string \<Rightarrow> bytes" where
  "layout_fields L d nm = (case map_of L nm of
       Some w \<Rightarrow> slice d (layout_offset L nm) (layout_offset L nm + w) | None \<Rightarrow> [])"

lemma layout_fields_shift:
  "n \<notin> fst ` set L \<Longrightarrow> m \<in> fst ` set L \<Longrightarrow> w \<le> length d \<Longrightarrow>
   layout_fields ((n, w) # L) d m = layout_fields L (drop w d) m"
  by (auto simp: layout_fields_def slice_def add.commute split: option.split)

lemma layout_fields_image:
  "distinct (map fst L) \<Longrightarrow> layout_size L \<le> length d \<Longrightarrow>
     fits L (layout_fields L d) \<and> layout_image L (layout_fields L d) @ drop (layout_size L) d = d"
proof (induction L arbitrary: d)
  case (Cons a L)
  obtain n w where a: "a = (n, w)" by fastforce
  have w: "w \<le> length d" "layout_size L \<le> length (drop w d)"
    using Cons.prems(2) a by (auto simp: layout_size_def)
  have n: "n \<notin> fst ` set L" and dL: "distinct (map fst L)" using Cons.prems(1) a by auto
  note shift = layout_fields_shift [OF n _ w(1)]
  have same: "layout_fields ((n, w) # L) d m = layout_fields L (drop w d) m" if "(m, v) \<in> set L" for m v
    using that by (intro shift) force
  have img: "layout_image L (layout_fields ((n, w) # L) d) = layout_image L (layout_fields L (drop w d))"
    unfolding layout_image_def by (rule arg_cong [where f = concat], rule map_cong) (auto simp: same)
  have hd: "layout_fields ((n, w) # L) d n = take w d"
    by (simp add: layout_fields_def slice_def)
  have "fits L (layout_fields ((n, w) # L) d)"
    using Cons.IH [OF dL w(2)] unfolding fits_def list_all_iff by (auto simp: same)
  moreover have "drop (w + layout_size L) d = drop (layout_size L) (drop w d)"
    by (simp add: add.commute)
  ultimately show ?case
    using Cons.IH [OF dL w(2)] w(1) hd img a
    by (simp add: fits_def layout_image_def layout_size_def del: drop_drop)
qed (simp add: fits_def layout_image_def layout_size_def)

text \<open>The field tables of the documentation: \<open>AmmInfo\<close>, \<open>MarketState\<close> with its header, \<open>PoolState\<close>.\<close>

definition AMM_INFO :: layout where
  "AMM_INFO =
    [(''status'', 8), (''nonce'', 8), (''order_num'', 8), (''depth'', 8), (''coin_decimals'', 8),
     (''pc_decimals'', 8), (''state'', 8), (''reset_flag'', 8), (''min_size'', 8), (''vol_max_cut_ratio'', 8),
     (''amount_wave'', 8), (''coin_lot_size'', 8), (''pc_lot_size'', 8), (''min_price_multiplier'', 8),
     (''max_price_multiplier'', 8), (''sys_decimal_value'', 8), (''min_separate_numerator'', 8),
     (''min_separate_denominator'', 8), (''trade_fee_numerator'', 8), (''trade_fee_denominator'', 8),
     (''pnl_numerator'', 8), (''pnl_denominator'', 8), (''swap_fee_numerator'', 8),
     (''swap_fee_denominator'', 8), (''need_take_pnl_coin'', 8), (''need_take_pnl_pc'', 8),
     (''total_pnl_pc'', 8), (''total_pnl_coin'', 8), (''pool_total_deposit_pc'', 16),
     (''pool_total_deposit_coin'', 16), (''swap_coin_in_amount'', 16), (''swap_pc_out_amount'', 16),
     (''swap_coin2_pc_fee'', 8), (''swap_pc_in_amount'', 16), (''swap_coin_out_amount'', 16),
     (''swap_pc2_coin_fee'', 8), (''coin_vault'', 32), (''pc_vault'', 32), (''coin_vault_mint'', 32),
     (''pc_vault_mint'', 32), (''lp_mint'', 32), (''open_orders'', 32), (''market'', 32),
     (''market_program'', 32), (''target_orders'', 32), (''withdraw_queue'', 32), (''lp_vault'', 32),
     (''owner'', 32), (''pnl_owner'', 32)]"

definition MARKET_STATE :: layout where
  "MARKET_STATE =
    [(''magic'', 5), (''account_flags'', 8), (''own_address'', 32), (''vault_signer_nonce'', 8),
     (''coin_mint'', 32), (''pc_mint'', 32), (''coin_vault'', 32), (''coin_deposits_total'', 8),
     (''coin_fees_accrued'', 8), (''pc_vault'', 32), (''pc_deposits_total'', 8), (''pc_fees_accrued'', 8),
     (''pc_dust_threshold'', 8), (''req_q'', 32), (''event_q'', 32), (''bids'', 32), (''asks'', 32)]"

definition CPMM_POOL_STATE :: layout where
  "CPMM_POOL_STATE =
    [(''discriminator'', 8), (''amm_config'', 32), (''pool_creator'', 32), (''token_0_vault'', 32),
     (''token_1_vault'', 32), (''lp_mint'', 32), (''token_0_mint'', 32), (''token_1_mint'', 32),
     (''token_0_program'', 32), (''token_1_program'', 32), (''observation_key'', 32), (''auth_bump'', 1),
     (''remaining'', 308)]"

lemmas layouts = AMM_INFO_def MARKET_STATE_def CPMM_POOL_STATE_def

lemma layout_sizes:
  "layout_size AMM_INFO = 752" "layout_size MARKET_STATE = 349" "layout_size CPMM_POOL_STATE = 637"
  by (simp_all add: layouts layout_size_def)

text \<open>The states that field values describe.\<close>

abbreviation "u64_field f nm \<equiv> from_le_bytes (f nm) :: u64"

definition amm_v4_of :: "(string \<Rightarrow> bytes) \<Rightarrow> amm_v4_pool_state" where
  "amm_v4_of f =
     \<lparr>a4_status = u64_field f ''status'', a4_nonce = u64_field f ''nonce'',
      a4_coin_decimals = u64_field f ''coin_decimals'', a4_pc_decimals = u64_field f ''pc_decimals'',
      a4_coin_vault = Pubkey (f ''coin_vault''), a4_pc_vault = Pubkey (f ''pc_vault''),
      a4_coin_vault_mint = Pubkey (f ''coin_vault_mint''), a4_pc_vault_mint = Pubkey (f ''pc_vault_mint''),
      a4_lp_mint = Pubkey (f ''lp_mint''), a4_open_orders = Pubkey (f ''open_orders''),
      a4_market = Pubkey (f ''market''), a4_market_program = Pubkey (f ''market_program''),
      a4_target_orders = Pubkey (f ''target_orders''), a4_withdraw_queue = Pubkey (f ''withdraw_queue''),
      a4_lp_vault = Pubkey (f ''lp_vault''), a4_owner = Pubkey (f ''owner''), a4_pnl_owner = Pubkey (f ''pnl_owner'')\<rparr>"

definition openbook_of :: "(string \<Rightarrow> bytes) \<Rightarrow> openbook_market_state" where
  "openbook_of f =
     \<lparr>ob_vault_signer_nonce = u64_field f ''vault_signer_nonce'', ob_coin_mint = Pubkey (f ''coin_mint''),
      ob_pc_mint = Pubkey (f ''pc_mint''), ob_coin_vault = Pubkey (f ''coin_vault''), ob_pc_vault = Pubkey (f ''pc_vault''),
      ob_bids = Pubkey (f ''bids''), ob_asks = Pubkey (f ''asks''), ob_event_queue = Pubkey (f ''event_q'')\<rparr>"

definition cpmm_state_of :: "(string \<Rightarrow> bytes) \<Rightarrow> cpmm_pool_state" where
  "cpmm_state_of f =
     \<lparr>cs_amm_config = Pubkey (f ''amm_config''), cs_pool_creator = Pubkey (f ''pool_creator''),
      cs_token_0_vault = Pubkey (f ''token_0_vault''), cs_token_1_vault = Pubkey (f ''token_1_vault''),
      cs_lp_mint = Pubkey (f ''lp_mint''), cs_token_0_mint = Pubkey (f ''token_0_mint''),
      cs_token_1_mint = Pubkey (f ''token_1_mint''), cs_token_0_program = Pubkey (f ''token_0_program''),
      cs_token_1_program = Pubkey (f ''token_1_program''), cs_observation_key = Pubkey (f ''observation_key''),
      cs_auth_bump = hd (f ''auth_bump'')\<rparr>"

text \<open>One field of an image, read at a literal offset.\<close>

lemma pubkey_field:
  "fits L f \<Longrightarrow> map_of L nm = Some 32 \<Longrightarrow> layout_offset L nm = i \<Longrightarrow>
     pubkey_at (layout_image L f @ rest) i = Pubkey (f nm)"
  using layout_field [of L f nm 32 rest] by (simp add: pubkey_at_def)

lemma u64_field_at:
  "fits L f \<Longrightarrow> map_of L nm = Some 8 \<Longrightarrow> layout_offset L nm = i \<Longrightarrow>
     u64_at (layout_image L f @ rest) i = u64_field f nm"
  using layout_field [of L f nm 8 rest] by (simp add: u64_at_def)

text \<open>The offsets and widths that the tables give the fields the decoders read.\<close>

lemma amm_v4_offsets:
  "map (\<lambda>n. (layout_offset AMM_INFO n, map_of AMM_INFO n))
     [''status'', ''nonce'', ''coin_decimals'', ''pc_decimals'', ''coin_vault'', ''pc_vault'',
      ''coin_vault_mint'', ''pc_vault_mint'', ''lp_mint'', ''open_orders'', ''market'',
      ''market_program'', ''target_orders'', ''withdraw_queue'', ''lp_vault'', ''owner'', ''pnl_owner''] =
     [(0, Some 8), (8, Some 8), (32, Some 8), (40, Some 8), (336, Some 32), (368, Some 32),
      (400, Some 32), (432, Some 32), (464, Some 32), (496, Some 32), (528, Some 32), (560, Some 32),
      (592, Some 32), (624, Some 32), (656, Some 32), (688, Some 32), (720, Some 32)]"
  by code_simp

lemma market_offsets:
  "map (\<lambda>n. (layout_offset MARKET_STATE n, map_of MARKET_STATE n))
     [''vault_signer_nonce'', ''coin_mint'', ''pc_mint'', ''coin_vault'', ''pc_vault'', ''event_q'',
      ''bids'', ''asks'', ''magic''] =
     [(45, Some 8), (53, Some 32), (85, Some 32), (117, Some 32), (165, Some 32), (253, Some 32),
      (285, Some 32), (317, Some 32), (0, Some 5)]"
  by code_simp

lemma cpmm_offsets:
  "map (\<lambda>n. (layout_offset CPMM_POOL_STATE n, map_of CPMM_POOL_STATE n))
     [''amm_config'', ''pool_creator'', ''token_0_vault'', ''token_1_vault'', ''lp_mint'',
      ''token_0_mint'', ''token_1_mint'', ''token_0_program'', ''token_1_program'',
      ''observation_key'', ''auth_bump'', ''discriminator''] =
     [(8, Some 32), (40, Some 32), (72, Some 32), (104, Some 32), (136, Some 32), (168, Some 32),
      (200, Some 32), (232, Some 32), (264, Some 32), (296, Some 32), (328, Some 1), (0, Some 8)]"
  by code_simp

lemma amm_v4_fields:
  assumes "fits AMM_INFO f"
  shows
    "u64_at (layout_image AMM_INFO f @ rest) 0 = u64_field f ''status''"
    "u64_at (layout_image AMM_INFO f @ rest) 8 = u64_field f ''nonce''"
    "u64_at (layout_image AMM_INFO f @ rest) 32 = u64_field f ''coin_decimals''"
    "u64_at (layout_image AMM_INFO f @ rest) 40 = u64_field f ''pc_decimals''"
    "pubkey_at (layout_image AMM_INFO f @ rest) 336 = Pubkey (f ''coin_vault'')"
    "pubkey_at (layout_image AMM_INFO f @ rest) 368 = Pubkey (f ''pc_vault'')"
    "pubkey_at (layout_image AMM_INFO f @ rest) 400 = Pubkey (f ''coin_vault_mint'')"
    "pubkey_at (layout_image AMM_INFO f @ rest) 432 = Pubkey (f ''pc_vault_mint'')"
    "pubkey_at (layout_image AMM_INFO f @ rest) 464 = Pubkey (f ''lp_mint'')"
    "pubkey_at (layout_image AMM_INFO f @ rest) 496 = Pubkey (f ''open_orders'')"
    "pubkey_at (layout_image AMM_INFO f @ rest) 528 = Pubkey (f ''market'')"
    "pubkey_at (layout_image AMM_INFO f @ rest) 560 = Pubkey (f ''market_program'')"
    "pubkey_at (layout_image AMM_INFO f @ rest) 592 = Pubkey (f ''target_orders'')"
    "pubkey_at (layout_image AMM_INFO f @ rest) 624 = Pubkey (f ''withdraw_queue'')"
    "pubkey_at (layout_image AMM_INFO f @ rest) 656 = Pubkey (f ''lp_vault'')"
    "pubkey_at (layout_image AMM_INFO f @ rest) 688 = Pubkey (f ''owner'')"
    "pubkey_at (layout_image AMM_INFO f @ rest) 720 = Pubkey (f ''pnl_owner'')"
  using amm_v4_offsets by (simp_all add: pubkey_field [OF assms] u64_field_at [OF assms])

lemma market_fields:
  assumes "fits MARKET_STATE f"
  shows
    "u64_at (layout_image MARKET_STATE f @ rest) OFF_VAULT_SIGNER_NONCE = u64_field f ''vault_signer_nonce''"
    "pubkey_at (layout_image MARKET_STATE f @ rest) OFF_COIN_MINT = Pubkey (f ''coin_mint'')"
    "pubkey_at (layout_image MARKET_STATE f @ rest) OFF_PC_MINT = Pubkey (f ''pc_mint'')"
    "pubkey_at (layout_image MARKET_STATE f @ rest) OFF_COIN_VAULT = Pubkey (f ''coin_vault'')"
    "pubkey_at (layout_image MARKET_STATE f @ rest) OFF_PC_VAULT = Pubkey (f ''pc_vault'')"
    "pubkey_at (layout_image MARKET_STATE f @ rest) OFF_EVENT_Q = Pubkey (f ''event_q'')"
    "pubkey_at (layout_image MARKET_STATE f @ rest) OFF_BIDS = Pubkey (f ''bids'')"
    "pubkey_at (layout_image MARKET_STATE f @ rest) OFF_ASKS = Pubkey (f ''asks'')"
  using market_offsets by (simp_all add: pubkey_field [OF assms] u64_field_at [OF assms] offset_defs)

lemma cpmm_fields:
  assumes "fits CPMM_POOL_STATE f"
  shows
    "pubkey_at (layout_image CPMM_POOL_STATE f @ rest) 8 = Pubkey (f ''amm_config'')"
    "pubkey_at (layout_image CPMM_POOL_STATE f @ rest) 40 = Pubkey (f ''pool_creator'')"
    "pubkey_at (layout_image CPMM_POOL_STATE f @ rest) 72 = Pubkey (f ''token_0_vault'')"
    "pubkey_at (layout_image CPMM_POOL_STATE f @ rest) 104 = Pubkey (f ''token_1_vault'')"
    "pubkey_at (layout_image CPMM_POOL_STATE f @ rest) 136 = Pubkey (f ''lp_mint'')"
    "pubkey_at (layout_image CPMM_POOL_STATE f @ rest) 168 = Pubkey (f ''token_0_mint'')"
    "pubkey_at (layout_image CPMM_POOL_STATE f @ rest) 200 = Pubkey (f ''token_1_mint'')"
    "pubkey_at (layout_image CPMM_POOL_STATE f @ rest) 232 = Pubkey (f ''token_0_program'')"
    "pubkey_at (layout_image CPMM_POOL_STATE f @ rest) 264 = Pubkey (f ''token_1_program'')"
    "pubkey_at (layout_image CPMM_POOL_STATE f @ rest) 296 = Pubkey (f ''observation_key'')"
  using cpmm_offsets by (simp_all add: pubkey_field [OF assms])

lemma decode_amm_v4_image:
  assumes "fits AMM_INFO f"
  shows "decode_amm_v4_pool_state (layout_image AMM_INFO f @ rest) = Ok (amm_v4_of f)"
  using length_layout_image [OF assms]
  by (simp add: decode_amm_v4_pool_state_def AMM_V4_POOL_STATE_SIZE_def layout_sizes amm_v4_of_def amm_v4_fields [OF assms])

lemma first_field:
  "fits L f \<Longrightarrow> map_of L nm = Some w \<Longrightarrow> layout_offset L nm = 0 \<Longrightarrow> take w (layout_image L f @ rest) = f nm"
  using layout_field [of L f nm w rest] by (simp add: slice_def)

lemma decode_openbook_image:
  assumes "fits MARKET_STATE f"
  shows "decode_openbook_market_state (layout_image MARKET_STATE f @ rest) =
    (if f ''magic'' = bytes_of_string ''serum'' then Ok (openbook_of f) else Err MissingMagic)"
proof -
  have "take 5 (layout_image MARKET_STATE f @ rest) = f ''magic''"
    by (rule first_field [OF assms]) (use market_offsets in simp_all)
  moreover have "MARKET_STATE_MIN_SIZE = 349" by (simp add: offset_defs)
  ultimately show ?thesis
    using length_layout_image [OF assms]
    by (simp add: decode_openbook_market_state_def layout_sizes openbook_of_def market_fields [OF assms])
qed

lemma decode_cpmm_image:
  assumes "fits CPMM_POOL_STATE f"
  shows "decode_cpmm_pool_state (layout_image CPMM_POOL_STATE f @ rest) =
    (if f ''discriminator'' = CPMM_POOL_STATE_DISCRIMINATOR then Ok (cpmm_state_of f)
     else Err (BadDiscriminator CPMM_POOL_STATE_DISCRIMINATOR (f ''discriminator'')))"
proof -
  let ?d = "layout_image CPMM_POOL_STATE f @ rest"
  have disc: "take 8 ?d = f ''discriminator''"
    by (rule first_field [OF assms]) (use cpmm_offsets in simp_all)
  have len: "length (layout_image CPMM_POOL_STATE f) = 637"
    using length_layout_image [OF assms] by (simp add: layout_sizes)
  have "slice ?d 328 329 = f ''auth_bump''"
    using layout_field [OF assms, of "''auth_bump''" 1 rest] cpmm_offsets by simp
  moreover have "slice ?d 328 329 = [?d ! 328]"
    using len by (simp add: slice_def hd_drop_conv_nth take_Suc nth_append)
  ultimately have "?d ! 328 = hd (f ''auth_bump'')" by (metis list.sel(1))
  then show ?thesis
    using len disc
    by (simp add: decode_cpmm_pool_state_def CPMM_POOL_STATE_SIZE_def cpmm_state_of_def cpmm_fields [OF assms])
qed

section \<open>Properties\<close>

text \<open>
  C30: The three account decoders read exactly the documented layouts. Data shorter than the layout
  is rejected with its length; longer data is read as the layout's fields, wherever the layout
  puts them, and bytes after the layout do not matter. The market decoder also checks the magic
  field and the CPMM decoder the discriminator. Every data of sufficient length is such an image.
\<close>

theorem pool_state_layouts:
  "(length d < 752 \<longrightarrow> decode_amm_v4_pool_state d = Err (A4TooShort 752 (length d))) \<and>
   (length d < 349 \<longrightarrow> decode_openbook_market_state d = Err (ObTooShort 349 (length d))) \<and>
   (length d < 637 \<longrightarrow> decode_cpmm_pool_state d = Err (CpTooShort 637 (length d))) \<and>
   (fits AMM_INFO f \<longrightarrow> decode_amm_v4_pool_state (layout_image AMM_INFO f @ rest) = Ok (amm_v4_of f)) \<and>
   (fits MARKET_STATE f \<longrightarrow>
      decode_openbook_market_state (layout_image MARKET_STATE f @ rest) =
        (if f ''magic'' = bytes_of_string ''serum'' then Ok (openbook_of f) else Err MissingMagic)) \<and>
   (fits CPMM_POOL_STATE f \<longrightarrow>
      decode_cpmm_pool_state (layout_image CPMM_POOL_STATE f @ rest) =
        (if f ''discriminator'' = CPMM_POOL_STATE_DISCRIMINATOR then Ok (cpmm_state_of f)
         else Err (BadDiscriminator CPMM_POOL_STATE_DISCRIMINATOR (f ''discriminator'')))) \<and>
   (\<forall>L \<in> {AMM_INFO, MARKET_STATE, CPMM_POOL_STATE}. layout_size L \<le> length d \<longrightarrow>
      (\<exists>g. fits L g \<and> d = layout_image L g @ drop (layout_size L) d))"
proof (intro conjI impI ballI)
  show "decode_amm_v4_pool_state d = Err (A4TooShort 752 (length d))" if "length d < 752"
    using that by (simp add: decode_amm_v4_pool_state_def AMM_V4_POOL_STATE_SIZE_def)
  show "decode_openbook_market_state d = Err (ObTooShort 349 (length d))" if "length d < 349"
    using that by (simp add: decode_openbook_market_state_def offset_defs)
  show "decode_cpmm_pool_state d = Err (CpTooShort 637 (length d))" if "length d < 637"
    using that by (simp add: decode_cpmm_pool_state_def CPMM_POOL_STATE_SIZE_def)
  fix L assume L: "L \<in> {AMM_INFO, MARKET_STATE, CPMM_POOL_STATE}" and len: "layout_size L \<le> length d"
  have "distinct (map fst AMM_INFO)" "distinct (map fst MARKET_STATE)" "distinct (map fst CPMM_POOL_STATE)"
    by code_simp+
  with L have "distinct (map fst L)" by auto
  from layout_fields_image [OF this len]
  show "\<exists>g. fits L g \<and> d = layout_image L g @ drop (layout_size L) d"
    by (intro exI [where x = "layout_fields L d"]) simp
qed (simp_all add: decode_amm_v4_image decode_openbook_image decode_cpmm_image)

lemma pool_state_layouts_witness:
  "decode_amm_v4_pool_state [1, 2] = Err (A4TooShort 752 2) \<and>
   decode_cpmm_pool_state (layout_image CPMM_POOL_STATE
     (\<lambda>nm. if nm = ''discriminator'' then CPMM_POOL_STATE_DISCRIMINATOR
           else replicate (the (map_of CPMM_POOL_STATE nm)) 7) @ [0]) =
     Ok (cpmm_state_of (\<lambda>nm. if nm = ''discriminator'' then CPMM_POOL_STATE_DISCRIMINATOR
           else replicate (the (map_of CPMM_POOL_STATE nm)) 7))"
proof -
  let ?f = "\<lambda>nm. if nm = ''discriminator'' then CPMM_POOL_STATE_DISCRIMINATOR
           else replicate (the (map_of CPMM_POOL_STATE nm)) (7 :: byte)"
  have "fits CPMM_POOL_STATE ?f" by code_simp
  with pool_state_layouts [of "[1, 2]" ?f "[0]"] show ?thesis by simp
qed

end
