(* ===== verification/PoolAccounts.thy ===== *)
theory PoolAccounts
  imports RaydiumV4 RaydiumCpmm PoolStates
begin

text \<open>
  The account providers (\<open>crates/dex-adapter/src/solana/pool_accounts.rs\<close>): from a pool address to
  the accounts of a swap instruction, through \<open>getAccountInfo\<close>. The RPC client is a function from
  its state and an address to the answer and the next state; its error is given by its text.
  SHA-256, the curve test and base 58 are arguments, and \<open>None\<close> is a panic.
\<close>

section \<open>Errors\<close>

record raw_account =
  ra_lamports :: u64
  ra_owner :: pubkey
  ra_data :: bytes
  ra_executable :: bool
  ra_rent_epoch :: u64

datatype pool_account_error =
    NotWired string
  | PoolNotFound string string
  | PoolRpc string string
  | Malformed string

type_synonym 'w solana_rpc = "'w \<Rightarrow> string \<Rightarrow> (raw_account option, string) result \<times> 'w"

text \<open>The \<open>Display\<close> texts of the decode errors.\<close>

fun amm_v4_decode_error_display :: "b58_encoder \<Rightarrow> amm_v4_decode_error \<Rightarrow> string" where
  "amm_v4_decode_error_display enc (A4TooShort expected got) =
     ''amm v4 pool state too short: expected '' @ show_nat expected @ '' bytes, got '' @ show_nat got"
| "amm_v4_decode_error_display enc (A4WrongOwner expected got) =
     ''amm v4 account owned by unexpected program: expected '' @ pubkey_to_base58 enc expected @ '', got '' @
       pubkey_to_base58 enc got"

fun market_state_decode_error_display :: "market_state_decode_error \<Rightarrow> string" where
  "market_state_decode_error_display (ObTooShort expected got) =
     ''openbook market state too short: need '' @ show_nat expected @ '' bytes minimum, got '' @ show_nat got"
| "market_state_decode_error_display MissingMagic = ''openbook market state missing serum magic prefix''"

fun market_signer_error_display :: "market_signer_error \<Rightarrow> string" where
  "market_signer_error_display (InvalidNonce nonce) =
     ''market vault signer derivation failed: invalid nonce '' @ show_nat (unat nonce)"

text \<open>\<open>{:?}\<close> of a byte array.\<close>

fun debug_bytes_tail :: "bytes \<Rightarrow> string" where
  "debug_bytes_tail [] = '']''"
| "debug_bytes_tail (b # bs) = '', '' @ show_nat (unat b) @ debug_bytes_tail bs"

fun debug_bytes :: "bytes \<Rightarrow> string" where
  "debug_bytes [] = ''[]''"
| "debug_bytes (b # bs) = ''['' @ show_nat (unat b) @ debug_bytes_tail bs"

fun pool_state_decode_error_display :: "b58_encoder \<Rightarrow> pool_state_decode_error \<Rightarrow> string" where
  "pool_state_decode_error_display enc (CpTooShort expected got) =
     ''pool state too short: expected '' @ show_nat expected @ '' bytes, got '' @ show_nat got"
| "pool_state_decode_error_display enc (BadDiscriminator expected got) =
     ''pool state discriminator mismatch: expected '' @ debug_bytes expected @ '', got '' @ debug_bytes got"
| "pool_state_decode_error_display enc (CpWrongOwner expected got) =
     ''pool state owned by unexpected program: expected '' @ pubkey_to_base58 enc expected @ '', got '' @
       pubkey_to_base58 enc got"

section \<open>The provider that is not wired\<close>

definition not_wired_v4_swap_accounts :: "pubkey \<Rightarrow> pubkey \<Rightarrow> (raydium_v4_swap_accounts, pool_account_error) result" where
  "not_wired_v4_swap_accounts pool user_owner = Err (NotWired ''raydium_v4_pool_state_fetcher_not_implemented'')"

definition not_wired_cpmm_swap_accounts :: "pubkey \<Rightarrow> pubkey \<Rightarrow> (raydium_cpmm_swap_accounts, pool_account_error) result" where
  "not_wired_cpmm_swap_accounts pool user_owner = Err (NotWired ''raydium_cpmm_pool_state_fetcher_not_implemented'')"

section \<open>The provider over RPC\<close>

definition RAYDIUM_V4_PROGRAM_ID_PUBKEY :: pubkey where
  "RAYDIUM_V4_PROGRAM_ID_PUBKEY = the (from_str_const ''675kPX9MHTjS2zt1qfr1NYHuzeLXfQM9H24wFSUt1Mp8'')"

definition CPMM_AUTHORITY_SEED :: bytes where
  "CPMM_AUTHORITY_SEED = bytes_of_string ''vault_and_lp_mint_auth_seed''"

text \<open>\<open>parse().expect()\<close>: \<open>None\<close> is the panic.\<close>

definition parse_program_id :: "b58_decoder \<Rightarrow> string \<Rightarrow> pubkey option" where
  "parse_program_id dec s = (case pubkey_from_base58 dec s of Inl _ \<Rightarrow> None | Inr p \<Rightarrow> Some p)"

definition cpmm_authority_pda :: "b58_decoder \<Rightarrow> hash_fn \<Rightarrow> (bytes \<Rightarrow> bool) \<Rightarrow> pubkey option" where
  "cpmm_authority_pda dec sha256 on_curve =
     Option.bind (parse_program_id dec RAYDIUM_CPMM_PROGRAM_ID) (\<lambda>program_id.
       map_option fst (find_program_address sha256 on_curve [CPMM_AUTHORITY_SEED] program_id))"

text \<open>\<open>get_account_raw\<close> with its error mapped; \<open>missing\<close> is the error for an absent account.\<close>

definition fetch_account ::
    "b58_encoder \<Rightarrow> 'w solana_rpc \<Rightarrow> 'w \<Rightarrow> pubkey \<Rightarrow> pool_account_error \<Rightarrow> (raw_account, pool_account_error) result \<times> 'w" where
  "fetch_account enc rpc w key missing =
     (case rpc w (pubkey_to_base58 enc key) of
        (r, w') \<Rightarrow> (and_then (map_err (PoolRpc (pubkey_to_base58 enc key)) r) (ok_or missing), w'))"

text \<open>Steps 2 and 3 of the v4 path, and steps 5 to 7 (the vault signer needs the decoded market).\<close>

definition checked_v4_pool :: "b58_encoder \<Rightarrow> pubkey \<Rightarrow> raw_account \<Rightarrow> (amm_v4_pool_state, pool_account_error) result" where
  "checked_v4_pool enc pool pool_raw =
     (if ra_owner pool_raw \<noteq> RAYDIUM_V4_PROGRAM_ID_PUBKEY
      then Err (Malformed (''v4 pool '' @ pubkey_to_base58 enc pool @ '' owned by '' @
             pubkey_to_base58 enc (ra_owner pool_raw) @ '' instead of raydium_v4 program '' @
             pubkey_to_base58 enc RAYDIUM_V4_PROGRAM_ID_PUBKEY))
      else map_err (\<lambda>e. Malformed (''v4 pool state decode failed: '' @ amm_v4_decode_error_display enc e))
             (decode_amm_v4_pool_state (ra_data pool_raw)))"

definition checked_market ::
    "b58_encoder \<Rightarrow> hash_fn \<Rightarrow> (bytes \<Rightarrow> bool) \<Rightarrow> amm_v4_pool_state \<Rightarrow> raw_account \<Rightarrow>
     (openbook_market_state \<times> pubkey, pool_account_error) result" where
  "checked_market enc sha256 on_curve pool_state market_raw =
     (if ra_owner market_raw \<noteq> a4_market_program pool_state
      then Err (Malformed (''market '' @ pubkey_to_base58 enc (a4_market pool_state) @ '' owned by '' @
             pubkey_to_base58 enc (ra_owner market_raw) @ '' but pool_state.market_program = '' @
             pubkey_to_base58 enc (a4_market_program pool_state)))
      else
        and_then (map_err (\<lambda>e. Malformed (''openbook market state decode failed: '' @ market_state_decode_error_display e))
          (decode_openbook_market_state (ra_data market_raw))) (\<lambda>market_state.
        and_then (map_err (\<lambda>e. Malformed (''vault signer derivation failed: '' @ market_signer_error_display e))
          (derive_market_vault_signer sha256 on_curve (a4_market pool_state)
            (ob_vault_signer_nonce market_state) (a4_market_program pool_state))) (\<lambda>market_vault_signer.
        Ok (market_state, market_vault_signer))))"

text \<open>Steps 8 to 10.\<close>

definition compose_v4_accounts ::
    "hash_fn \<Rightarrow> (bytes \<Rightarrow> bool) \<Rightarrow> pubkey \<Rightarrow> pubkey \<Rightarrow> amm_v4_pool_state \<Rightarrow> openbook_market_state \<Rightarrow> pubkey \<Rightarrow>
     raydium_v4_swap_accounts option" where
  "compose_v4_accounts sha256 on_curve pool user_owner pool_state market_state market_vault_signer =
     Option.bind (find_program_address sha256 on_curve [bytes_of_string ''amm authority''] RAYDIUM_V4_PROGRAM_ID_PUBKEY)
       (\<lambda>(amm_authority, _).
     Option.bind (derive_associated_token_account sha256 on_curve user_owner SPL_TOKEN_PROGRAM_ID (a4_coin_vault_mint pool_state))
       (\<lambda>user_source_token.
     Option.bind (derive_associated_token_account sha256 on_curve user_owner SPL_TOKEN_PROGRAM_ID (a4_pc_vault_mint pool_state))
       (\<lambda>user_dest_token.
     Some
       \<lparr>v4_amm_pool = pool, v4_amm_authority = amm_authority, v4_amm_open_orders = a4_open_orders pool_state,
        v4_amm_target_orders = a4_target_orders pool_state, v4_pool_coin_vault = a4_coin_vault pool_state,
        v4_pool_pc_vault = a4_pc_vault pool_state, v4_market_program = a4_market_program pool_state,
        v4_market = a4_market pool_state, v4_market_bids = ob_bids market_state, v4_market_asks = ob_asks market_state,
        v4_market_event_queue = ob_event_queue market_state, v4_market_coin_vault = ob_coin_vault market_state,
        v4_market_pc_vault = ob_pc_vault market_state, v4_market_vault_signer = market_vault_signer,
        v4_user_source_token = user_source_token, v4_user_dest_token = user_dest_token, v4_user_owner = user_owner\<rparr>)))"

definition v4_swap_accounts ::
    "b58_encoder \<Rightarrow> hash_fn \<Rightarrow> (bytes \<Rightarrow> bool) \<Rightarrow> 'w solana_rpc \<Rightarrow> 'w \<Rightarrow> pubkey \<Rightarrow> pubkey \<Rightarrow>
     ((raydium_v4_swap_accounts, pool_account_error) result \<times> 'w) option" where
  "v4_swap_accounts enc sha256 on_curve rpc w pool user_owner =
     (let pool_text = pubkey_to_base58 enc pool in
      case fetch_account enc rpc w pool (PoolNotFound pool_text ''raydium_v4'') of
        (Inl e, w1) \<Rightarrow> Some (Err e, w1)
      | (Inr pool_raw, w1) \<Rightarrow>
          (case checked_v4_pool enc pool pool_raw of
             Inl e \<Rightarrow> Some (Err e, w1)
           | Inr pool_state \<Rightarrow>
               (case fetch_account enc rpc w1 (a4_market pool_state)
                       (Malformed (''market account '' @ pubkey_to_base58 enc (a4_market pool_state) @
                          '' missing for v4 pool '' @ pool_text)) of
                  (Inl e, w2) \<Rightarrow> Some (Err e, w2)
                | (Inr market_raw, w2) \<Rightarrow>
                    (case checked_market enc sha256 on_curve pool_state market_raw of
                       Inl e \<Rightarrow> Some (Err e, w2)
                     | Inr (market_state, market_vault_signer) \<Rightarrow>
                         map_option (\<lambda>accounts. (Ok accounts, w2))
                           (compose_v4_accounts sha256 on_curve pool user_owner pool_state market_state
                              market_vault_signer)))))"

text \<open>The CPMM path.\<close>

definition checked_cpmm_pool ::
    "b58_encoder \<Rightarrow> pubkey \<Rightarrow> pubkey \<Rightarrow> raw_account \<Rightarrow> (cpmm_pool_state, pool_account_error) result" where
  "checked_cpmm_pool enc expected_program pool raw =
     (if ra_owner raw \<noteq> expected_program
      then Err (Malformed (''pool '' @ pubkey_to_base58 enc pool @ '' owned by '' @
             pubkey_to_base58 enc (ra_owner raw) @ '' instead of CPMM program '' @ RAYDIUM_CPMM_PROGRAM_ID))
      else map_err (\<lambda>e. Malformed (''pool state decode failed: '' @ pool_state_decode_error_display enc e))
             (decode_cpmm_pool_state (ra_data raw)))"

definition compose_cpmm_accounts ::
    "b58_decoder \<Rightarrow> hash_fn \<Rightarrow> (bytes \<Rightarrow> bool) \<Rightarrow> pubkey \<Rightarrow> pubkey \<Rightarrow> cpmm_pool_state \<Rightarrow> raydium_cpmm_swap_accounts option" where
  "compose_cpmm_accounts dec sha256 on_curve pool user_owner state =
     Option.bind (derive_associated_token_account sha256 on_curve user_owner (cs_token_0_program state) (cs_token_0_mint state))
       (\<lambda>input_token_account.
     Option.bind (derive_associated_token_account sha256 on_curve user_owner (cs_token_1_program state) (cs_token_1_mint state))
       (\<lambda>output_token_account.
     Option.bind (cpmm_authority_pda dec sha256 on_curve) (\<lambda>authority.
     Some
       \<lparr>cp_payer = user_owner, cp_authority = authority, cp_amm_config = cs_amm_config state, cp_pool_state = pool,
        cp_input_token_account = input_token_account, cp_output_token_account = output_token_account,
        cp_input_vault = cs_token_0_vault state, cp_output_vault = cs_token_1_vault state,
        cp_input_token_program = cs_token_0_program state, cp_output_token_program = cs_token_1_program state,
        cp_input_token_mint = cs_token_0_mint state, cp_output_token_mint = cs_token_1_mint state,
        cp_observation_state = cs_observation_key state\<rparr>)))"

definition cpmm_swap_accounts ::
    "b58_encoder \<Rightarrow> b58_decoder \<Rightarrow> hash_fn \<Rightarrow> (bytes \<Rightarrow> bool) \<Rightarrow> 'w solana_rpc \<Rightarrow> 'w \<Rightarrow> pubkey \<Rightarrow> pubkey \<Rightarrow>
     ((raydium_cpmm_swap_accounts, pool_account_error) result \<times> 'w) option" where
  "cpmm_swap_accounts enc dec sha256 on_curve rpc w pool user_owner =
     (case fetch_account enc rpc w pool (PoolNotFound (pubkey_to_base58 enc pool) ''raydium_cpmm'') of
        (Inl e, w1) \<Rightarrow> Some (Err e, w1)
      | (Inr raw, w1) \<Rightarrow>
          (case parse_program_id dec RAYDIUM_CPMM_PROGRAM_ID of
             None \<Rightarrow> None
           | Some expected_program \<Rightarrow>
               (case checked_cpmm_pool enc expected_program pool raw of
                  Inl e \<Rightarrow> Some (Err e, w1)
                | Inr state \<Rightarrow>
                    map_option (\<lambda>accounts. (Ok accounts, w1))
                      (compose_cpmm_accounts dec sha256 on_curve pool user_owner state))))"

end
