(* ===== verification/DexAdapter.thy ===== *)
theory DexAdapter
  imports PoolAccounts
begin

text \<open>
  The DEX adapter as a whole (\<open>crates/dex-adapter/src\<close>: \<open>solana/mod.rs\<close>, \<open>lib.rs\<close>): dispatch by program
  id, and how the parts compose. A swap that is built from the accounts the provider found, signed,
  serialized, parsed back and given to the decoder is reported as the swap that was asked for.
\<close>

section \<open>Dispatch\<close>

definition decode_solana ::
    "b58_encoder \<Rightarrow> b58_decoder \<Rightarrow> (u64 \<Rightarrow> string) \<Rightarrow> string \<Rightarrow> bytes \<Rightarrow> string list \<Rightarrow> tx_hash \<Rightarrow> block_ref \<Rightarrow>
     date_time \<Rightarrow> u32 \<Rightarrow> byte \<Rightarrow> byte \<Rightarrow> (decoded_event option, dex_adapter_error) result" where
  "decode_solana enc dec show_f64 program_id d accounts txh block block_time log_index decimals_in decimals_out =
     (if program_id = RAYDIUM_V4_PROGRAM_ID then
        v4_decode enc dec show_f64 program_id d accounts txh block block_time log_index decimals_in decimals_out
      else if program_id = RAYDIUM_CPMM_PROGRAM_ID then
        cpmm_decode enc dec show_f64 program_id d accounts txh block block_time log_index decimals_in decimals_out
      else Ok None)"

text \<open>\<open>SolanaDexDecoder::decode\<close>.\<close>

definition solana_dex_decoder_decode ::
    "b58_encoder \<Rightarrow> b58_decoder \<Rightarrow> (u64 \<Rightarrow> string) \<Rightarrow> string \<Rightarrow> bytes \<Rightarrow> string list \<Rightarrow> tx_hash \<Rightarrow> block_ref \<Rightarrow>
     date_time \<Rightarrow> u32 \<Rightarrow> byte \<Rightarrow> byte \<Rightarrow> (decoded_event list, dex_adapter_error) result" where
  "solana_dex_decoder_decode enc dec show_f64 program_id d accounts txh block block_time log_index decimals_in decimals_out =
     and_then (decode_solana enc dec show_f64 program_id d accounts txh block block_time log_index decimals_in decimals_out)
       (\<lambda>r. case r of Some event \<Rightarrow> Ok [event] | None \<Rightarrow> Ok [])"

section \<open>Lemmas: program ids\<close>

lemma program_id_texts:
  "set RAYDIUM_V4_PROGRAM_ID \<subseteq> set b58_alphabet" "leading CHR ''1'' RAYDIUM_V4_PROGRAM_ID = 0"
  "set RAYDIUM_CPMM_PROGRAM_ID \<subseteq> set b58_alphabet" "leading CHR ''1'' RAYDIUM_CPMM_PROGRAM_ID = 0"
  by code_simp+

lemma program_id_bounds:
  "256 ^ 31 \<le> b58_value RAYDIUM_V4_PROGRAM_ID" "b58_value RAYDIUM_V4_PROGRAM_ID < 256 ^ 32"
  "256 ^ 31 \<le> b58_value RAYDIUM_CPMM_PROGRAM_ID" "b58_value RAYDIUM_CPMM_PROGRAM_ID < 256 ^ 32"
  by (simp_all add: RAYDIUM_V4_PROGRAM_ID_def RAYDIUM_CPMM_PROGRAM_ID_def b58_eval)

lemma program_ids_distinct: "RAYDIUM_V4_PROGRAM_ID \<noteq> RAYDIUM_CPMM_PROGRAM_ID"
  by code_simp

definition program_key :: "string \<Rightarrow> pubkey" where
  "program_key s = Pubkey (be_bytes 32 (b58_value s))"

lemma wf_program_key: "wf_pubkey (program_key s)"
  by (simp add: program_key_def wf_pubkey_def del: be_bytes.simps)

lemma program_id_parses:
  assumes "base58_numeric enc dec" "s \<in> {RAYDIUM_V4_PROGRAM_ID, RAYDIUM_CPMM_PROGRAM_ID}"
  shows "pubkey_from_base58 dec s = Inr (program_key s)" "pubkey_to_base58 enc (program_key s) = s"
proof -
  have d: "dec s = Inr (be_bytes 32 (b58_value s))"
    using const_parsed [OF assms(1) program_id_texts(1,2) program_id_bounds(1,2)]
      const_parsed [OF assms(1) program_id_texts(3,4) program_id_bounds(3,4)] assms(2) by blast
  then show "pubkey_from_base58 dec s = Inr (program_key s)"
    by (simp add: pubkey_from_base58_def program_key_def del: be_bytes.simps)
  have "base58_codec enc dec" using assms(1) by (simp add: base58_numeric_def)
  from base58_codec.enc_dec [OF this d] show "pubkey_to_base58 enc (program_key s) = s"
    by (simp add: pubkey_to_base58_def program_key_def del: be_bytes.simps)
qed

lemma v4_program_key: "RAYDIUM_V4_PROGRAM_ID_PUBKEY = program_key RAYDIUM_V4_PROGRAM_ID"
  using const_ok [OF program_id_texts(1) program_id_bounds(2)]
  by (simp add: RAYDIUM_V4_PROGRAM_ID_PUBKEY_def program_key_def RAYDIUM_V4_PROGRAM_ID_def)

lemma token_program_ids_agree: "V4_SPL_TOKEN_PROGRAM_ID = SPL_TOKEN_PROGRAM_ID"
  by (simp add: V4_SPL_TOKEN_PROGRAM_ID_def SPL_TOKEN_PROGRAM_ID_def)

section \<open>Lemmas: a signed swap\<close>

lemma signed_swap_tx:
  assumes keys: "list_all wf_pubkey (ix_program_id swap_ix # map am_pubkey (ix_accounts swap_ix))"
    and small: "length (ix_accounts swap_ix) \<le> 100" "length (ix_data swap_ix) \<le> 100"
    and signer: "am_pubkey ` {m \<in> set (ix_accounts swap_ix). am_is_signer m} = {kp_pubkey payer}"
    and h: "wf_sol_hash h" and sign: "\<And>seed msg. length (sign seed msg) = 64"
  shows "\<exists>tx. new_signed_with_payer sign [build_set_compute_unit_limit_instruction units, swap_ix]
        (Some (kp_pubkey payer)) [payer] h = Some tx \<and>
      tx_from_bytes (tx_serialize tx) = Ok tx \<and>
      tx_signatures tx = [sign_message sign payer (serialize_for_signing (tx_message tx))] \<and>
      map (resolve (msg_account_keys (tx_message tx))) (msg_instructions (tx_message tx)) =
        [(COMPUTE_BUDGET_PROGRAM_ID, [], SET_COMPUTE_UNIT_LIMIT_DISC # to_le_bytes 4 units),
         (ix_program_id swap_ix, map am_pubkey (ix_accounts swap_ix), ix_data swap_ix)]"
proof -
  let ?ixs = "[build_set_compute_unit_limit_instruction units, swap_ix]" and ?p = "Some (kp_pubkey payer)"
  have metas: "metas ?ixs = ix_accounts swap_ix"
    by (simp add: metas_def build_set_compute_unit_limit_instruction_def)
  then have signers: "signer_keys ?ixs ?p = {kp_pubkey payer}"
    using signer by (auto simp: signer_keys_def meta_keys_def)
  obtain tx where tx: "new_signed_with_payer sign ?ixs ?p [payer] h = Some tx"
    and m: "compile_message ?ixs ?p h = Some (tx_message tx)"
    and len: "length (tx_signatures tx) = 1"
    and sigs: "\<forall>i < length (tx_signatures tx).
       (\<exists>kp \<in> set [payer]. kp_pubkey kp = msg_account_keys (tx_message tx) ! i \<and>
          tx_signatures tx ! i = sign_message sign kp (serialize_for_signing (tx_message tx))) \<or>
       msg_account_keys (tx_message tx) ! i \<notin> kp_pubkey ` set [payer] \<and> tx_signatures tx ! i = signature_zero"
    using new_signed_facts [of ?ixs ?p sign "[payer]" h] unfolding signers by auto
  note count = compile_message_key_count [OF m, unfolded metas]
  then have short: "length (msg_account_keys (tx_message tx)) < 256" using small(1) by simp
  obtain m' where m': "compile_message ?ixs ?p h = Some m'" "msg_recent_blockhash m' = h"
    "set (msg_account_keys m') = referenced_keys ?ixs ?p" "\<forall>p. ?p = Some p \<longrightarrow> hd (msg_account_keys m') = p"
    "length (msg_account_keys m') < 256 \<longrightarrow> map (resolve (msg_account_keys m')) (msg_instructions m') =
       map (\<lambda>ix. (ix_program_id ix, map am_pubkey (ix_accounts ix), ix_data ix)) ?ixs"
    using compile_message_facts [of ?ixs ?p h] by blast
  then have eq: "m' = tx_message tx" using m by simp
  have keyset: "set (msg_account_keys (tx_message tx)) = referenced_keys ?ixs ?p" using m'(3) eq by simp
  have res: "map (resolve (msg_account_keys (tx_message tx))) (msg_instructions (tx_message tx)) =
        [(COMPUTE_BUDGET_PROGRAM_ID, [], SET_COMPUTE_UNIT_LIMIT_DISC # to_le_bytes 4 units),
         (ix_program_id swap_ix, map am_pubkey (ix_accounts swap_ix), ix_data swap_ix)]"
    using m'(5) short eq by (simp add: build_set_compute_unit_limit_instruction_def)
  have "msg_account_keys (tx_message tx) \<noteq> []"
    using keyset by (auto simp: referenced_keys_def)
  then have "msg_account_keys (tx_message tx) ! 0 = kp_pubkey payer"
    using m'(4) eq by (simp add: hd_conv_nth)
  then have sig: "tx_signatures tx = [sign_message sign payer (serialize_for_signing (tx_message tx))]"
    using sigs len by (cases "tx_signatures tx") auto
  have payer: "wf_pubkey (kp_pubkey payer)"
    using signer keys unfolding list_all_iff by (metis (mono_tags, lifting) image_iff insertI1 list.set_intros(2) list.set_map mem_Collect_eq)
  have "list_all wf_pubkey (msg_account_keys (tx_message tx))"
    using keys payer sim_constants_wf(1) metas unfolding list_all_iff keyset referenced_keys_def
    by (auto simp: meta_keys_def build_set_compute_unit_limit_instruction_def)
  moreover have "length (msg_instructions (tx_message tx)) = 2"
    using arg_cong [OF res, of length] by simp
  moreover have "list_all wf_compiled (msg_instructions (tx_message tx))"
  proof -
    have "wf_compiled ci" if "resolve ks ci = (p, as, d)" "length as \<le> 100" "length d \<le> 100" for ks ci p as d
      using that by (auto simp: resolve_def wf_compiled_def)
    moreover from res obtain c1 c2 where "msg_instructions (tx_message tx) = [c1, c2]"
      "resolve (msg_account_keys (tx_message tx)) c1 = (COMPUTE_BUDGET_PROGRAM_ID, [], SET_COMPUTE_UNIT_LIMIT_DISC # to_le_bytes 4 units)"
      "resolve (msg_account_keys (tx_message tx)) c2 = (ix_program_id swap_ix, map am_pubkey (ix_accounts swap_ix), ix_data swap_ix)"
      unfolding map_eq_Cons_conv by auto
    ultimately show ?thesis using small by auto
  qed
  moreover have "wf_sol_hash (msg_recent_blockhash (tx_message tx))" using m'(2) eq h by simp
  moreover have "wf_signature (sign_message sign payer msg)" for msg
    using sign by (simp add: sign_message_def wf_signature_def)
  ultimately have "wf_transaction tx"
    using short sig by (simp add: wf_transaction_def wf_message_def)
  then have "tx_from_bytes (tx_serialize tx @ []) = Ok tx" by (rule tx_from_bytes_serialize)
  with tx sig res show ?thesis by (intro exI [where x = tx]) simp
qed

section \<open>Lemmas: the built swaps\<close>

definition v4_keys :: "raydium_v4_swap_accounts \<Rightarrow> pubkey list" where
  "v4_keys a =
     [V4_SPL_TOKEN_PROGRAM_ID, v4_amm_pool a, v4_amm_authority a, v4_amm_open_orders a, v4_amm_target_orders a,
      v4_pool_coin_vault a, v4_pool_pc_vault a, v4_market_program a, v4_market a, v4_market_bids a, v4_market_asks a,
      v4_market_event_queue a, v4_market_coin_vault a, v4_market_pc_vault a, v4_market_vault_signer a,
      v4_user_source_token a, v4_user_dest_token a, v4_user_owner a]"

definition cpmm_keys :: "raydium_cpmm_swap_accounts \<Rightarrow> pubkey list" where
  "cpmm_keys a =
     [cp_payer a, cp_authority a, cp_amm_config a, cp_pool_state a, cp_input_token_account a,
      cp_output_token_account a, cp_input_vault a, cp_output_vault a, cp_input_token_program a,
      cp_output_token_program a, cp_input_token_mint a, cp_output_token_mint a, cp_observation_state a]"

lemma v4_swap_instruction:
  assumes "base58_numeric enc dec"
  obtains ix where "build_swap_base_in_instruction dec a amount_in min_out = Some ix"
    "ix_program_id ix = program_key RAYDIUM_V4_PROGRAM_ID" "map am_pubkey (ix_accounts ix) = v4_keys a"
    "{m \<in> set (ix_accounts ix). am_is_signer m} = {account_meta_new_readonly (v4_user_owner a) True}"
    "length (ix_accounts ix) = 18" "ix_data ix = [9] @ to_le_bytes 8 amount_in @ to_le_bytes 8 min_out"
  by (rule that, unfold build_swap_base_in_instruction_def program_id_parses(1) [OF assms insertI1])
     (auto simp: v4_keys_def account_meta_new_def account_meta_new_readonly_def DISC_SWAP_BASE_IN_def)

lemma cpmm_swap_instruction:
  assumes "base58_numeric enc dec"
  obtains ix where "build_swap_base_input_instruction dec a amount_in min_out = Some ix"
    "ix_program_id ix = program_key RAYDIUM_CPMM_PROGRAM_ID" "map am_pubkey (ix_accounts ix) = cpmm_keys a"
    "{m \<in> set (ix_accounts ix). am_is_signer m} = {account_meta_new_readonly (cp_payer a) True}"
    "length (ix_accounts ix) = 13"
    "ix_data ix = DISC_SWAP_BASE_INPUT @ to_le_bytes 8 amount_in @ to_le_bytes 8 min_out"
  by (rule that, unfold build_swap_base_input_instruction_def program_id_parses(1) [OF assms insertI2 [OF singletonI]])
     (auto simp: cpmm_keys_def account_meta_new_def account_meta_new_readonly_def)

lemma sol_account_enc:
  "base58_codec enc dec \<Longrightarrow> wf_pubkey p \<Longrightarrow> sol_account dec (pubkey_to_base58 enc p)"
  by (simp add: sol_account_def pubkey_to_base58_def base58_codec.dec_enc wf_pubkey_def)

lemma u64_at_le: "i = length pre \<Longrightarrow> u64_at (pre @ to_le_bytes 8 w @ post) i = w"
  by (simp add: u64_at_def slice_middle')

lemma accounts_ok_enc:
  assumes "base58_codec enc dec" "list_all wf_pubkey ks" "\<forall>i \<in> I. i < length ks"
  shows "accounts_ok dec (map (pubkey_to_base58 enc) ks) I"
  using assms(2,3) by (auto simp: accounts_ok_def list_all_length intro: sol_account_enc [OF assms(1)])

lemma v4_built_swap_decodes:
  assumes num: "base58_numeric enc dec" and keys: "list_all wf_pubkey (v4_keys a)"
  shows "decode_solana enc dec show_f64 RAYDIUM_V4_PROGRAM_ID
      ([9] @ to_le_bytes 8 amount_in @ to_le_bytes 8 min_out) (map (pubkey_to_base58 enc) (v4_keys a))
      txh block block_time li din dout =
    Ok (Some (DecodedSwap (v4_swap_of (map (pubkey_to_base58 enc) (v4_keys a))
      txh block block_time li din dout amount_in min_out)))"
proof -
  have cod: "base58_codec enc dec" using num by (simp add: base58_numeric_def)
  have "accounts_ok dec (map (pubkey_to_base58 enc) (v4_keys a)) {1, 15, 16, 17}"
    by (rule accounts_ok_enc [OF cod keys]) (simp add: v4_keys_def)
  then show ?thesis
    using u64_at_le [of 1 "[9]" amount_in "to_le_bytes 8 min_out"]
      u64_at_le [of 9 "[9] @ to_le_bytes 8 amount_in" min_out "[]"]
    by (simp add: decode_solana_def v4_decode_Ok [OF cod] v4_layout_def)
qed

lemma cpmm_built_swap_decodes:
  assumes num: "base58_numeric enc dec" and keys: "list_all wf_pubkey (cpmm_keys a)"
  shows "decode_solana enc dec show_f64 RAYDIUM_CPMM_PROGRAM_ID
      (DISC_SWAP_BASE_INPUT @ to_le_bytes 8 amount_in @ to_le_bytes 8 min_out) (map (pubkey_to_base58 enc) (cpmm_keys a))
      txh block block_time li din dout =
    Ok (Some (DecodedSwap (cpmm_swap_of (map (pubkey_to_base58 enc) (cpmm_keys a))
      txh block block_time li din dout amount_in min_out)))"
proof -
  have cod: "base58_codec enc dec" using num by (simp add: base58_numeric_def)
  have "accounts_ok dec (map (pubkey_to_base58 enc) (cpmm_keys a)) {0, 3, 10, 11}"
    by (rule accounts_ok_enc [OF cod keys]) (simp add: cpmm_keys_def)
  moreover have "length DISC_SWAP_BASE_INPUT = 8" by (simp add: DISC_SWAP_BASE_INPUT_def)
  ultimately show ?thesis
    using u64_at_le [of 8 DISC_SWAP_BASE_INPUT amount_in "to_le_bytes 8 min_out"]
      u64_at_le [of 16 "DISC_SWAP_BASE_INPUT @ to_le_bytes 8 amount_in" min_out "[]"] program_ids_distinct
    by (simp add: decode_solana_def cpmm_decode_Ok [OF cod] cpmm_layout_def)
qed

end
