(* ===== verification/DexProps.thy ===== *)
theory DexProps
  imports DexAdapter
begin

text \<open>
  What the DEX adapter guarantees: the decoders accept exactly the documented instruction layouts,
  a built and signed swap survives the wire and is decoded as the swap that was asked for, and the
  account providers return accounts that were read from checked accounts.
\<close>

section \<open>Lemmas: derived addresses\<close>

lemma find_pda:
  assumes "seeds_ok seeds"
  shows "find_program_address sha256 on_curve seeds p = Some (a, b) \<Longrightarrow>
      a = Pubkey (pda_hash sha256 seeds p b) \<and> \<not> on_curve (pda_hash sha256 seeds p b) \<and>
      (\<forall>b' > b. on_curve (pda_hash sha256 seeds p b'))"
    "find_program_address sha256 on_curve seeds p = None \<Longrightarrow> \<forall>b. on_curve (pda_hash sha256 seeds p b)"
proof -
  have top: "b \<le> (255 :: byte)" for b
    using unat_byte_lt [of b] by (simp add: word_le_nat_alt)
  note facts = try_find_from_ok [OF assms, of sha256 on_curve p 255 a b]
  show "a = Pubkey (pda_hash sha256 seeds p b) \<and> \<not> on_curve (pda_hash sha256 seeds p b) \<and>
      (\<forall>b' > b. on_curve (pda_hash sha256 seeds p b'))"
    if "find_program_address sha256 on_curve seeds p = Some (a, b)"
    using facts that by (simp add: find_program_address_def try_find_program_address_def top)
  show "\<forall>b. on_curve (pda_hash sha256 seeds p b)" if "find_program_address sha256 on_curve seeds p = None"
    using facts that by (simp add: find_program_address_def try_find_program_address_def top)
qed

text \<open>\<open>canonical_pda\<close>: the address of the highest nonce whose hash is off the curve.\<close>

definition canonical_pda :: "hash_fn \<Rightarrow> (bytes \<Rightarrow> bool) \<Rightarrow> bytes list \<Rightarrow> pubkey \<Rightarrow> pubkey \<Rightarrow> bool" where
  "canonical_pda sha256 on_curve seeds p a =
     (\<exists>b. a = Pubkey (pda_hash sha256 seeds p b) \<and> \<not> on_curve (pda_hash sha256 seeds p b) \<and>
          (\<forall>b' > b. on_curve (pda_hash sha256 seeds p b')))"

definition exhausted :: "hash_fn \<Rightarrow> (bytes \<Rightarrow> bool) \<Rightarrow> bool" where
  "exhausted sha256 on_curve = (\<exists>seeds p. \<forall>b. on_curve (pda_hash sha256 seeds p b))"

lemma find_canonical:
  "seeds_ok seeds \<Longrightarrow> find_program_address sha256 on_curve seeds p = Some (a, b) \<Longrightarrow> canonical_pda sha256 on_curve seeds p a"
  using find_pda(1) unfolding canonical_pda_def by blast

lemma find_exhausted:
  "seeds_ok seeds \<Longrightarrow> find_program_address sha256 on_curve seeds p = None \<Longrightarrow> exhausted sha256 on_curve"
  using find_pda(2) unfolding exhausted_def by blast

lemma canonical_pda_wf: "hash32 sha256 \<Longrightarrow> canonical_pda sha256 on_curve seeds p a \<Longrightarrow> wf_pubkey a"
  by (auto simp: canonical_pda_def wf_pubkey_def pda_hash_def hash32_def)

definition ata_seeds :: "pubkey \<Rightarrow> pubkey \<Rightarrow> pubkey \<Rightarrow> bytes list" where
  "ata_seeds owner token_program mint = [pubkey_bytes owner, pubkey_bytes token_program, pubkey_bytes mint]"

lemma derive_ata:
  assumes "wf_pubkey owner" "wf_pubkey token_program" "wf_pubkey mint"
  shows "derive_associated_token_account sha256 on_curve owner token_program mint = Some a \<Longrightarrow>
      canonical_pda sha256 on_curve (ata_seeds owner token_program mint) ASSOCIATED_TOKEN_PROGRAM_ID a"
    "derive_associated_token_account sha256 on_curve owner token_program mint = None \<Longrightarrow> exhausted sha256 on_curve"
proof -
  have ok: "seeds_ok (ata_seeds owner token_program mint)"
    using assms by (simp add: seeds_ok_def ata_seeds_def wf_pubkey_def MAX_SEEDS_def MAX_SEED_LEN_def)
  show "canonical_pda sha256 on_curve (ata_seeds owner token_program mint) ASSOCIATED_TOKEN_PROGRAM_ID a"
    if "derive_associated_token_account sha256 on_curve owner token_program mint = Some a"
    using that find_canonical [OF ok]
    by (auto simp: derive_associated_token_account_def ata_seeds_def [symmetric])
  show "exhausted sha256 on_curve"
    if "derive_associated_token_account sha256 on_curve owner token_program mint = None"
    using that find_exhausted [OF ok]
    by (simp add: derive_associated_token_account_def ata_seeds_def [symmetric])
qed

lemma vault_signer:
  assumes "derive_market_vault_signer sha256 on_curve market nonce program = Inr a"
  shows "a = Pubkey (sha256 (pubkey_bytes market @ to_le_bytes 8 nonce @ pubkey_bytes program @ PDA_MARKER)) \<and>
     \<not> on_curve (pubkey_bytes a)"
  using assms
  by (auto simp: derive_market_vault_signer_def create_program_address_def Let_def split: if_splits option.splits)

section \<open>Lemmas: fetched accounts\<close>

lemma fetch_account_Ok:
  "fetch_account enc rpc w key missing = (Inr raw, w') \<longleftrightarrow> rpc w (pubkey_to_base58 enc key) = (Ok (Some raw), w')"
  by (auto simp: fetch_account_def and_then_eq_Inr ok_or_def split: prod.splits option.splits)

lemma fitted:
  assumes "distinct (map fst L)" "layout_size L \<le> length d"
  obtains f rest where "fits L f" "d = layout_image L f @ rest"
  using layout_fields_image [OF assms] by (metis that)

lemma checked_v4_pool_Ok:
  assumes "checked_v4_pool enc pool raw = Inr st"
  shows "ra_owner raw = RAYDIUM_V4_PROGRAM_ID_PUBKEY \<and>
    (\<exists>f rest. fits AMM_INFO f \<and> ra_data raw = layout_image AMM_INFO f @ rest \<and> st = amm_v4_of f)"
proof -
  have owner: "ra_owner raw = RAYDIUM_V4_PROGRAM_ID_PUBKEY" and dec: "decode_amm_v4_pool_state (ra_data raw) = Inr st"
    using assms by (auto simp: checked_v4_pool_def split: if_splits)
  have "distinct (map fst AMM_INFO)" by code_simp
  moreover have "layout_size AMM_INFO \<le> length (ra_data raw)"
    using dec by (auto simp: layout_sizes decode_amm_v4_pool_state_def AMM_V4_POOL_STATE_SIZE_def split: if_splits)
  ultimately obtain f rest where f: "fits AMM_INFO f" "ra_data raw = layout_image AMM_INFO f @ rest"
    by (rule fitted)
  with dec have "st = amm_v4_of f" by (simp add: decode_amm_v4_image)
  with owner f show ?thesis by blast
qed

lemma decode_market_Ok:
  assumes "decode_openbook_market_state d = Inr ms"
  shows "\<exists>g rest. fits MARKET_STATE g \<and> d = layout_image MARKET_STATE g @ rest \<and>
    g ''magic'' = bytes_of_string ''serum'' \<and> ms = openbook_of g"
proof -
  have "distinct (map fst MARKET_STATE)" by code_simp
  moreover have "layout_size MARKET_STATE \<le> length d"
    using assms by (auto simp: layout_sizes decode_openbook_market_state_def offset_defs split: if_splits)
  ultimately obtain g rest where "fits MARKET_STATE g" "d = layout_image MARKET_STATE g @ rest"
    by (rule fitted)
  with assms show ?thesis by (auto simp: decode_openbook_image split: if_splits)
qed

lemma checked_market_Ok:
  assumes "checked_market enc sha256 on_curve st raw = Inr (ms, signer)"
  shows "ra_owner raw = a4_market_program st \<and> decode_openbook_market_state (ra_data raw) = Inr ms \<and>
    derive_market_vault_signer sha256 on_curve (a4_market st) (ob_vault_signer_nonce ms) (a4_market_program st) = Inr signer"
  using assms by (auto simp: checked_market_def and_then_eq_Inr split: if_splits)

lemma decode_cpmm_Ok:
  assumes "decode_cpmm_pool_state d = Inr st"
  shows "\<exists>f rest. fits CPMM_POOL_STATE f \<and> d = layout_image CPMM_POOL_STATE f @ rest \<and>
    f ''discriminator'' = CPMM_POOL_STATE_DISCRIMINATOR \<and> st = cpmm_state_of f"
proof -
  have "distinct (map fst CPMM_POOL_STATE)" by code_simp
  moreover have "layout_size CPMM_POOL_STATE \<le> length d"
    using assms by (auto simp: layout_sizes decode_cpmm_pool_state_def CPMM_POOL_STATE_SIZE_def split: if_splits)
  ultimately obtain f rest where "fits CPMM_POOL_STATE f" "d = layout_image CPMM_POOL_STATE f @ rest"
    by (rule fitted)
  with assms show ?thesis by (auto simp: decode_cpmm_image split: if_splits)
qed

text \<open>The widths of the fields, from the tables.\<close>

lemma fits_width: "fits L f \<Longrightarrow> map_of L nm = Some w \<Longrightarrow> length (f nm) = w"
  by (auto simp: fits_def list_all_iff dest: map_of_SomeD)

lemma fits_pubkey: "fits L f \<Longrightarrow> map_of L nm = Some 32 \<Longrightarrow> wf_pubkey (Pubkey (f nm))"
  by (simp add: fits_width wf_pubkey_def)

lemma amm_v4_of_wf:
  assumes "fits AMM_INFO f"
  shows "list_all wf_pubkey [a4_coin_vault (amm_v4_of f), a4_pc_vault (amm_v4_of f), a4_coin_vault_mint (amm_v4_of f),
    a4_pc_vault_mint (amm_v4_of f), a4_open_orders (amm_v4_of f), a4_market (amm_v4_of f),
    a4_market_program (amm_v4_of f), a4_target_orders (amm_v4_of f)]"
  using amm_v4_offsets by (simp add: amm_v4_of_def fits_pubkey [OF assms])

lemma openbook_of_wf:
  assumes "fits MARKET_STATE g"
  shows "list_all wf_pubkey [ob_bids (openbook_of g), ob_asks (openbook_of g), ob_event_queue (openbook_of g),
    ob_coin_vault (openbook_of g), ob_pc_vault (openbook_of g)]"
  using market_offsets by (simp add: openbook_of_def fits_pubkey [OF assms])

lemma cpmm_state_of_wf:
  assumes "fits CPMM_POOL_STATE f"
  shows "list_all wf_pubkey [cs_amm_config (cpmm_state_of f), cs_token_0_vault (cpmm_state_of f),
    cs_token_1_vault (cpmm_state_of f), cs_token_0_mint (cpmm_state_of f), cs_token_1_mint (cpmm_state_of f),
    cs_token_0_program (cpmm_state_of f), cs_token_1_program (cpmm_state_of f), cs_observation_key (cpmm_state_of f)]"
  using cpmm_offsets by (simp add: cpmm_state_of_def fits_pubkey [OF assms])

section \<open>Lemmas: the providers\<close>

text \<open>The accounts that the v4 provider must return for given fields of the pool and the market.\<close>

definition v4_accounts_of ::
    "hash_fn \<Rightarrow> (bytes \<Rightarrow> bool) \<Rightarrow> pubkey \<Rightarrow> pubkey \<Rightarrow> (string \<Rightarrow> bytes) \<Rightarrow> (string \<Rightarrow> bytes) \<Rightarrow> raydium_v4_swap_accounts \<Rightarrow> bool" where
  "v4_accounts_of sha256 on_curve pool user f g a =
     (v4_amm_pool a = pool \<and> v4_user_owner a = user \<and>
      v4_amm_open_orders a = Pubkey (f ''open_orders'') \<and> v4_amm_target_orders a = Pubkey (f ''target_orders'') \<and>
      v4_pool_coin_vault a = Pubkey (f ''coin_vault'') \<and> v4_pool_pc_vault a = Pubkey (f ''pc_vault'') \<and>
      v4_market_program a = Pubkey (f ''market_program'') \<and> v4_market a = Pubkey (f ''market'') \<and>
      v4_market_bids a = Pubkey (g ''bids'') \<and> v4_market_asks a = Pubkey (g ''asks'') \<and>
      v4_market_event_queue a = Pubkey (g ''event_q'') \<and> v4_market_coin_vault a = Pubkey (g ''coin_vault'') \<and>
      v4_market_pc_vault a = Pubkey (g ''pc_vault'') \<and>
      v4_market_vault_signer a =
        Pubkey (sha256 (f ''market'' @ g ''vault_signer_nonce'' @ f ''market_program'' @ PDA_MARKER)) \<and>
      \<not> on_curve (pubkey_bytes (v4_market_vault_signer a)) \<and>
      canonical_pda sha256 on_curve [bytes_of_string ''amm authority''] RAYDIUM_V4_PROGRAM_ID_PUBKEY (v4_amm_authority a) \<and>
      canonical_pda sha256 on_curve (ata_seeds user SPL_TOKEN_PROGRAM_ID (Pubkey (f ''coin_vault_mint'')))
        ASSOCIATED_TOKEN_PROGRAM_ID (v4_user_source_token a) \<and>
      canonical_pda sha256 on_curve (ata_seeds user SPL_TOKEN_PROGRAM_ID (Pubkey (f ''pc_vault_mint'')))
        ASSOCIATED_TOKEN_PROGRAM_ID (v4_user_dest_token a))"

definition cpmm_accounts_of ::
    "hash_fn \<Rightarrow> (bytes \<Rightarrow> bool) \<Rightarrow> pubkey \<Rightarrow> pubkey \<Rightarrow> (string \<Rightarrow> bytes) \<Rightarrow> raydium_cpmm_swap_accounts \<Rightarrow> bool" where
  "cpmm_accounts_of sha256 on_curve pool user f a =
     (cp_payer a = user \<and> cp_pool_state a = pool \<and> cp_amm_config a = Pubkey (f ''amm_config'') \<and>
      cp_input_vault a = Pubkey (f ''token_0_vault'') \<and> cp_output_vault a = Pubkey (f ''token_1_vault'') \<and>
      cp_input_token_program a = Pubkey (f ''token_0_program'') \<and> cp_output_token_program a = Pubkey (f ''token_1_program'') \<and>
      cp_input_token_mint a = Pubkey (f ''token_0_mint'') \<and> cp_output_token_mint a = Pubkey (f ''token_1_mint'') \<and>
      cp_observation_state a = Pubkey (f ''observation_key'') \<and>
      canonical_pda sha256 on_curve [CPMM_AUTHORITY_SEED] (program_key RAYDIUM_CPMM_PROGRAM_ID) (cp_authority a) \<and>
      canonical_pda sha256 on_curve (ata_seeds user (Pubkey (f ''token_0_program'')) (Pubkey (f ''token_0_mint'')))
        ASSOCIATED_TOKEN_PROGRAM_ID (cp_input_token_account a) \<and>
      canonical_pda sha256 on_curve (ata_seeds user (Pubkey (f ''token_1_program'')) (Pubkey (f ''token_1_mint'')))
        ASSOCIATED_TOKEN_PROGRAM_ID (cp_output_token_account a))"

lemma seed_texts_ok:
  "seeds_ok [bytes_of_string ''amm authority'']" "seeds_ok [CPMM_AUTHORITY_SEED]"
  by (simp_all add: seeds_ok_def MAX_SEEDS_def MAX_SEED_LEN_def bytes_of_string_def CPMM_AUTHORITY_SEED_def)

lemma compose_v4:
  assumes user: "wf_pubkey user" and f: "fits AMM_INFO f" and g: "fits MARKET_STATE g"
    and signer: "derive_market_vault_signer sha256 on_curve (a4_market (amm_v4_of f))
      (ob_vault_signer_nonce (openbook_of g)) (a4_market_program (amm_v4_of f)) = Inr signer"
  shows "compose_v4_accounts sha256 on_curve pool user (amm_v4_of f) (openbook_of g) signer = Some a \<Longrightarrow>
      v4_accounts_of sha256 on_curve pool user f g a"
    "compose_v4_accounts sha256 on_curve pool user (amm_v4_of f) (openbook_of g) signer = None \<Longrightarrow>
      exhausted sha256 on_curve"
proof -
  have nonce: "to_le_bytes 8 (from_le_bytes (g ''vault_signer_nonce'') :: u64) = g ''vault_signer_nonce''"
    using fits_width [OF g, of "''vault_signer_nonce''" 8] market_offsets by (simp add: to_from_le_bytes)
  have vs: "signer = Pubkey (sha256 (f ''market'' @ g ''vault_signer_nonce'' @ f ''market_program'' @ PDA_MARKER))"
    "\<not> on_curve (pubkey_bytes signer)"
    using vault_signer [OF signer] by (auto simp: amm_v4_of_def openbook_of_def nonce)
  note wf = amm_v4_of_wf [OF f, simplified]
  note ata = derive_ata [OF user sim_constants_wf(2)]
  note mints = wf [THEN conjunct2, THEN conjunct2]
  show "v4_accounts_of sha256 on_curve pool user f g a"
    if "compose_v4_accounts sha256 on_curve pool user (amm_v4_of f) (openbook_of g) signer = Some a"
    using that vs wf find_canonical [OF seed_texts_ok(1), of sha256 on_curve RAYDIUM_V4_PROGRAM_ID_PUBKEY]
      ata(1) [of "a4_coin_vault_mint (amm_v4_of f)" sha256 on_curve] ata(1) [of "a4_pc_vault_mint (amm_v4_of f)" sha256 on_curve]
    by (auto simp: compose_v4_accounts_def bind_eq_Some_conv v4_accounts_of_def amm_v4_of_def openbook_of_def)
  show "exhausted sha256 on_curve"
    if "compose_v4_accounts sha256 on_curve pool user (amm_v4_of f) (openbook_of g) signer = None"
    using that wf find_exhausted [OF seed_texts_ok(1), of sha256 on_curve RAYDIUM_V4_PROGRAM_ID_PUBKEY]
      ata(2) [of "a4_coin_vault_mint (amm_v4_of f)" sha256 on_curve] ata(2) [of "a4_pc_vault_mint (amm_v4_of f)" sha256 on_curve]
    by (auto simp: compose_v4_accounts_def split: Option.bind_splits prod.splits)
qed

lemma compose_cpmm:
  assumes num: "base58_numeric enc dec" and user: "wf_pubkey user" and f: "fits CPMM_POOL_STATE f"
  shows "compose_cpmm_accounts dec sha256 on_curve pool user (cpmm_state_of f) = Some a \<Longrightarrow>
      cpmm_accounts_of sha256 on_curve pool user f a"
    "compose_cpmm_accounts dec sha256 on_curve pool user (cpmm_state_of f) = None \<Longrightarrow> exhausted sha256 on_curve"
proof -
  let ?st = "cpmm_state_of f"
  note wf = cpmm_state_of_wf [OF f, simplified]
  note ata = derive_ata [OF user, of "cs_token_0_program ?st" "cs_token_0_mint ?st"]
    derive_ata [OF user, of "cs_token_1_program ?st" "cs_token_1_mint ?st"]
  have pid: "parse_program_id dec RAYDIUM_CPMM_PROGRAM_ID = Some (program_key RAYDIUM_CPMM_PROGRAM_ID)"
    using program_id_parses(1) [OF num, of RAYDIUM_CPMM_PROGRAM_ID] by (simp add: parse_program_id_def)
  show "cpmm_accounts_of sha256 on_curve pool user f a"
    if "compose_cpmm_accounts dec sha256 on_curve pool user ?st = Some a"
    using that wf ata(1) [of sha256 on_curve] ata(3) [of sha256 on_curve]
      find_canonical [OF seed_texts_ok(2), of sha256 on_curve "program_key RAYDIUM_CPMM_PROGRAM_ID"]
    by (auto simp: compose_cpmm_accounts_def cpmm_authority_pda_def pid bind_eq_Some_conv cpmm_accounts_of_def cpmm_state_of_def)
  show "exhausted sha256 on_curve" if "compose_cpmm_accounts dec sha256 on_curve pool user ?st = None"
    using that wf ata(2) [of sha256 on_curve] ata(4) [of sha256 on_curve]
      find_exhausted [OF seed_texts_ok(2), of sha256 on_curve "program_key RAYDIUM_CPMM_PROGRAM_ID"]
    by (auto simp: compose_cpmm_accounts_def cpmm_authority_pda_def pid split: Option.bind_splits prod.splits)
qed

lemma v4_accounts_of_wf:
  assumes "hash32 sha256" "wf_pubkey pool" "wf_pubkey user" "fits AMM_INFO f" "fits MARKET_STATE g"
    and a: "v4_accounts_of sha256 on_curve pool user f g a"
  shows "list_all wf_pubkey (v4_keys a)"
proof -
  have "wf_pubkey (v4_market_vault_signer a)"
    using a assms(1) by (simp add: v4_accounts_of_def wf_pubkey_def hash32_def)
  moreover have "wf_pubkey (v4_amm_authority a)" "wf_pubkey (v4_user_source_token a)" "wf_pubkey (v4_user_dest_token a)"
    using a canonical_pda_wf [OF assms(1)] unfolding v4_accounts_of_def by blast+
  ultimately show ?thesis
    using a assms(2,3) amm_v4_of_wf [OF assms(4)] openbook_of_wf [OF assms(5)] sim_constants_wf(2)
    by (simp add: v4_keys_def v4_accounts_of_def amm_v4_of_def openbook_of_def token_program_ids_agree)
qed

section \<open>Accounts for examples\<close>

definition zero_v4_accounts :: raydium_v4_swap_accounts where
  "zero_v4_accounts =
     \<lparr>v4_amm_pool = pubkey_zero, v4_amm_authority = pubkey_zero, v4_amm_open_orders = pubkey_zero,
      v4_amm_target_orders = pubkey_zero, v4_pool_coin_vault = pubkey_zero, v4_pool_pc_vault = pubkey_zero,
      v4_market_program = pubkey_zero, v4_market = pubkey_zero, v4_market_bids = pubkey_zero,
      v4_market_asks = pubkey_zero, v4_market_event_queue = pubkey_zero, v4_market_coin_vault = pubkey_zero,
      v4_market_pc_vault = pubkey_zero, v4_market_vault_signer = pubkey_zero, v4_user_source_token = pubkey_zero,
      v4_user_dest_token = pubkey_zero, v4_user_owner = pubkey_zero\<rparr>"

definition zero_cpmm_accounts :: raydium_cpmm_swap_accounts where
  "zero_cpmm_accounts =
     \<lparr>cp_payer = pubkey_zero, cp_authority = pubkey_zero, cp_amm_config = pubkey_zero, cp_pool_state = pubkey_zero,
      cp_input_token_account = pubkey_zero, cp_output_token_account = pubkey_zero, cp_input_vault = pubkey_zero,
      cp_output_vault = pubkey_zero, cp_input_token_program = pubkey_zero, cp_output_token_program = pubkey_zero,
      cp_input_token_mint = pubkey_zero, cp_output_token_mint = pubkey_zero, cp_observation_state = pubkey_zero\<rparr>"

lemma zero_accounts_wf:
  "wf_pubkey pubkey_zero" "wf_sol_hash sol_hash_zero"
  "list_all wf_pubkey (v4_keys zero_v4_accounts)" "list_all wf_pubkey (cpmm_keys zero_cpmm_accounts)"
  "v4_user_owner zero_v4_accounts = pubkey_zero" "cp_payer zero_cpmm_accounts = pubkey_zero"
  by (simp_all add: v4_keys_def cpmm_keys_def zero_v4_accounts_def zero_cpmm_accounts_def wf_pubkey_def pubkey_zero_def
      wf_sol_hash_def sol_hash_zero_def token_program_ids_agree sim_constants_wf(2) [unfolded wf_pubkey_def])

section \<open>Properties\<close>



text \<open>
  C32: A Raydium v4 swap built for simulation: with well-formed accounts and the user's own key as the
  payer, building never panics; the transaction has one signature, the payer's, over the message's
  wire bytes; it survives serialization; its message holds the compute budget instruction and the
  swap; and the DEX decoder reads the swap as what was asked: the pool, the user as the sender, the
  user's token accounts and the two amounts.
\<close>

theorem simulated_v4_swap:
  assumes "base58_numeric enc dec" "list_all wf_pubkey (v4_keys a)" "kp_pubkey payer = v4_user_owner a"
    and "wf_sol_hash h" "\<forall>seed msg. length (sign seed msg) = 64"
  shows "\<exists>tx budget program keys d.
    build_swap_base_in_transaction dec sign a amount_in min_out payer h = Some tx \<and>
    tx_from_bytes (tx_serialize tx) = Ok tx \<and>
    tx_signatures tx = [sign_message sign payer (serialize_for_signing (tx_message tx))] \<and>
    map (resolve (msg_account_keys (tx_message tx))) (msg_instructions (tx_message tx)) = [budget, (program, keys, d)] \<and>
    decode_solana enc dec show_f64 (pubkey_to_base58 enc program) d (map (pubkey_to_base58 enc) keys)
      txh block block_time li din dout =
    Ok (Some (DecodedSwap
      \<lparr>s_chain = Solana, s_tx_hash = txh, s_block = block, s_block_time = block_time,
       s_pool = sol_address (pubkey_to_base58 enc (v4_amm_pool a)), s_dex = RaydiumV4,
       s_sender = sol_address (pubkey_to_base58 enc (kp_pubkey payer)),
       s_token_in = sol_address (pubkey_to_base58 enc (v4_user_source_token a)),
       s_token_out = sol_address (pubkey_to_base58 enc (v4_user_dest_token a)),
       s_amount_in_raw = ucast amount_in, s_decimals_in = din, s_amount_out_raw = ucast min_out,
       s_decimals_out = dout, s_usd_value = None, s_log_index = li\<rparr>))"
proof -
  obtain ix where ix: "build_swap_base_in_instruction dec a amount_in min_out = Some ix"
    "ix_program_id ix = program_key RAYDIUM_V4_PROGRAM_ID" "map am_pubkey (ix_accounts ix) = v4_keys a"
    "{m \<in> set (ix_accounts ix). am_is_signer m} = {account_meta_new_readonly (v4_user_owner a) True}"
    "length (ix_accounts ix) = 18" "ix_data ix = [9] @ to_le_bytes 8 amount_in @ to_le_bytes 8 min_out"
    by (rule v4_swap_instruction [OF assms(1)])
  have "\<exists>tx. new_signed_with_payer sign [build_set_compute_unit_limit_instruction V4_SIMULATION_COMPUTE_UNIT_LIMIT, ix]
        (Some (kp_pubkey payer)) [payer] h = Some tx \<and>
      tx_from_bytes (tx_serialize tx) = Ok tx \<and>
      tx_signatures tx = [sign_message sign payer (serialize_for_signing (tx_message tx))] \<and>
      map (resolve (msg_account_keys (tx_message tx))) (msg_instructions (tx_message tx)) =
        [(COMPUTE_BUDGET_PROGRAM_ID, [], SET_COMPUTE_UNIT_LIMIT_DISC # to_le_bytes 4 V4_SIMULATION_COMPUTE_UNIT_LIMIT),
         (ix_program_id ix, map am_pubkey (ix_accounts ix), ix_data ix)]"
    using assms wf_program_key ix
    by (intro signed_swap_tx) (simp_all add: account_meta_new_readonly_def)
  then show ?thesis
    using v4_built_swap_decodes [OF assms(1,2), of show_f64 amount_in min_out txh block block_time li din dout] ix assms(3)
      program_id_parses(2) [OF assms(1), of RAYDIUM_V4_PROGRAM_ID]
    by (auto simp: build_swap_base_in_transaction_def Let_def v4_swap_of_def v4_keys_def)
qed

lemma simulated_v4_swap_witness:
  "\<exists>tx. build_swap_base_in_transaction ref_b58_dec (\<lambda>seed msg. replicate 64 7) zero_v4_accounts 5 3
        \<lparr>kp_seed = [], kp_pubkey = pubkey_zero\<rparr> sol_hash_zero = Some tx \<and>
     tx_from_bytes (tx_serialize tx) = Ok tx \<and> length (tx_signatures tx) = 1"
  using simulated_v4_swap [OF ref_b58.base58_numeric_axioms zero_accounts_wf(3), of "\<lparr>kp_seed = [], kp_pubkey = pubkey_zero\<rparr>"
      sol_hash_zero "\<lambda>seed msg. replicate 64 7" 5 3, of "\<lambda>_. []" "TxSolana []" "BlockRef Solana 0" 0 0 0 0] zero_accounts_wf
  by (fastforce simp: zero_accounts_wf)

text \<open>
  C33: The same for a Raydium CPMM swap: the built, signed and serialized transaction is decoded as a
  swap on the pool by the payer between the two mints with the two amounts.
\<close>

theorem simulated_cpmm_swap:
  assumes "base58_numeric enc dec" "list_all wf_pubkey (cpmm_keys a)" "kp_pubkey payer = cp_payer a"
    and "wf_sol_hash h" "\<forall>seed msg. length (sign seed msg) = 64"
  shows "\<exists>tx budget program keys d.
    build_swap_base_input_transaction dec sign a amount_in min_out payer h = Some tx \<and>
    tx_from_bytes (tx_serialize tx) = Ok tx \<and>
    tx_signatures tx = [sign_message sign payer (serialize_for_signing (tx_message tx))] \<and>
    map (resolve (msg_account_keys (tx_message tx))) (msg_instructions (tx_message tx)) = [budget, (program, keys, d)] \<and>
    decode_solana enc dec show_f64 (pubkey_to_base58 enc program) d (map (pubkey_to_base58 enc) keys)
      txh block block_time li din dout =
    Ok (Some (DecodedSwap
      \<lparr>s_chain = Solana, s_tx_hash = txh, s_block = block, s_block_time = block_time,
       s_pool = sol_address (pubkey_to_base58 enc (cp_pool_state a)), s_dex = RaydiumCpmm,
       s_sender = sol_address (pubkey_to_base58 enc (kp_pubkey payer)),
       s_token_in = sol_address (pubkey_to_base58 enc (cp_input_token_mint a)),
       s_token_out = sol_address (pubkey_to_base58 enc (cp_output_token_mint a)),
       s_amount_in_raw = ucast amount_in, s_decimals_in = din, s_amount_out_raw = ucast min_out,
       s_decimals_out = dout, s_usd_value = None, s_log_index = li\<rparr>))"
proof -
  obtain ix where ix: "build_swap_base_input_instruction dec a amount_in min_out = Some ix"
    "ix_program_id ix = program_key RAYDIUM_CPMM_PROGRAM_ID" "map am_pubkey (ix_accounts ix) = cpmm_keys a"
    "{m \<in> set (ix_accounts ix). am_is_signer m} = {account_meta_new_readonly (cp_payer a) True}"
    "length (ix_accounts ix) = 13"
    "ix_data ix = DISC_SWAP_BASE_INPUT @ to_le_bytes 8 amount_in @ to_le_bytes 8 min_out"
    by (rule cpmm_swap_instruction [OF assms(1)])
  have "\<exists>tx. new_signed_with_payer sign [build_set_compute_unit_limit_instruction CPMM_SIMULATION_COMPUTE_UNIT_LIMIT, ix]
        (Some (kp_pubkey payer)) [payer] h = Some tx \<and>
      tx_from_bytes (tx_serialize tx) = Ok tx \<and>
      tx_signatures tx = [sign_message sign payer (serialize_for_signing (tx_message tx))] \<and>
      map (resolve (msg_account_keys (tx_message tx))) (msg_instructions (tx_message tx)) =
        [(COMPUTE_BUDGET_PROGRAM_ID, [], SET_COMPUTE_UNIT_LIMIT_DISC # to_le_bytes 4 CPMM_SIMULATION_COMPUTE_UNIT_LIMIT),
         (ix_program_id ix, map am_pubkey (ix_accounts ix), ix_data ix)]"
    using assms wf_program_key ix
    by (intro signed_swap_tx) (simp_all add: account_meta_new_readonly_def DISC_SWAP_BASE_INPUT_def)
  then show ?thesis
    using cpmm_built_swap_decodes [OF assms(1,2), of show_f64 amount_in min_out txh block block_time li din dout] ix assms(3)
      program_id_parses(2) [OF assms(1), of RAYDIUM_CPMM_PROGRAM_ID]
    by (auto simp: build_swap_base_input_transaction_def Let_def cpmm_swap_of_def cpmm_keys_def)
qed

lemma simulated_cpmm_swap_witness:
  "\<exists>tx. build_swap_base_input_transaction ref_b58_dec (\<lambda>seed msg. replicate 64 7) zero_cpmm_accounts 5 3
        \<lparr>kp_seed = [], kp_pubkey = pubkey_zero\<rparr> sol_hash_zero = Some tx \<and>
     tx_from_bytes (tx_serialize tx) = Ok tx \<and> length (tx_signatures tx) = 1"
  using simulated_cpmm_swap [OF ref_b58.base58_numeric_axioms zero_accounts_wf(4), of "\<lparr>kp_seed = [], kp_pubkey = pubkey_zero\<rparr>"
      sol_hash_zero "\<lambda>seed msg. replicate 64 7" 5 3, of "\<lambda>_. []" "TxSolana []" "BlockRef Solana 0" 0 0 0 0] zero_accounts_wf
  by (fastforce simp: zero_accounts_wf)

text \<open>
  C34: The v4 account provider. It panics only if some derived address has all 256 hashes on the
  curve. A missing pool and a failed RPC call are reported as such, after one call. When it
  succeeds, it has read the pool and then the market that the pool names; the pool belongs to the
  Raydium program and the market to the program the pool names; and every account it returns is
  a field of those two layouts or the right derived address: the vault signer of the market's nonce,
  the canonical authority, and the canonical token accounts of the user for the pool's mints. The
  accounts are then well-formed, as building the swap needs.
\<close>

theorem v4_swap_accounts_sound:
  assumes "wf_pubkey user"
  shows "(v4_swap_accounts enc sha256 on_curve rpc w pool user = None \<longrightarrow> exhausted sha256 on_curve) \<and>
    (rpc w (pubkey_to_base58 enc pool) = (Ok None, w1) \<longrightarrow>
       v4_swap_accounts enc sha256 on_curve rpc w pool user =
         Some (Err (PoolNotFound (pubkey_to_base58 enc pool) ''raydium_v4''), w1)) \<and>
    (rpc w (pubkey_to_base58 enc pool) = (Err reason, w1) \<longrightarrow>
       v4_swap_accounts enc sha256 on_curve rpc w pool user = Some (Err (PoolRpc (pubkey_to_base58 enc pool) reason), w1)) \<and>
    (v4_swap_accounts enc sha256 on_curve rpc w pool user = Some (Ok a, w2) \<longrightarrow>
       (\<exists>pool_raw f rest w1 market_raw g rest'.
          rpc w (pubkey_to_base58 enc pool) = (Ok (Some pool_raw), w1) \<and>
          ra_owner pool_raw = RAYDIUM_V4_PROGRAM_ID_PUBKEY \<and>
          fits AMM_INFO f \<and> ra_data pool_raw = layout_image AMM_INFO f @ rest \<and>
          rpc w1 (pubkey_to_base58 enc (Pubkey (f ''market''))) = (Ok (Some market_raw), w2) \<and>
          ra_owner market_raw = Pubkey (f ''market_program'') \<and>
          fits MARKET_STATE g \<and> ra_data market_raw = layout_image MARKET_STATE g @ rest' \<and>
          g ''magic'' = bytes_of_string ''serum'' \<and>
          v4_accounts_of sha256 on_curve pool user f g a) \<and>
       (hash32 sha256 \<and> wf_pubkey pool \<longrightarrow> list_all wf_pubkey (v4_keys a)))"
proof -
  let ?run = "v4_swap_accounts enc sha256 on_curve rpc w pool user"
  have missing: "?run = Some (Err (PoolNotFound (pubkey_to_base58 enc pool) ''raydium_v4''), w1)"
    if "rpc w (pubkey_to_base58 enc pool) = (Ok None, w1)"
    using that by (simp add: v4_swap_accounts_def fetch_account_def)
  have failed: "?run = Some (Err (PoolRpc (pubkey_to_base58 enc pool) reason), w1)"
    if "rpc w (pubkey_to_base58 enc pool) = (Err reason, w1)"
    using that by (simp add: v4_swap_accounts_def fetch_account_def)
  have reached: "\<exists>pool_raw w1 st miss market_raw w2 ms signer.
      fetch_account enc rpc w pool (PoolNotFound (pubkey_to_base58 enc pool) ''raydium_v4'') = (Inr pool_raw, w1) \<and>
      checked_v4_pool enc pool pool_raw = Inr st \<and>
      fetch_account enc rpc w1 (a4_market st) miss = (Inr market_raw, w2) \<and>
      checked_market enc sha256 on_curve st market_raw = Inr (ms, signer) \<and>
      ?run = map_option (\<lambda>a. (Ok a, w2)) (compose_v4_accounts sha256 on_curve pool user st ms signer)"
    if "?run = None \<or> (\<exists>a w2. ?run = Some (Ok a, w2))"
    using that unfolding v4_swap_accounts_def Let_def
    by (auto split: prod.splits sum.splits) (blast, metis option.simps(9))
  have facts: "\<exists>pool_raw f rest w1 market_raw w2 g rest' signer.
      rpc w (pubkey_to_base58 enc pool) = (Ok (Some pool_raw), w1) \<and> ra_owner pool_raw = RAYDIUM_V4_PROGRAM_ID_PUBKEY \<and>
      fits AMM_INFO f \<and> ra_data pool_raw = layout_image AMM_INFO f @ rest \<and>
      rpc w1 (pubkey_to_base58 enc (Pubkey (f ''market''))) = (Ok (Some market_raw), w2) \<and>
      ra_owner market_raw = Pubkey (f ''market_program'') \<and>
      fits MARKET_STATE g \<and> ra_data market_raw = layout_image MARKET_STATE g @ rest' \<and>
      g ''magic'' = bytes_of_string ''serum'' \<and>
      derive_market_vault_signer sha256 on_curve (a4_market (amm_v4_of f)) (ob_vault_signer_nonce (openbook_of g))
        (a4_market_program (amm_v4_of f)) = Inr signer \<and>
      ?run = map_option (\<lambda>a. (Ok a, w2)) (compose_v4_accounts sha256 on_curve pool user (amm_v4_of f) (openbook_of g) signer)"
    if run: "?run = None \<or> (\<exists>a w2. ?run = Some (Ok a, w2))"
  proof -
    from reached [OF run] obtain pool_raw w1 st market_raw w2 ms signer where
      p: "rpc w (pubkey_to_base58 enc pool) = (Ok (Some pool_raw), w1)" "checked_v4_pool enc pool pool_raw = Inr st"
      and m: "rpc w1 (pubkey_to_base58 enc (a4_market st)) = (Ok (Some market_raw), w2)"
        "checked_market enc sha256 on_curve st market_raw = Inr (ms, signer)"
      and r: "?run = map_option (\<lambda>a. (Ok a, w2)) (compose_v4_accounts sha256 on_curve pool user st ms signer)"
      unfolding fetch_account_Ok by blast
    from checked_v4_pool_Ok [OF p(2)] obtain f rest where f: "ra_owner pool_raw = RAYDIUM_V4_PROGRAM_ID_PUBKEY"
      "fits AMM_INFO f" "ra_data pool_raw = layout_image AMM_INFO f @ rest" "st = amm_v4_of f" by blast
    note mk = checked_market_Ok [OF m(2)]
    then obtain g rest' where g: "fits MARKET_STATE g" "ra_data market_raw = layout_image MARKET_STATE g @ rest'"
      "g ''magic'' = bytes_of_string ''serum''" "ms = openbook_of g" using decode_market_Ok by blast
    have fields: "a4_market (amm_v4_of f) = Pubkey (f ''market'')" "a4_market_program (amm_v4_of f) = Pubkey (f ''market_program'')"
      by (simp_all add: amm_v4_of_def)
    have "rpc w1 (pubkey_to_base58 enc (Pubkey (f ''market''))) = (Ok (Some market_raw), w2)"
      "ra_owner market_raw = Pubkey (f ''market_program'')"
      using m(1) mk by (simp_all add: f(4) fields)
    moreover note mk [THEN conjunct2, THEN conjunct2, unfolded f(4) g(4)] r [unfolded f(4) g(4)]
    ultimately show ?thesis using p(1) f(1-3) g(1-3) by blast
  qed
  show ?thesis
  proof (intro conjI impI)
    assume "?run = None"
    with facts show "exhausted sha256 on_curve"
      using compose_v4(2) [OF assms] by (metis option.map_disc_iff)
  next
    assume run: "?run = Some (Ok a, w2)"
    with facts obtain pool_raw f rest w1 market_raw w2' g rest' signer where
      p: "rpc w (pubkey_to_base58 enc pool) = (Ok (Some pool_raw), w1)" "ra_owner pool_raw = RAYDIUM_V4_PROGRAM_ID_PUBKEY"
        "fits AMM_INFO f" "ra_data pool_raw = layout_image AMM_INFO f @ rest"
        "rpc w1 (pubkey_to_base58 enc (Pubkey (f ''market''))) = (Ok (Some market_raw), w2')"
        "ra_owner market_raw = Pubkey (f ''market_program'')"
        "fits MARKET_STATE g" "ra_data market_raw = layout_image MARKET_STATE g @ rest'"
        "g ''magic'' = bytes_of_string ''serum''"
      and signer: "derive_market_vault_signer sha256 on_curve (a4_market (amm_v4_of f)) (ob_vault_signer_nonce (openbook_of g))
          (a4_market_program (amm_v4_of f)) = Inr signer"
      and r: "?run = map_option (\<lambda>a. (Ok a, w2')) (compose_v4_accounts sha256 on_curve pool user (amm_v4_of f) (openbook_of g) signer)"
      by blast
    from r run have c: "compose_v4_accounts sha256 on_curve pool user (amm_v4_of f) (openbook_of g) signer = Some a" "w2' = w2"
      by (cases "compose_v4_accounts sha256 on_curve pool user (amm_v4_of f) (openbook_of g) signer"; simp)+
    note acc = compose_v4(1) [OF assms p(3,7) signer c(1)]
    show "\<exists>pool_raw f rest w1 market_raw g rest'.
          rpc w (pubkey_to_base58 enc pool) = (Ok (Some pool_raw), w1) \<and>
          ra_owner pool_raw = RAYDIUM_V4_PROGRAM_ID_PUBKEY \<and>
          fits AMM_INFO f \<and> ra_data pool_raw = layout_image AMM_INFO f @ rest \<and>
          rpc w1 (pubkey_to_base58 enc (Pubkey (f ''market''))) = (Ok (Some market_raw), w2) \<and>
          ra_owner market_raw = Pubkey (f ''market_program'') \<and>
          fits MARKET_STATE g \<and> ra_data market_raw = layout_image MARKET_STATE g @ rest' \<and>
          g ''magic'' = bytes_of_string ''serum'' \<and>
          v4_accounts_of sha256 on_curve pool user f g a"
      using p acc unfolding c(2) by blast
    show "list_all wf_pubkey (v4_keys a)" if "hash32 sha256 \<and> wf_pubkey pool"
      using that v4_accounts_of_wf [OF _ _ assms p(3,7) acc] by blast
  qed (use missing failed in blast)+
qed

lemma v4_swap_accounts_sound_witness:
  "v4_swap_accounts ref_b58_enc (\<lambda>_. replicate 32 0) (\<lambda>_. False) (\<lambda>w _. (Ok None, True)) False pubkey_zero pubkey_zero =
     Some (Err (PoolNotFound (pubkey_to_base58 ref_b58_enc pubkey_zero) ''raydium_v4''), True)"
  using v4_swap_accounts_sound [OF zero_accounts_wf(1), of ref_b58_enc "\<lambda>_. replicate 32 0" "\<lambda>_. False"
      "\<lambda>w _. (Ok None, True)" False pubkey_zero True] by simp

text \<open>
  C35: The CPMM account provider, in the same way: it reads one account, which must belong to the CPMM
  program and carry the pool discriminator, and returns the pool's fields, the canonical authority
  and the canonical token accounts of the user for each mint under that mint's own token program.
\<close>

theorem cpmm_swap_accounts_sound:
  assumes "base58_numeric enc dec" "wf_pubkey user"
  shows "(cpmm_swap_accounts enc dec sha256 on_curve rpc w pool user = None \<longrightarrow> exhausted sha256 on_curve) \<and>
    (rpc w (pubkey_to_base58 enc pool) = (Ok None, w1) \<longrightarrow>
       cpmm_swap_accounts enc dec sha256 on_curve rpc w pool user =
         Some (Err (PoolNotFound (pubkey_to_base58 enc pool) ''raydium_cpmm''), w1)) \<and>
    (cpmm_swap_accounts enc dec sha256 on_curve rpc w pool user = Some (Ok a, w2) \<longrightarrow>
       (\<exists>raw f rest.
          rpc w (pubkey_to_base58 enc pool) = (Ok (Some raw), w2) \<and>
          ra_owner raw = program_key RAYDIUM_CPMM_PROGRAM_ID \<and>
          fits CPMM_POOL_STATE f \<and> ra_data raw = layout_image CPMM_POOL_STATE f @ rest \<and>
          f ''discriminator'' = CPMM_POOL_STATE_DISCRIMINATOR \<and>
          cpmm_accounts_of sha256 on_curve pool user f a))"
proof -
  let ?run = "cpmm_swap_accounts enc dec sha256 on_curve rpc w pool user"
  have pid: "parse_program_id dec RAYDIUM_CPMM_PROGRAM_ID = Some (program_key RAYDIUM_CPMM_PROGRAM_ID)"
    using program_id_parses(1) [OF assms(1), of RAYDIUM_CPMM_PROGRAM_ID] by (simp add: parse_program_id_def)
  have missing: "?run = Some (Err (PoolNotFound (pubkey_to_base58 enc pool) ''raydium_cpmm''), w1)"
    if "rpc w (pubkey_to_base58 enc pool) = (Ok None, w1)"
    using that by (simp add: cpmm_swap_accounts_def fetch_account_def)
  have reached: "\<exists>raw w1 f rest.
      rpc w (pubkey_to_base58 enc pool) = (Ok (Some raw), w1) \<and>
      ra_owner raw = program_key RAYDIUM_CPMM_PROGRAM_ID \<and>
      fits CPMM_POOL_STATE f \<and> ra_data raw = layout_image CPMM_POOL_STATE f @ rest \<and>
      f ''discriminator'' = CPMM_POOL_STATE_DISCRIMINATOR \<and>
      ?run = map_option (\<lambda>a. (Ok a, w1)) (compose_cpmm_accounts dec sha256 on_curve pool user (cpmm_state_of f))"
    if run: "?run = None \<or> (\<exists>a w2. ?run = Some (Ok a, w2))"
  proof -
    obtain r w1 where f1: "fetch_account enc rpc w pool (PoolNotFound (pubkey_to_base58 enc pool) ''raydium_cpmm'') = (r, w1)"
      by fastforce
    with run obtain raw where raw: "r = Inr raw" by (cases r) (auto simp: cpmm_swap_accounts_def)
    with run f1 obtain st where st: "checked_cpmm_pool enc (program_key RAYDIUM_CPMM_PROGRAM_ID) pool raw = Inr st"
      by (cases "checked_cpmm_pool enc (program_key RAYDIUM_CPMM_PROGRAM_ID) pool raw") (auto simp: cpmm_swap_accounts_def pid)
    have "?run = map_option (\<lambda>a. (Ok a, w1)) (compose_cpmm_accounts dec sha256 on_curve pool user st)"
      using f1 raw st by (simp add: cpmm_swap_accounts_def pid)
    moreover have "ra_owner raw = program_key RAYDIUM_CPMM_PROGRAM_ID" "decode_cpmm_pool_state (ra_data raw) = Inr st"
      using st by (auto simp: checked_cpmm_pool_def split: if_splits)
    moreover note decode_cpmm_Ok [OF this(2)]
    moreover have "rpc w (pubkey_to_base58 enc pool) = (Ok (Some raw), w1)" using f1 raw by (simp add: fetch_account_Ok)
    ultimately show ?thesis by blast
  qed
  show ?thesis
  proof (intro conjI impI)
    assume "?run = None"
    with reached show "exhausted sha256 on_curve"
      using compose_cpmm(2) [OF assms] by (metis option.map_disc_iff)
  next
    assume run: "?run = Some (Ok a, w2)"
    with reached obtain raw w1 f rest where
      p: "rpc w (pubkey_to_base58 enc pool) = (Ok (Some raw), w1)" "ra_owner raw = program_key RAYDIUM_CPMM_PROGRAM_ID"
        "fits CPMM_POOL_STATE f" "ra_data raw = layout_image CPMM_POOL_STATE f @ rest"
        "f ''discriminator'' = CPMM_POOL_STATE_DISCRIMINATOR"
      and r: "?run = map_option (\<lambda>a. (Ok a, w1)) (compose_cpmm_accounts dec sha256 on_curve pool user (cpmm_state_of f))"
      by blast
    from r run have c: "compose_cpmm_accounts dec sha256 on_curve pool user (cpmm_state_of f) = Some a" "w1 = w2"
      by (cases "compose_cpmm_accounts dec sha256 on_curve pool user (cpmm_state_of f)"; simp)+
    show "\<exists>raw f rest.
          rpc w (pubkey_to_base58 enc pool) = (Ok (Some raw), w2) \<and>
          ra_owner raw = program_key RAYDIUM_CPMM_PROGRAM_ID \<and>
          fits CPMM_POOL_STATE f \<and> ra_data raw = layout_image CPMM_POOL_STATE f @ rest \<and>
          f ''discriminator'' = CPMM_POOL_STATE_DISCRIMINATOR \<and>
          cpmm_accounts_of sha256 on_curve pool user f a"
      using p compose_cpmm(1) [OF assms p(3) c(1)] unfolding c(2) by blast
  qed (use missing in blast)
qed

lemma cpmm_swap_accounts_sound_witness:
  "cpmm_swap_accounts ref_b58_enc ref_b58_dec (\<lambda>_. replicate 32 0) (\<lambda>_. False) (\<lambda>w _. (Ok None, True)) False
     pubkey_zero pubkey_zero =
   Some (Err (PoolNotFound (pubkey_to_base58 ref_b58_enc pubkey_zero) ''raydium_cpmm''), True)"
  using cpmm_swap_accounts_sound [OF ref_b58.base58_numeric_axioms zero_accounts_wf(1), of "\<lambda>_. replicate 32 0" "\<lambda>_. False"
      "\<lambda>w _. (Ok None, True)" False pubkey_zero True] by simp

end
