(* ===== verification/Batcher.thy ===== *)
theory Batcher
  imports Chain
begin

text \<open>
  The per-table buffers of the indexer (\<open>crates/indexer/src/batcher.rs\<close>). An \<open>Instant\<close> is a number of
  milliseconds and every read of the clock is an argument \<open>now\<close>; \<open>elapsed\<close> saturates at zero, as the
  subtraction of \<open>nat\<close> does. Holder snapshots are payload that the batcher only moves: their type is a
  parameter.
\<close>

type_synonym instant = nat

section \<open>One buffer\<close>

record 'a per_table_buffer =
  ptb_events :: "'a list"
  ptb_first_at :: "instant option"

definition buffer_new :: "'a per_table_buffer" where
  "buffer_new = \<lparr>ptb_events = [], ptb_first_at = None\<rparr>"

definition buffer_push :: "instant \<Rightarrow> 'a \<Rightarrow> 'a per_table_buffer \<Rightarrow> 'a per_table_buffer" where
  "buffer_push now event b =
     (let b = (if ptb_first_at b = None then b\<lparr>ptb_first_at := Some now\<rparr> else b)
      in b\<lparr>ptb_events := ptb_events b @ [event]\<rparr>)"

definition buffer_len :: "'a per_table_buffer \<Rightarrow> usize" where
  "buffer_len b = length (ptb_events b)"

definition buffer_is_empty :: "'a per_table_buffer \<Rightarrow> bool" where
  "buffer_is_empty b = (ptb_events b = [])"

definition buffer_should_flush :: "instant \<Rightarrow> 'a per_table_buffer \<Rightarrow> usize \<Rightarrow> u64 \<Rightarrow> bool" where
  "buffer_should_flush now b batch_size timeout_ms =
     (if buffer_is_empty b then False
      else if buffer_len b \<ge> batch_size then True
      else case ptb_first_at b of
        Some first \<Rightarrow> now - first \<ge> unat timeout_ms
      | None \<Rightarrow> False)"

definition buffer_drain :: "'a per_table_buffer \<Rightarrow> 'a list \<times> 'a per_table_buffer" where
  "buffer_drain b = (ptb_events b, b\<lparr>ptb_first_at := None, ptb_events := []\<rparr>)"

section \<open>The batcher\<close>

record 'h event_batcher =
  eb_transfers :: "transfer per_table_buffer"
  eb_swaps :: "swap per_table_buffer"
  eb_pool_events :: "pool_event per_table_buffer"
  eb_holder_snapshots :: "'h per_table_buffer"
  eb_unknown_event_count :: u64
  eb_batch_size :: usize
  eb_timeout_ms :: u64

definition batcher_new :: "usize \<Rightarrow> u64 \<Rightarrow> 'h event_batcher" where
  "batcher_new batch_size timeout_ms =
     \<lparr>eb_transfers = buffer_new, eb_swaps = buffer_new, eb_pool_events = buffer_new,
      eb_holder_snapshots = buffer_new, eb_unknown_event_count = 0,
      eb_batch_size = batch_size, eb_timeout_ms = timeout_ms\<rparr>"

definition push_transfer :: "instant \<Rightarrow> transfer \<Rightarrow> 'h event_batcher \<Rightarrow> 'h event_batcher" where
  "push_transfer now t b = b\<lparr>eb_transfers := buffer_push now t (eb_transfers b)\<rparr>"

definition push_swap :: "instant \<Rightarrow> swap \<Rightarrow> 'h event_batcher \<Rightarrow> 'h event_batcher" where
  "push_swap now s b = b\<lparr>eb_swaps := buffer_push now s (eb_swaps b)\<rparr>"

definition push_pool_event :: "instant \<Rightarrow> pool_event \<Rightarrow> 'h event_batcher \<Rightarrow> 'h event_batcher" where
  "push_pool_event now e b = b\<lparr>eb_pool_events := buffer_push now e (eb_pool_events b)\<rparr>"

definition push_holder_snapshot :: "instant \<Rightarrow> 'h \<Rightarrow> 'h event_batcher \<Rightarrow> 'h event_batcher" where
  "push_holder_snapshot now h b = b\<lparr>eb_holder_snapshots := buffer_push now h (eb_holder_snapshots b)\<rparr>"

definition count_unknown :: "'h event_batcher \<Rightarrow> 'h event_batcher" where
  "count_unknown b = b\<lparr>eb_unknown_event_count := eb_unknown_event_count b + 1\<rparr>"

definition transfers_should_flush :: "instant \<Rightarrow> 'h event_batcher \<Rightarrow> bool" where
  "transfers_should_flush now b = buffer_should_flush now (eb_transfers b) (eb_batch_size b) (eb_timeout_ms b)"

definition swaps_should_flush :: "instant \<Rightarrow> 'h event_batcher \<Rightarrow> bool" where
  "swaps_should_flush now b = buffer_should_flush now (eb_swaps b) (eb_batch_size b) (eb_timeout_ms b)"

definition pool_events_should_flush :: "instant \<Rightarrow> 'h event_batcher \<Rightarrow> bool" where
  "pool_events_should_flush now b = buffer_should_flush now (eb_pool_events b) (eb_batch_size b) (eb_timeout_ms b)"

definition holder_snapshots_should_flush :: "instant \<Rightarrow> 'h event_batcher \<Rightarrow> bool" where
  "holder_snapshots_should_flush now b =
     buffer_should_flush now (eb_holder_snapshots b) (eb_batch_size b) (eb_timeout_ms b)"

text \<open>The four clock reads of \<open>any_should_flush\<close>, in order.\<close>

definition any_should_flush :: "instant \<Rightarrow> instant \<Rightarrow> instant \<Rightarrow> instant \<Rightarrow> 'h event_batcher \<Rightarrow> bool" where
  "any_should_flush n1 n2 n3 n4 b =
     (transfers_should_flush n1 b \<or> swaps_should_flush n2 b \<or> pool_events_should_flush n3 b \<or>
      holder_snapshots_should_flush n4 b)"

definition drain_transfers :: "'h event_batcher \<Rightarrow> transfer list \<times> 'h event_batcher" where
  "drain_transfers b = (let (es, t) = buffer_drain (eb_transfers b) in (es, b\<lparr>eb_transfers := t\<rparr>))"

definition drain_swaps :: "'h event_batcher \<Rightarrow> swap list \<times> 'h event_batcher" where
  "drain_swaps b = (let (es, t) = buffer_drain (eb_swaps b) in (es, b\<lparr>eb_swaps := t\<rparr>))"

definition drain_pool_events :: "'h event_batcher \<Rightarrow> pool_event list \<times> 'h event_batcher" where
  "drain_pool_events b = (let (es, t) = buffer_drain (eb_pool_events b) in (es, b\<lparr>eb_pool_events := t\<rparr>))"

definition drain_holder_snapshots :: "'h event_batcher \<Rightarrow> 'h list \<times> 'h event_batcher" where
  "drain_holder_snapshots b =
     (let (es, t) = buffer_drain (eb_holder_snapshots b) in (es, b\<lparr>eb_holder_snapshots := t\<rparr>))"

record 'h drained_batch =
  db_transfers :: "transfer list"
  db_swaps :: "swap list"
  db_pool_events :: "pool_event list"
  db_holder_snapshots :: "'h list"

definition drained_is_empty :: "'h drained_batch \<Rightarrow> bool" where
  "drained_is_empty d =
     (db_transfers d = [] \<and> db_swaps d = [] \<and> db_pool_events d = [] \<and> db_holder_snapshots d = [])"

definition drain_all :: "'h event_batcher \<Rightarrow> 'h drained_batch \<times> 'h event_batcher" where
  "drain_all b =
     (let (ts, b) = drain_transfers b; (ss, b) = drain_swaps b; (ps, b) = drain_pool_events b;
          (hs, b) = drain_holder_snapshots b
      in (\<lparr>db_transfers = ts, db_swaps = ss, db_pool_events = ps, db_holder_snapshots = hs\<rparr>, b))"

definition pending_count :: "'h event_batcher \<Rightarrow> usize" where
  "pending_count b =
     buffer_len (eb_transfers b) + buffer_len (eb_swaps b) + buffer_len (eb_pool_events b) +
     buffer_len (eb_holder_snapshots b)"

section \<open>Invariant and lemmas\<close>

text \<open>The time of the first event is known exactly while there are events.\<close>

definition wf_buffer :: "'a per_table_buffer \<Rightarrow> bool" where
  "wf_buffer b = (ptb_first_at b = None \<longleftrightarrow> ptb_events b = [])"

definition wf_batcher :: "'h event_batcher \<Rightarrow> bool" where
  "wf_batcher b = (wf_buffer (eb_transfers b) \<and> wf_buffer (eb_swaps b) \<and> wf_buffer (eb_pool_events b) \<and>
     wf_buffer (eb_holder_snapshots b))"

lemma wf_buffer_new [simp]: "wf_buffer buffer_new"
  by (simp add: wf_buffer_def buffer_new_def)

lemma wf_buffer_push [simp]: "wf_buffer (buffer_push now e b)"
  by (simp add: wf_buffer_def buffer_push_def Let_def)

lemma wf_buffer_drain [simp]: "wf_buffer (snd (buffer_drain b))"
  by (simp add: wf_buffer_def buffer_drain_def)

lemma buffer_push_events [simp]: "ptb_events (buffer_push now e b) = ptb_events b @ [e]"
  by (simp add: buffer_push_def Let_def)

lemma buffer_push_first:
  "ptb_first_at (buffer_push now e b) = (case ptb_first_at b of None \<Rightarrow> Some now | Some t \<Rightarrow> Some t)"
  by (auto simp: buffer_push_def Let_def split: option.splits)

lemma buffer_drain_events [simp]:
  "fst (buffer_drain b) = ptb_events b" "ptb_events (snd (buffer_drain b)) = []"
  by (simp_all add: buffer_drain_def)

lemma buffer_new_events [simp]: "ptb_events buffer_new = []"
  by (simp add: buffer_new_def)

lemma buffer_should_flush_iff:
  "wf_buffer b \<Longrightarrow> buffer_should_flush now b bsize timeout \<longleftrightarrow>
     ptb_events b \<noteq> [] \<and> (bsize \<le> length (ptb_events b) \<or> unat timeout \<le> now - the (ptb_first_at b))"
  by (auto simp: buffer_should_flush_def wf_buffer_def buffer_is_empty_def buffer_len_def split: option.splits)

lemma not_flush_bound:
  "\<not> buffer_should_flush now b bsize timeout \<Longrightarrow> length (ptb_events b) < max 1 bsize"
  by (auto simp: buffer_should_flush_def buffer_is_empty_def buffer_len_def split: if_splits)

lemma drain_all_simps:
  "db_transfers (fst (drain_all b)) = ptb_events (eb_transfers b)"
  "db_swaps (fst (drain_all b)) = ptb_events (eb_swaps b)"
  "db_pool_events (fst (drain_all b)) = ptb_events (eb_pool_events b)"
  "db_holder_snapshots (fst (drain_all b)) = ptb_events (eb_holder_snapshots b)"
  "ptb_events (eb_transfers (snd (drain_all b))) = []" "ptb_events (eb_swaps (snd (drain_all b))) = []"
  "ptb_events (eb_pool_events (snd (drain_all b))) = []"
  "ptb_events (eb_holder_snapshots (snd (drain_all b))) = []"
  "eb_batch_size (snd (drain_all b)) = eb_batch_size b" "eb_timeout_ms (snd (drain_all b)) = eb_timeout_ms b"
  "eb_unknown_event_count (snd (drain_all b)) = eb_unknown_event_count b"
  by (simp_all add: drain_all_def drain_transfers_def drain_swaps_def drain_pool_events_def
      drain_holder_snapshots_def Let_def buffer_drain_def)

lemma wf_drain_all: "wf_batcher (snd (drain_all b))"
  by (simp add: wf_batcher_def drain_all_def drain_transfers_def drain_swaps_def drain_pool_events_def
      drain_holder_snapshots_def Let_def buffer_drain_def wf_buffer_def)

lemma wf_batcher_new: "wf_batcher (batcher_new bsize timeout)"
  by (simp add: wf_batcher_def batcher_new_def)

end
