(* ===== verification/Indexer.thy ===== *)
theory Indexer
  imports Batcher
begin

text \<open>
  The indexer (\<open>crates/indexer/src\<close>: \<open>error.rs\<close>, \<open>router.rs\<close>, \<open>reorg.rs\<close>, \<open>lib.rs\<close>): routing of adapter
  events into the batcher, the reorg protocol and the run loop. The traits it is generic over
  (\<open>EventSink\<close>, \<open>AsyncCheckpointStore\<close>, the graph writer and the pool hook) answer each call with
  success or an error and nothing else, so an execution is the log of the calls made, and the
  environment decides by the position in the log which calls fail. Token metadata, holder snapshots
  and Token-2022 instructions are payload that the indexer only moves: their types are parameters.
\<close>

section \<open>Events, calls and errors\<close>

datatype indexer_error =
    IxAdapter string
  | IxStorage string
  | IxCheckpoint string
  | IxStreamEnded
  | IxShutdown
  | IxConfig string

record checkpoint =
  cp_slot :: u64
  cp_last_signature :: "string option"

datatype ('m, 'k) event =
    EvTransfer transfer
  | EvSwap swap
  | EvPoolEvent pool_event
  | EvTokenMeta 'm
  | EvToken2022Instruction 'k
  | EvReorgMarker u64
  | EvSlotFinalized u64

datatype ('m, 'h) call =
    InsertTransfers "transfer list"
  | InsertSwaps "swap list"
  | InsertPoolEvents "pool_event list"
  | UpsertHolderSnapshots "'h list"
  | UpsertTokenMeta 'm
  | DeleteFromSlot string u64
  | SaveCheckpoint string checkpoint
  | GraphPoolEvent pool_event
  | GraphTokenMeta 'm u64
  | GraphReorg string u64 date_time
  | HookLaunch chain string string string date_time block_ref
  | HookReorg string u64

text \<open>
  The environment: whether the call at a position of the log fails. A failing checkpoint call
  returns an error of which the code keeps the text.
\<close>

record env =
  env_error :: "nat \<Rightarrow> indexer_error option"
  env_store_error :: "nat \<Rightarrow> string option"

type_synonym ('m, 'h) log = "('m, 'h) call list"
type_synonym ('m, 'h, 'a) io = "('m, 'h) log \<Rightarrow> ('a, indexer_error) result \<times> ('m, 'h) log"

definition io_return :: "'a \<Rightarrow> ('m, 'h, 'a) io" where
  "io_return a log = (Ok a, log)"

text \<open>Sequencing with \<open>?\<close>.\<close>

definition io_bind :: "('m, 'h, 'a) io \<Rightarrow> ('a \<Rightarrow> ('m, 'h, 'b) io) \<Rightarrow> ('m, 'h, 'b) io" where
  "io_bind m f log = (case m log of (Inl e, log') \<Rightarrow> (Inl e, log') | (Inr a, log') \<Rightarrow> f a log')"

definition perform :: "env \<Rightarrow> ('m, 'h) call \<Rightarrow> ('m, 'h, unit) io" where
  "perform env c log =
     (case env_error env (length log) of Some e \<Rightarrow> Err e | None \<Rightarrow> Ok (), log @ [c])"

definition perform_save :: "env \<Rightarrow> string \<Rightarrow> checkpoint \<Rightarrow> ('m, 'h, unit) io" where
  "perform_save env adapter_id cp log =
     (case env_store_error env (length log) of Some e \<Rightarrow> Err (IxCheckpoint e) | None \<Rightarrow> Ok (),
      log @ [SaveCheckpoint adapter_id cp])"

text \<open>A call that is made only when the optional component is there.\<close>

definition perform_when :: "bool \<Rightarrow> env \<Rightarrow> ('m, 'h) call \<Rightarrow> ('m, 'h, unit) io" where
  "perform_when present env c = (if present then perform env c else io_return ())"

section \<open>Routing\<close>

datatype 'm route_result =
    Buffered
  | RouteTokenMeta 'm
  | RouteReorg u64
  | RouteSlotFinalized u64
  | RouteUnknown

definition route_event ::
    "instant \<Rightarrow> ('m, 'k) event \<Rightarrow> 'h event_batcher \<Rightarrow> 'm route_result \<times> 'h event_batcher" where
  "route_event now event batcher =
     (case event of
        EvTransfer t \<Rightarrow> (Buffered, push_transfer now t batcher)
      | EvSwap s \<Rightarrow> (Buffered, push_swap now s batcher)
      | EvPoolEvent e \<Rightarrow> (Buffered, push_pool_event now e batcher)
      | EvTokenMeta meta \<Rightarrow> (RouteTokenMeta meta, batcher)
      | EvReorgMarker slot \<Rightarrow> (RouteReorg slot, batcher)
      | EvSlotFinalized slot \<Rightarrow> (RouteSlotFinalized slot, batcher)
      | EvToken2022Instruction k \<Rightarrow> (RouteUnknown, count_unknown batcher))"

section \<open>The reorg protocol\<close>

text \<open>
  One table of \<open>flush_drained_batch\<close>: an empty slice is skipped, and an error is remembered but
  does not stop the other tables.
\<close>

definition flush_one ::
    "env \<Rightarrow> bool \<Rightarrow> ('m, 'h) call \<Rightarrow> indexer_error option \<Rightarrow> ('m, 'h) log \<Rightarrow> indexer_error option \<times> ('m, 'h) log" where
  "flush_one env is_empty c last_err log =
     (if is_empty then (last_err, log)
      else case perform env c log of
        (Inl e, log') \<Rightarrow> (Some e, log')
      | (Inr u, log') \<Rightarrow> (last_err, log'))"

definition flush_drained_batch :: "env \<Rightarrow> 'h drained_batch \<Rightarrow> ('m, 'h, unit) io" where
  "flush_drained_batch env batch log =
     (let (err, log) = flush_one env (db_transfers batch = []) (InsertTransfers (db_transfers batch)) None log;
          (err, log) = flush_one env (db_swaps batch = []) (InsertSwaps (db_swaps batch)) err log;
          (err, log) = flush_one env (db_pool_events batch = []) (InsertPoolEvents (db_pool_events batch)) err log;
          (err, log) = flush_one env (db_holder_snapshots batch = [])
                         (UpsertHolderSnapshots (db_holder_snapshots batch)) err log
      in (case err of Some e \<Rightarrow> Err e | None \<Rightarrow> Ok (), log))"

definition handle_reorg ::
    "env \<Rightarrow> u64 \<Rightarrow> string \<Rightarrow> string \<Rightarrow> 'h event_batcher \<Rightarrow> ('m, 'h, u64 \<times> 'h event_batcher) io" where
  "handle_reorg env reorg_slot chain_name adapter_id batcher =
     (let (batch, batcher) = drain_all batcher;
          rewound_slot = (if reorg_slot = 0 then 0 else reorg_slot - 1)
      in io_bind (if \<not> drained_is_empty batch then flush_drained_batch env batch else io_return ()) (\<lambda>_.
         io_bind (perform env (DeleteFromSlot chain_name reorg_slot)) (\<lambda>_.
         io_bind (perform_save env adapter_id \<lparr>cp_slot = rewound_slot, cp_last_signature = None\<rparr>) (\<lambda>_.
         io_return (rewound_slot, batcher)))))"

section \<open>The run loop\<close>

record indexer =
  ix_adapter_id :: string
  ix_chain :: string
  ix_batch_size :: usize
  ix_timeout_ms :: u64
  ix_has_graph_writer :: bool
  ix_has_hook :: bool

record 'h run_state =
  rs_batcher :: "'h event_batcher"
  rs_last_slot :: u64
  rs_last_signature :: "string option"
  rs_last_block_time :: date_time

text \<open>
  What one poll of \<open>select!\<close> yields. An event comes with the clock: reading 0 is taken when it is
  pushed, readings 1 to 4 by the four flush checks.
\<close>

datatype ('m, 'k) poll =
    ShutdownRequested
  | StreamExhausted
  | AdapterFailed string
  | Polled "('m, 'k) event" "nat \<Rightarrow> instant"

definition ix_save_checkpoint :: "env \<Rightarrow> indexer \<Rightarrow> u64 \<Rightarrow> string option \<Rightarrow> ('m, 'h, unit) io" where
  "ix_save_checkpoint env ix slot last_signature =
     perform_save env (ix_adapter_id ix) \<lparr>cp_slot = slot, cp_last_signature = last_signature\<rparr>"

text \<open>Before routing: the block time is tracked and pool creations go to the graph writer and the hook.\<close>

definition pre_route :: "env \<Rightarrow> indexer \<Rightarrow> ('m, 'k) event \<Rightarrow> 'h run_state \<Rightarrow> ('m, 'h, 'h run_state) io" where
  "pre_route env ix event st =
     (case event of
        EvPoolEvent pe \<Rightarrow>
          (let st = st\<lparr>rs_last_block_time := p_block_time pe\<rparr> in
           case p_kind pe of
             PoolInitialize token0 token1 \<Rightarrow>
               io_bind (perform_when (ix_has_graph_writer ix) env (GraphPoolEvent pe)) (\<lambda>_.
               io_bind (perform_when (ix_has_hook ix) env
                         (HookLaunch (p_chain pe) (canonical (p_actor pe)) (canonical token0)
                            (canonical token1) (p_block_time pe) (p_block pe))) (\<lambda>_.
               io_return st))
           | _ \<Rightarrow> io_return st)
      | EvTransfer t \<Rightarrow> io_return (st\<lparr>rs_last_block_time := t_block_time t\<rparr>)
      | EvSwap s \<Rightarrow> io_return (st\<lparr>rs_last_block_time := s_block_time s\<rparr>)
      | _ \<Rightarrow> io_return st)"

text \<open>
  The flush check of one table: \<open>should_flush\<close>, drain, insert, save the checkpoint. The four checks
  of the loop are the four instances.
\<close>

definition flush_table ::
    "env \<Rightarrow> indexer \<Rightarrow> ('h event_batcher \<Rightarrow> bool) \<Rightarrow> ('h event_batcher \<Rightarrow> 'e list \<times> 'h event_batcher) \<Rightarrow>
     ('e list \<Rightarrow> ('m, 'h) call) \<Rightarrow> 'h run_state \<Rightarrow> ('m, 'h, 'h run_state) io" where
  "flush_table env ix should_flush drain call st =
     (if should_flush (rs_batcher st)
      then
        let (events, b) = drain (rs_batcher st)
        in io_bind (perform env (call events)) (\<lambda>_.
           io_bind (ix_save_checkpoint env ix (rs_last_slot st) (rs_last_signature st)) (\<lambda>_.
           io_return (st\<lparr>rs_batcher := b\<rparr>)))
      else io_return st)"

definition check_flush ::
    "env \<Rightarrow> indexer \<Rightarrow> (nat \<Rightarrow> instant) \<Rightarrow> 'h run_state \<Rightarrow> ('m, 'h, 'h run_state) io" where
  "check_flush env ix clock st =
     io_bind (flush_table env ix (transfers_should_flush (clock 1)) drain_transfers InsertTransfers st) (\<lambda>st.
     io_bind (flush_table env ix (swaps_should_flush (clock 2)) drain_swaps InsertSwaps st) (\<lambda>st.
     io_bind (flush_table env ix (pool_events_should_flush (clock 3)) drain_pool_events InsertPoolEvents st) (\<lambda>st.
     flush_table env ix (holder_snapshots_should_flush (clock 4)) drain_holder_snapshots UpsertHolderSnapshots st)))"

definition reorg_step :: "env \<Rightarrow> indexer \<Rightarrow> u64 \<Rightarrow> 'h run_state \<Rightarrow> ('m, 'h, 'h run_state) io" where
  "reorg_step env ix slot st =
     io_bind (handle_reorg env slot (ix_chain ix) (ix_adapter_id ix) (rs_batcher st)) (\<lambda>(last_slot, b).
     io_bind (perform_when (ix_has_graph_writer ix) env (GraphReorg (ix_chain ix) slot (rs_last_block_time st))) (\<lambda>_.
     io_bind (perform_when (ix_has_hook ix) env (HookReorg (ix_chain ix) slot)) (\<lambda>_.
     io_return (st\<lparr>rs_batcher := b, rs_last_slot := last_slot, rs_last_signature := None\<rparr>))))"

definition handle_event ::
    "env \<Rightarrow> indexer \<Rightarrow> ('m, 'k) event \<Rightarrow> (nat \<Rightarrow> instant) \<Rightarrow> 'h run_state \<Rightarrow> ('m, 'h, 'h run_state) io" where
  "handle_event env ix event clock st =
     io_bind (pre_route env ix event st) (\<lambda>st.
     let (route, b) = route_event (clock 0) event (rs_batcher st); st = st\<lparr>rs_batcher := b\<rparr> in
     case route of
       RouteTokenMeta meta \<Rightarrow>
         io_bind (perform env (UpsertTokenMeta meta)) (\<lambda>_.
         io_bind (perform_when (ix_has_graph_writer ix) env (GraphTokenMeta meta (rs_last_slot st))) (\<lambda>_.
         check_flush env ix clock st))
     | RouteReorg slot \<Rightarrow> reorg_step env ix slot st
     | Buffered \<Rightarrow> check_flush env ix clock st
     | RouteSlotFinalized slot \<Rightarrow> check_flush env ix clock st
     | RouteUnknown \<Rightarrow> check_flush env ix clock st)"

text \<open>After the loop: flush what is left and save the final checkpoint.\<close>

definition shut_down :: "env \<Rightarrow> indexer \<Rightarrow> 'h run_state \<Rightarrow> ('m, 'h, unit) io" where
  "shut_down env ix st =
     (let (final_batch, b) = drain_all (rs_batcher st)
      in io_bind (if \<not> drained_is_empty final_batch then flush_drained_batch env final_batch else io_return ()) (\<lambda>_.
         ix_save_checkpoint env ix (rs_last_slot st) (rs_last_signature st)))"

text \<open>A run over the polls so far: it has returned, or waits for the next poll.\<close>

datatype 'h run_status = Returned "(unit, indexer_error) result" | Waiting "'h run_state"

fun run_loop ::
    "env \<Rightarrow> indexer \<Rightarrow> ('m, 'k) poll list \<Rightarrow> 'h run_state \<Rightarrow> ('m, 'h) log \<Rightarrow> 'h run_status \<times> ('m, 'h) log" where
  "run_loop env ix [] st log = (Waiting st, log)"
| "run_loop env ix (ShutdownRequested # polls) st log =
     (case shut_down env ix st log of (r, log') \<Rightarrow> (Returned r, log'))"
| "run_loop env ix (StreamExhausted # polls) st log = (Returned (Err IxStreamEnded), log)"
| "run_loop env ix (AdapterFailed e # polls) st log = run_loop env ix polls st log"
| "run_loop env ix (Polled event clock # polls) st log =
     (case handle_event env ix event clock st log of
        (Inl e, log') \<Rightarrow> (Returned (Err e), log')
      | (Inr st', log') \<Rightarrow> run_loop env ix polls st' log')"

definition initial_state :: "indexer \<Rightarrow> checkpoint option \<Rightarrow> 'h run_state" where
  "initial_state ix maybe_checkpoint =
     \<lparr>rs_batcher = batcher_new (ix_batch_size ix) (ix_timeout_ms ix),
      rs_last_slot = (case maybe_checkpoint of Some c \<Rightarrow> cp_slot c | None \<Rightarrow> 0),
      rs_last_signature = (case maybe_checkpoint of Some c \<Rightarrow> cp_last_signature c | None \<Rightarrow> None),
      rs_last_block_time = 0\<rparr>"

definition indexer_run ::
    "env \<Rightarrow> indexer \<Rightarrow> (checkpoint option, string) result \<Rightarrow> ('m, 'k) poll list \<Rightarrow> 'h run_status \<times> ('m, 'h) log" where
  "indexer_run env ix loaded polls =
     (case loaded of
        Inl e \<Rightarrow> (Returned (Err (IxCheckpoint e)), [])
      | Inr maybe_checkpoint \<Rightarrow> run_loop env ix polls (initial_state ix maybe_checkpoint) [])"

end
