(* ===== verification/IndexerProps.thy ===== *)
theory IndexerProps
  imports Indexer "HOL-Library.Sublist"
begin

text \<open>
  What the indexer guarantees. A Hoare logic for its effects carries the proofs; the locale
  \<open>logged_table\<close> states what the run loop needs of a table and proves once that rows are neither lost
  nor reordered, and its interpretations are the four tables of the model.
\<close>

section \<open>A Hoare logic for effects\<close>

text \<open>
  \<open>io_valid P m Q E\<close>: from a log with \<open>P\<close>, the action ends with \<open>Q\<close> of its value, or fails with a log
  that satisfies \<open>E\<close>.
\<close>

definition io_valid ::
    "(('m, 'h) log \<Rightarrow> bool) \<Rightarrow> ('m, 'h, 'a) io \<Rightarrow> ('a \<Rightarrow> ('m, 'h) log \<Rightarrow> bool) \<Rightarrow> (('m, 'h) log \<Rightarrow> bool) \<Rightarrow> bool" where
  "io_valid P m Q E = (\<forall>log. P log \<longrightarrow> (case m log of (Inl e, log') \<Rightarrow> E log' | (Inr a, log') \<Rightarrow> Q a log'))"

lemma io_valid_return: "(\<And>log. P log \<Longrightarrow> Q a log) \<Longrightarrow> io_valid P (io_return a) Q E"
  by (simp add: io_valid_def io_return_def)

lemma io_valid_bind:
  "io_valid P m R E \<Longrightarrow> (\<And>a. io_valid (R a) (f a) Q E) \<Longrightarrow> io_valid P (io_bind m f) Q E"
  by (fastforce simp: io_valid_def io_bind_def split: prod.splits sum.splits)

lemma io_valid_perform:
  "(\<And>log. P log \<Longrightarrow> Q () (log @ [c]) \<and> E (log @ [c])) \<Longrightarrow> io_valid P (perform env c) Q E"
  by (auto simp: io_valid_def perform_def split: option.splits)

lemma io_valid_perform_save:
  "(\<And>log. P log \<Longrightarrow> Q () (log @ [SaveCheckpoint a cp]) \<and> E (log @ [SaveCheckpoint a cp])) \<Longrightarrow>
   io_valid P (perform_save env a cp) Q E"
  by (auto simp: io_valid_def perform_save_def split: option.splits)

lemma io_valid_conseq:
  "io_valid P m Q E \<Longrightarrow> (\<And>log. P' log \<Longrightarrow> P log) \<Longrightarrow> (\<And>a log. Q a log \<Longrightarrow> Q' a log) \<Longrightarrow>
   (\<And>log. E log \<Longrightarrow> E' log) \<Longrightarrow> io_valid P' m Q' E'"
  by (fastforce simp: io_valid_def split: prod.splits sum.splits)

text \<open>\<open>flush_drained_batch\<close> makes the calls of all non-empty tables, whatever fails.\<close>

definition batch_calls :: "'h drained_batch \<Rightarrow> ('m, 'h) call list" where
  "batch_calls d =
     (if db_transfers d = [] then [] else [InsertTransfers (db_transfers d)]) @
     (if db_swaps d = [] then [] else [InsertSwaps (db_swaps d)]) @
     (if db_pool_events d = [] then [] else [InsertPoolEvents (db_pool_events d)]) @
     (if db_holder_snapshots d = [] then [] else [UpsertHolderSnapshots (db_holder_snapshots d)])"

lemma flush_one_log: "snd (flush_one env b c err log) = log @ (if b then [] else [c])"
  by (auto simp: flush_one_def perform_def split: option.splits)

lemma flush_drained_batch_log: "snd (flush_drained_batch env d log) = log @ batch_calls d"
  by (simp add: flush_drained_batch_def batch_calls_def Let_def case_prod_beta flush_one_log)

lemma io_valid_flush_drained_batch:
  "(\<And>log. P log \<Longrightarrow> Q () (log @ batch_calls d) \<and> E (log @ batch_calls d)) \<Longrightarrow>
   io_valid P (flush_drained_batch env d) Q E"
  unfolding io_valid_def
proof (intro allI impI)
  fix log assume *: "\<And>log. P log \<Longrightarrow> Q () (log @ batch_calls d) \<and> E (log @ batch_calls d)" and "P log"
  obtain r log' where f: "flush_drained_batch env d log = (r, log')" by fastforce
  with flush_drained_batch_log [of env d log] have "log' = log @ batch_calls d" by simp
  with f * [OF \<open>P log\<close>] show "case flush_drained_batch env d log of (Inl e, log') \<Rightarrow> E log' | (Inr a, log') \<Rightarrow> Q a log'"
    by (cases r) auto
qed

lemma batch_calls_empty: "drained_is_empty d \<Longrightarrow> batch_calls d = []"
  by (simp add: drained_is_empty_def batch_calls_def)

text \<open>The conditional flush of the reorg handler and of the shutdown.\<close>

lemma io_valid_flush_pending:
  "(\<And>log. P log \<Longrightarrow> Q () (log @ batch_calls d) \<and> E (log @ batch_calls d)) \<Longrightarrow>
   io_valid P (if \<not> drained_is_empty d then flush_drained_batch env d else io_return ()) Q E"
  using io_valid_flush_drained_batch [of P Q d E env]
  by (auto simp: batch_calls_empty intro!: io_valid_return)


section \<open>The interface of a table\<close>

text \<open>
  What the run loop needs of a table: \<open>get\<close> is its buffer, \<open>sent1\<close> the rows that a call hands to the
  sink and \<open>payload\<close> the rows of an event. Draining moves the buffered rows into the call, in order;
  the other calls carry no rows; routing appends the rows of the event.
\<close>

locale logged_table =
  fixes get :: "'h event_batcher \<Rightarrow> 'e per_table_buffer"
    and sent1 :: "('m, 'h) call \<Rightarrow> 'e list"
    and payload :: "('m, 'k) event \<Rightarrow> 'e list"
  assumes drain_law:
      "sent1 (InsertTransfers (fst (drain_transfers b))) @ ptb_events (get (snd (drain_transfers b))) = ptb_events (get b)"
      "sent1 (InsertSwaps (fst (drain_swaps b))) @ ptb_events (get (snd (drain_swaps b))) = ptb_events (get b)"
      "sent1 (InsertPoolEvents (fst (drain_pool_events b))) @ ptb_events (get (snd (drain_pool_events b))) = ptb_events (get b)"
      "sent1 (UpsertHolderSnapshots (fst (drain_holder_snapshots b))) @ ptb_events (get (snd (drain_holder_snapshots b))) =
         ptb_events (get b)"
    and drain_all_law: "concat (map sent1 (batch_calls (fst (drain_all b)))) = ptb_events (get b)"
      "ptb_events (get (snd (drain_all b))) = []"
    and silent: "sent1 (UpsertTokenMeta m) = []" "sent1 (DeleteFromSlot c slot) = []"
      "sent1 (SaveCheckpoint a cp) = []" "sent1 (GraphPoolEvent pe) = []" "sent1 (GraphTokenMeta m slot) = []"
      "sent1 (GraphReorg c slot t) = []" "sent1 (HookLaunch ch c t0 t1 t br) = []" "sent1 (HookReorg c slot) = []"
    and route_law: "ptb_events (get (snd (route_event now ev b))) = ptb_events (get b) @ payload ev"

text \<open>The events that a run can consume: those before a shutdown or the end of the stream.\<close>

fun live_events :: "('m, 'k) poll list \<Rightarrow> ('m, 'k) event list" where
  "live_events [] = []"
| "live_events (ShutdownRequested # polls) = []"
| "live_events (StreamExhausted # polls) = []"
| "live_events (AdapterFailed e # polls) = live_events polls"
| "live_events (Polled event clock # polls) = event # live_events polls"

definition sent :: "(('m, 'h) call \<Rightarrow> 'e list) \<Rightarrow> ('m, 'h) log \<Rightarrow> 'e list" where
  "sent sent1 log = concat (map sent1 log)"

lemma sent_append [simp]: "sent f (xs @ ys) = sent f xs @ sent f ys" "sent f [] = []" "sent f [c] = f c"
  by (simp_all add: sent_def)

text \<open>
  \<open>accounted\<close>: what was sent and what is buffered are together, in order, the rows \<open>whole\<close>; after an
  error what was sent is a prefix of them.
\<close>

definition accounted ::
    "('h event_batcher \<Rightarrow> 'e per_table_buffer) \<Rightarrow> (('m, 'h) call \<Rightarrow> 'e list) \<Rightarrow> 'e list \<Rightarrow>
     'h event_batcher \<Rightarrow> ('m, 'h) log \<Rightarrow> bool" where
  "accounted get sent1 whole b log = (sent sent1 log @ ptb_events (get b) = whole)"

definition sent_prefix :: "(('m, 'h) call \<Rightarrow> 'e list) \<Rightarrow> 'e list \<Rightarrow> ('m, 'h) log \<Rightarrow> bool" where
  "sent_prefix sent1 whole log = prefix (sent sent1 log) whole"

lemma accounted_prefix: "accounted get sent1 whole b log \<Longrightarrow> sent_prefix sent1 whole log"
  by (auto simp: accounted_def sent_prefix_def prefix_def)

context logged_table
begin

abbreviation (input) keeps :: "'h event_batcher \<Rightarrow> ('m, 'h, 'a) io \<Rightarrow> ('a \<Rightarrow> 'h event_batcher) \<Rightarrow> 'e list \<Rightarrow> bool" where
  "keeps b m b' whole \<equiv>
     io_valid (accounted get sent1 whole b) m (\<lambda>a. accounted get sent1 whole (b' a)) (sent_prefix sent1 whole)"

lemma keeps_bind: "keeps b m b1 whole \<Longrightarrow> (\<And>a. keeps (b1 a) (f a) b2 whole) \<Longrightarrow> keeps b (io_bind m f) b2 whole"
  by (rule io_valid_bind)

lemma keeps_return: "b' a = b \<Longrightarrow> keeps b (io_return a) b' whole"
  by (simp add: io_valid_return)

lemma keeps_perform:
  assumes "sent1 c @ ptb_events (get b') = ptb_events (get b)"
  shows "keeps b (perform env c) (\<lambda>_. b') whole"
  by (rule io_valid_perform) (auto simp: accounted_def sent_prefix_def prefix_def assms [symmetric])

lemma keeps_silent: "sent1 c = [] \<Longrightarrow> keeps b (perform env c) (\<lambda>_. b) whole"
  by (rule keeps_perform) simp

lemma keeps_save: "keeps b (perform_save env a cp) (\<lambda>_. b) whole"
  by (rule io_valid_perform_save) (auto simp: accounted_def sent_prefix_def prefix_def silent)

lemma keeps_when_silent:
  "sent1 c = [] \<Longrightarrow> keeps b (perform_when present env c) (\<lambda>_. b) whole"
  by (simp add: perform_when_def keeps_silent keeps_return)

lemma keeps_flush_pending:
  "keeps b (if \<not> drained_is_empty (fst (drain_all b)) then flush_drained_batch env (fst (drain_all b)) else io_return ())
     (\<lambda>_. snd (drain_all b)) whole"
  by (rule io_valid_flush_pending)
     (auto simp: accounted_def sent_prefix_def drain_all_law sent_def prefix_def)

lemma keeps_flush_table:
  assumes "\<And>b. sent1 (call (fst (drain b))) @ ptb_events (get (snd (drain b))) = ptb_events (get b)"
  shows "keeps (rs_batcher st) (flush_table env ix should_flush drain call st) rs_batcher whole"
proof (cases "should_flush (rs_batcher st)")
  case True
  obtain events b where d: "drain (rs_batcher st) = (events, b)" by fastforce
  have "sent1 (call events) @ ptb_events (get b) = ptb_events (get (rs_batcher st))"
    using assms [of "rs_batcher st"] by (simp add: d)
  note steps = keeps_bind [OF keeps_perform [OF this] keeps_bind [OF keeps_save keeps_return]]
  show ?thesis
    using True by (simp add: flush_table_def d ix_save_checkpoint_def steps)
next
  case False
  then show ?thesis by (simp add: flush_table_def keeps_return)
qed

lemma keeps_check_flush: "keeps (rs_batcher st) (check_flush env ix clock st) rs_batcher whole"
  unfolding check_flush_def
  by (rule keeps_bind, rule keeps_flush_table, rule drain_law)+ (rule keeps_flush_table, rule drain_law)

lemma keeps_pre_route:
  "io_valid (accounted get sent1 whole (rs_batcher st)) (pre_route env ix event st)
     (\<lambda>st' log. accounted get sent1 whole (rs_batcher st) log \<and> rs_batcher st' = rs_batcher st)
     (sent_prefix sent1 whole)"
proof -
  have ret: "io_valid P (io_return a) (\<lambda>st' log. P log \<and> Q st') E" if "Q a" for P a Q E
    using that by (simp add: io_valid_return)
  show ?thesis
    by (auto simp: pre_route_def Let_def split: event.split pool_event_kind.split
        intro!: ret io_valid_bind [OF keeps_when_silent] silent)
qed

lemma keeps_reorg_step: "keeps (rs_batcher st) (reorg_step env ix slot st) rs_batcher whole"
proof -
  have "keeps (rs_batcher st) (handle_reorg env slot (ix_chain ix) (ix_adapter_id ix) (rs_batcher st)) snd whole"
    unfolding handle_reorg_def Let_def case_prod_beta
    by (rule keeps_bind [OF keeps_flush_pending], rule keeps_bind [OF keeps_silent [OF silent(2)]],
        rule keeps_bind [OF keeps_save], rule keeps_return) simp
  then show ?thesis
    unfolding reorg_step_def
    by (rule keeps_bind) (auto intro!: keeps_bind [OF keeps_when_silent] silent keeps_return split: prod.split)
qed


lemma handle_event_accounts:
  "io_valid (accounted get sent1 whole (rs_batcher st)) (handle_event env ix event clock st)
     (\<lambda>st'. accounted get sent1 (whole @ payload event) (rs_batcher st'))
     (sent_prefix sent1 (whole @ payload event))"
proof -
  have pre: "io_valid (accounted get sent1 whole (rs_batcher st)) (pre_route env ix event st)
     (\<lambda>st' log. accounted get sent1 whole (rs_batcher st') log) (sent_prefix sent1 (whole @ payload event))"
    by (rule io_valid_conseq [OF keeps_pre_route [of whole]]) (auto simp: sent_prefix_def)
  have post: "io_valid (accounted get sent1 whole (rs_batcher st1))
     (let (route, b) = route_event (clock 0) event (rs_batcher st1); st = st1\<lparr>rs_batcher := b\<rparr> in
      case route of
        RouteTokenMeta meta \<Rightarrow>
          io_bind (perform env (UpsertTokenMeta meta)) (\<lambda>_.
          io_bind (perform_when (ix_has_graph_writer ix) env (GraphTokenMeta meta (rs_last_slot st))) (\<lambda>_.
          check_flush env ix clock st))
      | RouteReorg slot \<Rightarrow> reorg_step env ix slot st
      | Buffered \<Rightarrow> check_flush env ix clock st
      | RouteSlotFinalized slot \<Rightarrow> check_flush env ix clock st
      | RouteUnknown \<Rightarrow> check_flush env ix clock st)
     (\<lambda>st'. accounted get sent1 (whole @ payload event) (rs_batcher st'))
     (sent_prefix sent1 (whole @ payload event))" for st1 :: "'h run_state"
  proof -
    obtain route b where r: "route_event (clock 0) event (rs_batcher st1) = (route, b)" by fastforce
    let ?st = "st1\<lparr>rs_batcher := b\<rparr>" and ?w = "whole @ payload event"
    have law: "ptb_events (get b) = ptb_events (get (rs_batcher st1)) @ payload event"
      using route_law [of "clock 0" event "rs_batcher st1"] by (simp add: r)
    have start: "accounted get sent1 ?w (rs_batcher ?st) log" if "accounted get sent1 whole (rs_batcher st1) log" for log
      using that by (auto simp: accounted_def law)
    have cf: "keeps (rs_batcher ?st) (check_flush env ix clock ?st) rs_batcher ?w"
      by (rule keeps_check_flush)
    have rs: "keeps (rs_batcher ?st) (reorg_step env ix slot ?st) rs_batcher ?w" for slot
      by (rule keeps_reorg_step)
    have tm: "keeps (rs_batcher ?st) (io_bind (perform env (UpsertTokenMeta meta)) (\<lambda>_.
          io_bind (perform_when (ix_has_graph_writer ix) env (GraphTokenMeta meta (rs_last_slot ?st))) (\<lambda>_.
          check_flush env ix clock ?st))) rs_batcher ?w" for meta
      by (rule keeps_bind [OF keeps_silent [OF silent(1)]],
          rule keeps_bind [OF keeps_when_silent [OF silent(5)]], rule cf)
    show ?thesis
      unfolding r Let_def prod.case
      by (rule io_valid_conseq [where P = "accounted get sent1 ?w (rs_batcher ?st)", OF _ start])
         (simp_all split: route_result.split add: cf [simplified] rs [simplified] tm [simplified])
  qed
  show ?thesis
    unfolding handle_event_def by (rule io_valid_bind [OF pre post])
qed

lemma keeps_shut_down: "keeps (rs_batcher st) (shut_down env ix st) (\<lambda>_. snd (drain_all (rs_batcher st))) whole"
  unfolding shut_down_def Let_def case_prod_beta ix_save_checkpoint_def
  by (rule keeps_bind [OF keeps_flush_pending], rule keeps_save)

lemma run_loop_accounts:
  assumes "run_loop env ix polls st log = (status, log')" "accounted get sent1 whole (rs_batcher st) log"
  shows "case status of
      Waiting st' \<Rightarrow> accounted get sent1 (whole @ concat (map payload (live_events polls))) (rs_batcher st') log'
    | Returned (Inr u) \<Rightarrow> sent sent1 log' = whole @ concat (map payload (live_events polls))
    | Returned (Inl e) \<Rightarrow> sent_prefix sent1 (whole @ concat (map payload (live_events polls))) log'"
  using assms
proof (induction polls arbitrary: st log whole rule: live_events.induct)
  case (2 polls)
  obtain r where r: "shut_down env ix st log = (r, log')" "status = Returned r"
    using "2.prems"(1) by (auto split: prod.splits)
  show ?case
    using keeps_shut_down [where whole = whole and st = st and env = env and ix = ix] "2.prems"(2) r
    by (cases r) (auto simp: io_valid_def accounted_def drain_all_law)
next
  case (4 e polls)
  then show ?case by (simp only: run_loop.simps live_events.simps)
next
  case (5 event clock polls)
  note valid = handle_event_accounts [where whole = whole and st = st and env = env and ix = ix and event = event and clock = clock]
  show ?case
  proof (cases "handle_event env ix event clock st log")
    case (Pair r log1)
    show ?thesis
    proof (cases r)
      case (Inl e)
      then have "status = Returned (Inl e)" "log' = log1" using "5.prems"(1) Pair by simp_all
      moreover from valid "5.prems"(2) Pair Inl have "prefix (sent sent1 log1) (whole @ payload event)"
        by (auto simp: io_valid_def sent_prefix_def)
      then have "prefix (sent sent1 log1) (whole @ payload event @ concat (map payload (live_events polls)))"
        by (metis append_assoc prefix_prefix)
      ultimately show ?thesis by (simp add: sent_prefix_def)
    next
      case (Inr st1)
      with valid "5.prems"(2) Pair have "accounted get sent1 (whole @ payload event) (rs_batcher st1) log1"
        by (auto simp: io_valid_def)
      moreover have "run_loop env ix polls st1 log1 = (status, log')"
        using "5.prems"(1) Pair Inr by simp
      ultimately show ?thesis
        using "5.IH" [of st1 log1 "whole @ payload event"]
        by (simp only: live_events.simps list.map concat.simps append_assoc)
    qed
  qed
qed (auto simp: accounted_prefix)

lemma indexer_run_accounts:
  assumes run: "indexer_run env ix loaded polls = (status, log)"
    and empty: "ptb_events (get (batcher_new (ix_batch_size ix) (ix_timeout_ms ix))) = []"
  shows "(\<forall>st. status = Waiting st \<longrightarrow>
      sent sent1 log @ ptb_events (get (rs_batcher st)) = concat (map payload (live_events polls))) \<and>
    (status = Returned (Ok ()) \<longrightarrow> sent sent1 log = concat (map payload (live_events polls))) \<and>
    prefix (sent sent1 log) (concat (map payload (live_events polls)))"
proof (cases loaded)
  case (Inl e)
  with run show ?thesis by (auto simp: indexer_run_def)
next
  case (Inr cp)
  have "accounted get sent1 [] (rs_batcher (initial_state ix cp)) []"
    using empty by (simp add: accounted_def initial_state_def)
  with run_loop_accounts [of env ix polls "initial_state ix cp" "[]" status log "[]"] run Inr
  show ?thesis
    by (cases status; (cases "case status of Returned r \<Rightarrow> r | Waiting _ \<Rightarrow> Inr ()")?)
       (auto simp: indexer_run_def accounted_def sent_prefix_def intro: prefixI [OF sym] split: sum.splits)
qed

end


section \<open>The tables of the model\<close>

definition transfers_of_call :: "('m, 'h) call \<Rightarrow> transfer list" where
  "transfers_of_call c = (case c of InsertTransfers ts \<Rightarrow> ts | _ \<Rightarrow> [])"

definition swaps_of_call :: "('m, 'h) call \<Rightarrow> swap list" where
  "swaps_of_call c = (case c of InsertSwaps ss \<Rightarrow> ss | _ \<Rightarrow> [])"

definition pool_events_of_call :: "('m, 'h) call \<Rightarrow> pool_event list" where
  "pool_events_of_call c = (case c of InsertPoolEvents ps \<Rightarrow> ps | _ \<Rightarrow> [])"

definition holders_of_call :: "('m, 'h) call \<Rightarrow> 'h list" where
  "holders_of_call c = (case c of UpsertHolderSnapshots hs \<Rightarrow> hs | _ \<Rightarrow> [])"

definition transfers_of :: "('m, 'k) event \<Rightarrow> transfer list" where
  "transfers_of ev = (case ev of EvTransfer t \<Rightarrow> [t] | _ \<Rightarrow> [])"

definition swaps_of :: "('m, 'k) event \<Rightarrow> swap list" where
  "swaps_of ev = (case ev of EvSwap s \<Rightarrow> [s] | _ \<Rightarrow> [])"

definition pool_events_of :: "('m, 'k) event \<Rightarrow> pool_event list" where
  "pool_events_of ev = (case ev of EvPoolEvent e \<Rightarrow> [e] | _ \<Rightarrow> [])"

lemmas drain_defs = drain_transfers_def drain_swaps_def drain_pool_events_def drain_holder_snapshots_def
  drain_all_def buffer_drain_def

lemmas route_defs = route_event_def push_transfer_def push_swap_def push_pool_event_def count_unknown_def

interpretation transfers_table: logged_table eb_transfers transfers_of_call transfers_of
  by unfold_locales
     (auto simp: transfers_of_call_def transfers_of_def drain_defs route_defs batch_calls_def split: event.split)

interpretation swaps_table: logged_table eb_swaps swaps_of_call swaps_of
  by unfold_locales
     (auto simp: swaps_of_call_def swaps_of_def drain_defs route_defs batch_calls_def split: event.split)

interpretation pool_events_table: logged_table eb_pool_events pool_events_of_call pool_events_of
  by unfold_locales
     (auto simp: pool_events_of_call_def pool_events_of_def drain_defs route_defs batch_calls_def split: event.split)

interpretation holders_table: logged_table eb_holder_snapshots holders_of_call "\<lambda>_. []"
  by unfold_locales
     (auto simp: holders_of_call_def drain_defs route_defs batch_calls_def split: event.split)

lemma batcher_new_empty:
  "ptb_events (eb_transfers (batcher_new n t)) = []" "ptb_events (eb_swaps (batcher_new n t)) = []"
  "ptb_events (eb_pool_events (batcher_new n t)) = []" "ptb_events (eb_holder_snapshots (batcher_new n t)) = []"
  by (simp_all add: batcher_new_def)

lemmas table_accounts =
  transfers_table.indexer_run_accounts [OF _ batcher_new_empty(1)]
  swaps_table.indexer_run_accounts [OF _ batcher_new_empty(2)]
  pool_events_table.indexer_run_accounts [OF _ batcher_new_empty(3)]
  holders_table.indexer_run_accounts [OF _ batcher_new_empty(4)]

section \<open>Checkpoints and the size of the buffers\<close>

definition slots_in :: "string \<Rightarrow> u64 set \<Rightarrow> ('m, 'h) log \<Rightarrow> bool" where
  "slots_in adapter_id S log =
     (\<forall>a cp. SaveCheckpoint a cp \<in> set log \<longrightarrow> a = adapter_id \<and> cp_slot cp \<in> S)"

definition rewound :: "u64 \<Rightarrow> u64" where
  "rewound slot = (if slot = 0 then 0 else slot - 1)"

definition reorg_slots :: "('m, 'k) event list \<Rightarrow> u64 set" where
  "reorg_slots evs = {slot. EvReorgMarker slot \<in> set evs}"

text \<open>What holds of the state between two polls.\<close>

definition state_ok :: "indexer \<Rightarrow> u64 set \<Rightarrow> 'h run_state \<Rightarrow> bool" where
  "state_ok ix S st =
     (rs_last_slot st \<in> S \<and> wf_batcher (rs_batcher st) \<and> eb_batch_size (rs_batcher st) = ix_batch_size ix \<and>
      eb_timeout_ms (rs_batcher st) = ix_timeout_ms ix)"

definition batcher_bounded :: "nat \<Rightarrow> 'h event_batcher \<Rightarrow> bool" where
  "batcher_bounded n b =
     (buffer_len (eb_transfers b) < n \<and> buffer_len (eb_swaps b) < n \<and> buffer_len (eb_pool_events b) < n \<and>
      buffer_len (eb_holder_snapshots b) < n)"

lemma slots_in_append: "slots_in a S (log @ [c]) \<longleftrightarrow>
    slots_in a S log \<and> (\<forall>a' cp. c = SaveCheckpoint a' cp \<longrightarrow> a' = a \<and> cp_slot cp \<in> S)"
  by (auto simp: slots_in_def)

lemma slots_in_batch_calls: "slots_in a S (log @ batch_calls d) \<longleftrightarrow> slots_in a S log"
  by (auto simp: slots_in_def batch_calls_def)

lemma perform_slots:
  "(\<And>a' cp. c \<noteq> SaveCheckpoint a' cp) \<Longrightarrow> io_valid (slots_in a S) (perform env c) (\<lambda>_. slots_in a S) (slots_in a S)"
  by (rule io_valid_perform) (auto simp: slots_in_append)

lemma perform_when_slots:
  "(\<And>a' cp. c \<noteq> SaveCheckpoint a' cp) \<Longrightarrow>
   io_valid (slots_in a S) (perform_when present env c) (\<lambda>_. slots_in a S) (slots_in a S)"
  by (auto simp: perform_when_def perform_slots io_valid_return)

lemma save_slots:
  "cp_slot cp \<in> S \<Longrightarrow> io_valid (slots_in a S) (perform_save env a cp) (\<lambda>_. slots_in a S) (slots_in a S)"
  by (rule io_valid_perform_save) (auto simp: slots_in_append)

lemma flush_table_slots:
  assumes "state_ok ix S st" "\<And>es a' cp. call es \<noteq> SaveCheckpoint a' cp"
  shows "io_valid (slots_in (ix_adapter_id ix) S) (flush_table env ix should_flush drain call st)
     (\<lambda>st' log. slots_in (ix_adapter_id ix) S log \<and>
        st' = (if should_flush (rs_batcher st) then st\<lparr>rs_batcher := snd (drain (rs_batcher st))\<rparr> else st))
     (slots_in (ix_adapter_id ix) S)"
  using assms unfolding flush_table_def ix_save_checkpoint_def
  by (auto simp: Let_def case_prod_beta state_ok_def
      intro!: io_valid_return io_valid_bind [OF perform_slots] io_valid_bind [OF save_slots])


lemma buffer_drain_wf: "wf_buffer (b\<lparr>ptb_first_at := None, ptb_events := []\<rparr>)"
  by (simp add: wf_buffer_def)

text \<open>A flushed table is empty and the others are untouched; an unflushed one is below the size.\<close>

lemma check_flush_slots:
  assumes ok: "state_ok ix S (st :: 'h run_state)"
  shows "io_valid (slots_in (ix_adapter_id ix) S) (check_flush env ix clock st)
     (\<lambda>st' log. slots_in (ix_adapter_id ix) S log \<and> state_ok ix S st' \<and>
        batcher_bounded (max 1 (ix_batch_size ix)) (rs_batcher st'))
     (slots_in (ix_adapter_id ix) S)"
proof -
  define N where "N = max 1 (ix_batch_size ix)"
  let ?P = "slots_in (ix_adapter_id ix) S"
  have step: "io_valid (\<lambda>log. ?P log \<and> Q st1)
      (flush_table env ix should_flush drain call st1)
      (\<lambda>st' log. ?P log \<and> Q' st') ?P"
    if "\<And>st. Q st \<Longrightarrow> state_ok ix S st" "\<And>es a' cp. call es \<noteq> SaveCheckpoint a' cp"
      "\<And>st. Q st \<Longrightarrow> Q' (if should_flush (rs_batcher st) then st\<lparr>rs_batcher := snd (drain (rs_batcher st))\<rparr> else st)"
    for should_flush and drain :: "'h event_batcher \<Rightarrow> 'e list \<times> 'h event_batcher" and call Q Q' and st1 :: "'h run_state"
  proof (cases "Q st1")
    case True
    then show ?thesis
      by (intro io_valid_conseq [OF flush_table_slots [OF that(1) [OF True] that(2)]])
         (use that(3) [OF True] in auto)
  qed (simp add: io_valid_def)
  have small: "\<not> buffer_should_flush now b (ix_batch_size ix) t \<Longrightarrow> length (ptb_events b) < N"
    for now t and b :: "'x per_table_buffer"
    unfolding N_def by (rule not_flush_bound)
  have pos: "0 < N" by (simp add: N_def)
  define Q1 where "Q1 st \<longleftrightarrow> state_ok ix S st \<and> buffer_len (eb_transfers (rs_batcher st)) < N" for st :: "'h run_state"
  define Q2 where "Q2 st \<longleftrightarrow> Q1 st \<and> buffer_len (eb_swaps (rs_batcher st)) < N" for st
  define Q3 where "Q3 st \<longleftrightarrow> Q2 st \<and> buffer_len (eb_pool_events (rs_batcher st)) < N" for st
  define Q4 where "Q4 st \<longleftrightarrow> Q3 st \<and> buffer_len (eb_holder_snapshots (rs_batcher st)) < N" for st
  note defs = Q1_def Q2_def Q3_def Q4_def state_ok_def drain_defs Let_def case_prod_beta
    transfers_should_flush_def swaps_should_flush_def pool_events_should_flush_def holder_snapshots_should_flush_def
    wf_batcher_def buffer_len_def buffer_drain_wf pos
  have f1: "io_valid (\<lambda>log. ?P log \<and> state_ok ix S st1) (flush_table env ix (transfers_should_flush n) drain_transfers InsertTransfers st1)
      (\<lambda>st' log. ?P log \<and> Q1 st') ?P" for st1 n
    by (rule step) (auto simp: defs intro: small)
  have f2: "io_valid (\<lambda>log. ?P log \<and> Q1 st1) (flush_table env ix (swaps_should_flush n) drain_swaps InsertSwaps st1)
      (\<lambda>st' log. ?P log \<and> Q2 st') ?P" for st1 n
    by (rule step) (auto simp: defs intro: small)
  have f3: "io_valid (\<lambda>log. ?P log \<and> Q2 st1) (flush_table env ix (pool_events_should_flush n) drain_pool_events InsertPoolEvents st1)
      (\<lambda>st' log. ?P log \<and> Q3 st') ?P" for st1 n
    by (rule step) (auto simp: defs intro: small)
  have f4: "io_valid (\<lambda>log. ?P log \<and> Q3 st1) (flush_table env ix (holder_snapshots_should_flush n) drain_holder_snapshots UpsertHolderSnapshots st1)
      (\<lambda>st' log. ?P log \<and> Q4 st') ?P" for st1 n
    by (rule step) (auto simp: defs intro: small)
  have "io_valid (\<lambda>log. ?P log \<and> state_ok ix S st) (check_flush env ix clock st) (\<lambda>st' log. ?P log \<and> Q4 st') ?P"
    unfolding check_flush_def by (rule io_valid_bind [OF f1], rule io_valid_bind [OF f2], rule io_valid_bind [OF f3], rule f4)
  then show ?thesis
    by (rule io_valid_conseq) (use ok in \<open>auto simp: Q4_def Q3_def Q2_def Q1_def batcher_bounded_def N_def\<close>)
qed


lemma pre_route_slots:
  assumes "state_ok ix S st"
  shows "io_valid (slots_in a S) (pre_route env ix event st) (\<lambda>st' log. slots_in a S log \<and> state_ok ix S st') (slots_in a S)"
proof -
  have ret: "io_valid P (io_return x) (\<lambda>st' log. P log \<and> Q st') E" if "Q x" for P x Q E
    using that by (simp add: io_valid_return)
  show ?thesis
    using assms
    by (auto simp: pre_route_def Let_def state_ok_def split: event.split pool_event_kind.split
        intro!: ret io_valid_bind [OF perform_when_slots])
qed

lemma state_ok_drained:
  "state_ok ix S st \<Longrightarrow> slot \<in> S \<Longrightarrow>
   state_ok ix S (st\<lparr>rs_batcher := snd (drain_all (rs_batcher st)), rs_last_slot := slot, rs_last_signature := None\<rparr>)"
  by (simp add: state_ok_def wf_drain_all drain_all_simps)

lemma reorg_step_slots:
  assumes ok: "state_ok ix S st" and S: "rewound slot \<in> S"
  shows "io_valid (slots_in (ix_adapter_id ix) S) (reorg_step env ix slot st)
     (\<lambda>st' log. slots_in (ix_adapter_id ix) S log \<and> state_ok ix S st' \<and>
        batcher_bounded (max 1 (ix_batch_size ix)) (rs_batcher st'))
     (slots_in (ix_adapter_id ix) S)"
proof -
  let ?P = "slots_in (ix_adapter_id ix) S"
  have reorg: "io_valid ?P (handle_reorg env slot (ix_chain ix) (ix_adapter_id ix) (rs_batcher st))
      (\<lambda>r log. ?P log \<and> r = (rewound slot, snd (drain_all (rs_batcher st)))) ?P"
    unfolding handle_reorg_def Let_def case_prod_beta rewound_def [symmetric]
    by (intro io_valid_bind [OF io_valid_flush_pending [where Q = "\<lambda>_. ?P"]] io_valid_bind [OF perform_slots]
        io_valid_bind [OF save_slots] io_valid_return) (simp_all add: slots_in_batch_calls S)
  have rest: "io_valid (\<lambda>log. ?P log \<and> r = (rewound slot, snd (drain_all (rs_batcher st))))
      (case r of (last_slot, b) \<Rightarrow>
         io_bind (perform_when (ix_has_graph_writer ix) env (GraphReorg (ix_chain ix) slot (rs_last_block_time st))) (\<lambda>_.
         io_bind (perform_when (ix_has_hook ix) env (HookReorg (ix_chain ix) slot)) (\<lambda>_.
         io_return (st\<lparr>rs_batcher := b, rs_last_slot := last_slot, rs_last_signature := None\<rparr>))))
      (\<lambda>st' log. ?P log \<and> state_ok ix S st' \<and> batcher_bounded (max 1 (ix_batch_size ix)) (rs_batcher st')) ?P" for r
  proof (cases "r = (rewound slot, snd (drain_all (rs_batcher st)))")
    case True
    show ?thesis
      unfolding True prod.case simp_thms
      by (intro io_valid_bind [OF perform_when_slots] io_valid_return)
         (use state_ok_drained [OF ok S] in
            \<open>auto simp: batcher_bounded_def buffer_len_def drain_all_simps\<close>)
  qed (simp add: io_valid_def)
  show ?thesis unfolding reorg_step_def by (rule io_valid_bind [OF reorg rest])
qed

lemma state_ok_route:
  "state_ok ix S st \<Longrightarrow> state_ok ix S (st\<lparr>rs_batcher := snd (route_event now event (rs_batcher st))\<rparr>)"
  by (auto simp: state_ok_def route_defs wf_batcher_def split: event.split)

lemma handle_event_slots:
  assumes ok: "state_ok ix S st" and S: "\<And>slot. event = EvReorgMarker slot \<Longrightarrow> rewound slot \<in> S"
  shows "io_valid (slots_in (ix_adapter_id ix) S) (handle_event env ix event clock st)
     (\<lambda>st' log. slots_in (ix_adapter_id ix) S log \<and> state_ok ix S st' \<and>
        batcher_bounded (max 1 (ix_batch_size ix)) (rs_batcher st'))
     (slots_in (ix_adapter_id ix) S)"
proof -
  let ?P = "slots_in (ix_adapter_id ix) S"
  let ?Q = "\<lambda>st' log. ?P log \<and> state_ok ix S st' \<and> batcher_bounded (max 1 (ix_batch_size ix)) (rs_batcher st')"
  have post: "io_valid (\<lambda>log. ?P log \<and> state_ok ix S st1)
     (let (route, b) = route_event (clock 0) event (rs_batcher st1); st = st1\<lparr>rs_batcher := b\<rparr> in
      case route of
        RouteTokenMeta meta \<Rightarrow>
          io_bind (perform env (UpsertTokenMeta meta)) (\<lambda>_.
          io_bind (perform_when (ix_has_graph_writer ix) env (GraphTokenMeta meta (rs_last_slot st))) (\<lambda>_.
          check_flush env ix clock st))
      | RouteReorg slot \<Rightarrow> reorg_step env ix slot st
      | Buffered \<Rightarrow> check_flush env ix clock st
      | RouteSlotFinalized slot \<Rightarrow> check_flush env ix clock st
      | RouteUnknown \<Rightarrow> check_flush env ix clock st) ?Q ?P" for st1 :: "'h run_state"
  proof (cases "state_ok ix S st1")
    case True
    obtain route b where r: "route_event (clock 0) event (rs_batcher st1) = (route, b)" by fastforce
    let ?st = "st1\<lparr>rs_batcher := b\<rparr>"
    have ok': "state_ok ix S ?st" using state_ok_route [OF True, of "clock 0" event] by (simp add: r)
    have reorg: "event = EvReorgMarker slot" if "route = RouteReorg slot" for slot
      using r that by (auto simp: route_defs split: event.splits)
    note cf = check_flush_slots [OF ok', of env clock]
    have tm: "io_valid ?P (io_bind (perform env (UpsertTokenMeta meta)) (\<lambda>_.
        io_bind (perform_when (ix_has_graph_writer ix) env (GraphTokenMeta meta (rs_last_slot ?st))) (\<lambda>_.
        check_flush env ix clock ?st))) ?Q ?P" for meta
      by (intro io_valid_bind [OF perform_slots] io_valid_bind [OF perform_when_slots] cf) simp_all
    have rs: "io_valid ?P (reorg_step env ix slot ?st) ?Q ?P" if "route = RouteReorg slot" for slot
      using reorg_step_slots [OF ok' S [OF reorg [OF that]]] .
    have "io_valid ?P (case route of
        RouteTokenMeta meta \<Rightarrow>
          io_bind (perform env (UpsertTokenMeta meta)) (\<lambda>_.
          io_bind (perform_when (ix_has_graph_writer ix) env (GraphTokenMeta meta (rs_last_slot ?st))) (\<lambda>_.
          check_flush env ix clock ?st))
      | RouteReorg slot \<Rightarrow> reorg_step env ix slot ?st
      | Buffered \<Rightarrow> check_flush env ix clock ?st
      | RouteSlotFinalized slot \<Rightarrow> check_flush env ix clock ?st
      | RouteUnknown \<Rightarrow> check_flush env ix clock ?st) ?Q ?P"
      using cf tm rs by (cases route) simp_all
    then show ?thesis using True by (simp add: r Let_def)
  qed (simp add: io_valid_def)
  show ?thesis
    unfolding handle_event_def by (rule io_valid_bind [OF pre_route_slots [OF ok] post])
qed

lemma shut_down_slots:
  assumes "state_ok ix S st"
  shows "io_valid (slots_in (ix_adapter_id ix) S) (shut_down env ix st)
     (\<lambda>_. slots_in (ix_adapter_id ix) S) (slots_in (ix_adapter_id ix) S)"
  using assms unfolding shut_down_def Let_def case_prod_beta ix_save_checkpoint_def
  by (intro io_valid_bind [OF io_valid_flush_pending [where Q = "\<lambda>_. slots_in (ix_adapter_id ix) S"]] save_slots)
     (simp_all add: slots_in_batch_calls state_ok_def)

lemma run_loop_slots:
  assumes "run_loop env ix polls st log = (status, log')"
    "state_ok ix S st" "slots_in (ix_adapter_id ix) S log" "rewound ` reorg_slots (live_events polls) \<subseteq> S"
    "batcher_bounded (max 1 (ix_batch_size ix)) (rs_batcher st)"
  shows "slots_in (ix_adapter_id ix) S log' \<and>
    (\<forall>st'. status = Waiting st' \<longrightarrow> state_ok ix S st' \<and> batcher_bounded (max 1 (ix_batch_size ix)) (rs_batcher st'))"
  using assms
proof (induction polls arbitrary: st log rule: live_events.induct)
  case (2 polls)
  then show ?case
    using shut_down_slots [where ix = ix and S = S and st = st and env = env]
    by (auto simp: io_valid_def split: prod.splits sum.splits)
next
  case (5 event clock polls)
  have valid: "io_valid (slots_in (ix_adapter_id ix) S) (handle_event env ix event clock st)
     (\<lambda>st' log. slots_in (ix_adapter_id ix) S log \<and> state_ok ix S st' \<and>
        batcher_bounded (max 1 (ix_batch_size ix)) (rs_batcher st'))
     (slots_in (ix_adapter_id ix) S)"
    using "5.prems" by (intro handle_event_slots) (auto simp: reorg_slots_def)
  have sub: "rewound ` reorg_slots (live_events polls) \<subseteq> S"
    using "5.prems"(4) by (auto simp: reorg_slots_def)
  obtain r log1 where h: "handle_event env ix event clock st log = (r, log1)" by fastforce
  show ?case
  proof (cases r)
    case (Inl e)
    with h valid "5.prems"(1,3) show ?thesis by (auto simp: io_valid_def)
  next
    case (Inr st1)
    with h valid "5.prems"(3) have "slots_in (ix_adapter_id ix) S log1" "state_ok ix S st1"
      "batcher_bounded (max 1 (ix_batch_size ix)) (rs_batcher st1)"
      by (auto simp: io_valid_def)
    moreover have "run_loop env ix polls st1 log1 = (status, log')" using "5.prems"(1) h Inr by simp
    ultimately show ?thesis using "5.IH" sub by blast
  qed
qed auto


lemma initial_state_ok:
  "rs_last_slot (initial_state ix cp) \<in> S \<Longrightarrow> state_ok ix S (initial_state ix cp)"
  "batcher_bounded (max 1 (ix_batch_size ix)) (rs_batcher (initial_state ix cp))"
  by (simp_all add: initial_state_def state_ok_def wf_batcher_def batcher_bounded_def batcher_new_def
      buffer_len_def)

lemma concat_map_Nil [simp]: "concat (map (\<lambda>_. []) xs) = []"
  by (induction xs) auto

lemma initial_slots_in: "slots_in a S []"
  by (simp add: slots_in_def)

text \<open>The four tables are one loop over the calls of the batch.\<close>

definition flush_calls :: "env \<Rightarrow> ('m, 'h) call list \<Rightarrow> ('m, 'h) log \<Rightarrow> indexer_error option \<times> ('m, 'h) log" where
  "flush_calls env cs log = foldl (\<lambda>(err, log) c. flush_one env False c err log) (None, log) cs"

definition failures :: "env \<Rightarrow> nat \<Rightarrow> nat \<Rightarrow> indexer_error option list" where
  "failures env n k = filter (\<lambda>e. e \<noteq> None) (map (\<lambda>i. env_error env (n + i)) [0..<k])"

lemma flush_calls_failures:
  "flush_calls env cs log =
    (if failures env (length log) (length cs) = [] then None else last (failures env (length log) (length cs)), log @ cs)"
proof (induction cs rule: rev_induct)
  case (snoc c cs)
  then show ?case
    by (auto simp: flush_calls_def failures_def flush_one_def perform_def split: option.split)
qed (simp add: flush_calls_def failures_def)

lemma flush_drained_batch_calls:
  "flush_drained_batch env d log =
    (case flush_calls env (batch_calls d) log of (err, log') \<Rightarrow> (case err of Some e \<Rightarrow> Err e | None \<Rightarrow> Ok (), log'))"
proof -
  have skip: "flush_one env True c err log = (err, log)" for c err and log :: "('m, 'h) log"
    by (simp add: flush_one_def)
  show ?thesis
    by (cases "db_transfers d = []"; cases "db_swaps d = []"; cases "db_pool_events d = []";
        cases "db_holder_snapshots d = []")
       (simp_all add: flush_drained_batch_def batch_calls_def flush_calls_def skip Let_def case_prod_beta)
qed

text \<open>A Token-2022 instruction is only counted: no call carries it.\<close>

lemma token2022_events_dropped:
  "handle_event env ix (EvToken2022Instruction k) clock st log =
   check_flush env ix clock (st\<lparr>rs_batcher := count_unknown (rs_batcher st)\<rparr>) log"
  by (simp add: handle_event_def pre_route_def io_bind_def io_return_def route_event_def)

section \<open>Properties\<close>



text \<open>
  C27: Checkpoints never advance. Every checkpoint a run saves has the adapter's id and the slot
  of the checkpoint it started from (0 if there was none) or the slot before a reorg marker; the
  slots of the events are not used, so after a restart all of them are delivered again.
\<close>

theorem indexer_checkpoints_never_advance:
  assumes "indexer_run env ix (Ok maybe_checkpoint) polls = (status, log)"
    and "SaveCheckpoint a cp \<in> set log"
  shows "a = ix_adapter_id ix \<and>
    (cp_slot cp = (case maybe_checkpoint of Some c \<Rightarrow> cp_slot c | None \<Rightarrow> 0) \<or>
     cp_slot cp \<in> rewound ` reorg_slots (live_events polls))"
proof -
  let ?start = "case maybe_checkpoint of Some c \<Rightarrow> cp_slot c | None \<Rightarrow> 0"
  let ?S = "insert ?start (rewound ` reorg_slots (live_events polls))"
  have "run_loop env ix polls (initial_state ix maybe_checkpoint) [] = (status, log)"
    using assms(1) by (simp add: indexer_run_def)
  from run_loop_slots [OF this initial_state_ok(1) initial_slots_in _ initial_state_ok(2), of ?S] assms(2)
  show ?thesis by (auto simp: initial_state_def slots_in_def)
qed

lemma indexer_checkpoints_never_advance_witness:
  "cp_slot \<lparr>cp_slot = (0 :: u64), cp_last_signature = None\<rparr> = 0"
proof -
  let ?run = "indexer_run \<lparr>env_error = \<lambda>_. None, env_store_error = \<lambda>_. None\<rparr>
     \<lparr>ix_adapter_id = ''solana'', ix_chain = ''solana'', ix_batch_size = 500, ix_timeout_ms = 2000,
      ix_has_graph_writer = False, ix_has_hook = False\<rparr> (Ok None)
     [ShutdownRequested :: (nat, nat) poll] :: nat run_status \<times> (nat, nat) log"
  have "?run = (Returned (Ok ()), [SaveCheckpoint ''solana'' \<lparr>cp_slot = 0, cp_last_signature = None\<rparr>])"
    by (simp add: indexer_run_def initial_state_def io_bind_def io_return_def
        batcher_new_def shut_down_def drained_is_empty_def drain_defs ix_save_checkpoint_def perform_save_def)
  from indexer_checkpoints_never_advance [OF this, of "''solana''" "\<lparr>cp_slot = 0, cp_last_signature = None\<rparr>"]
  show ?thesis by (auto simp: reorg_slots_def)
qed

text \<open>
  C28: Memory is bounded: between two polls every buffer holds fewer events than the batch size
  (is empty for a batch size of 0 or 1), each non-empty buffer knows the time of its first event,
  and the batch settings are those of the configuration.
\<close>

theorem indexer_buffers_bounded:
  assumes "indexer_run env ix loaded polls = (Waiting st, log)"
  shows "batcher_bounded (max 1 (ix_batch_size ix)) (rs_batcher st) \<and> wf_batcher (rs_batcher st) \<and>
    eb_batch_size (rs_batcher st) = ix_batch_size ix \<and> eb_timeout_ms (rs_batcher st) = ix_timeout_ms ix"
proof (cases loaded)
  case (Inr cp)
  with assms have "run_loop env ix polls (initial_state ix cp) [] = (Waiting st, log)"
    by (simp add: indexer_run_def)
  from run_loop_slots [OF this initial_state_ok(1) initial_slots_in _ initial_state_ok(2), of UNIV]
  show ?thesis by (simp add: state_ok_def)
qed (use assms in \<open>simp add: indexer_run_def\<close>)

lemma indexer_buffers_bounded_witness:
  "batcher_bounded 500 (batcher_new 500 2000 :: nat event_batcher)"
proof -
  let ?ix = "\<lparr>ix_adapter_id = ''solana'', ix_chain = ''solana'', ix_batch_size = 500, ix_timeout_ms = 2000,
      ix_has_graph_writer = False, ix_has_hook = False\<rparr>"
  have "indexer_run \<lparr>env_error = \<lambda>_. None, env_store_error = \<lambda>_. None\<rparr> ?ix (Ok None)
     ([] :: (nat, nat) poll list) = (Waiting (initial_state ?ix None), [] :: (nat, nat) log)"
    by (simp add: indexer_run_def)
  from indexer_buffers_bounded [OF this] show ?thesis by (simp add: initial_state_def)
qed


text \<open>
  Flushing a drained batch calls the sink once for every non-empty table, in order, whatever
  fails; it succeeds exactly when no call failed, and otherwise reports the last failure.
\<close>

theorem flush_attempts_all_tables:
  fixes d :: "'h drained_batch" and log :: "('m, 'h) log"
  shows "flush_drained_batch env d log =
    (let failed = failures env (length log) (length (batch_calls d :: ('m, 'h) log))
     in (if failed = [] then Ok () else Err (the (last failed)), log @ batch_calls d))"
proof -
  let ?f = "failures env (length log) (length (batch_calls d :: ('m, 'h) log))"
  have "last ?f \<noteq> None" if "?f \<noteq> []"
    using last_in_set [OF that] by (auto simp: failures_def)
  then have "?f = [] \<or> (\<exists>e. last ?f = Some e)" by auto
  then show ?thesis
    by (elim disjE exE) (simp_all add: flush_drained_batch_calls flush_calls_failures Let_def)
qed

end
