(* ===== verification/GraphTarjan.thy ===== *)
theory GraphTarjan
  imports Prelude "HOL-Library.Product_Lexorder" "HOL-Library.Monad_Syntax" "HOL-Library.Multiset"
begin

text \<open>
  Strongly connected components of the transfer graph (\<open>tarjan_scc\<close> of
  \<open>src/crates/graph/src/cycles.rs\<close>): Tarjan's algorithm with an explicit stack of DFS frames
  in place of the recursion. A graph is a list of adjacency lists over the vertices
  \<open>0, ..., v_count - 1\<close>. An access outside a vector panics in the code and is \<open>None\<close> here.
  Both stacks of the code are vectors whose last element is the top; here the top is the head.
\<close>

section \<open>The algorithm\<close>

record tarjan_node =
  tn_index :: "32 word option"
  tn_lowlink :: "32 word"
  tn_on_stack :: bool

record tarjan =
  tj_state :: "tarjan_node list"
  tj_stack :: "nat list"
  tj_dfs :: "(nat \<times> nat) list"
  tj_counter :: "32 word"
  tj_sccs :: "nat list list"

text \<open>A vertex is discovered: it gets the next index (a \<open>u32\<close>) and is pushed on both stacks.\<close>

definition discover :: "nat \<Rightarrow> tarjan \<Rightarrow> tarjan" where
  "discover w t =
     t\<lparr>tj_state := (tj_state t)[w := \<lparr>tn_index = Some (tj_counter t),
                                      tn_lowlink = tj_counter t, tn_on_stack = True\<rparr>],
       tj_stack := w # tj_stack t,
       tj_dfs := (w, 0) # tj_dfs t,
       tj_counter := tj_counter t + 1\<rparr>"

definition set_lowlink :: "nat \<Rightarrow> 32 word \<Rightarrow> tarjan \<Rightarrow> tarjan" where
  "set_lowlink v l t = t\<lparr>tj_state := (tj_state t)[v := (tj_state t ! v)\<lparr>tn_lowlink := l\<rparr>]\<rparr>"

text \<open>The inner loop that pops a component off the stack, down to its root
  (\<open>stack.pop().unwrap_or(v)\<close>: on an empty stack it takes \<open>v\<close> itself, and stops).\<close>

fun pop_scc :: "nat \<Rightarrow> nat list \<Rightarrow> tarjan_node list \<Rightarrow> nat list
    \<Rightarrow> (nat list \<times> tarjan_node list \<times> nat list) option" where
  "pop_scc v [] st scc =
     (if v < length st then Some ([], st[v := (st ! v)\<lparr>tn_on_stack := False\<rparr>], scc @ [v]) else None)"
| "pop_scc v (w # S) st scc =
     (if w < length st then
        let st' = st[w := (st ! w)\<lparr>tn_on_stack := False\<rparr>]; scc' = scc @ [w]
        in if w = v then Some (S, st', scc') else pop_scc v S st' scc'
      else None)"

text \<open>The root check at the end of a vertex: a root takes its component off the stack.\<close>

definition finish_root :: "nat \<Rightarrow> tarjan \<Rightarrow> tarjan option" where
  "finish_root v t =
     (if tn_lowlink (tj_state t ! v) = (case tn_index (tj_state t ! v) of Some k \<Rightarrow> k | None \<Rightarrow> - 1)
      then do {
        (S, st, scc) \<leftarrow> pop_scc v (tj_stack t) (tj_state t) [];
        Some (t\<lparr>tj_stack := S, tj_state := st, tj_sccs := tj_sccs t @ [sort scc]\<rparr>)
      }
      else Some t)"

text \<open>
  One iteration of the DFS loop, for the frame \<open>(v, i)\<close> on top of \<open>rest\<close>. Every vertex of a
  frame has been discovered, so \<open>state[v]\<close> is in range.
\<close>

definition tarjan_step :: "nat list list \<Rightarrow> tarjan \<Rightarrow> nat \<Rightarrow> nat \<Rightarrow> (nat \<times> nat) list \<Rightarrow> tarjan option" where
  "tarjan_step adj t v i rest =
     (if v < length adj then
        if i < length (adj ! v) then
          let w = adj ! v ! i; t1 = t\<lparr>tj_dfs := (v, i + 1) # rest\<rparr>
          in if w < length (tj_state t) then
               case tn_index (tj_state t ! w) of
                 None \<Rightarrow> Some (discover w t1)
               | Some w_index \<Rightarrow>
                   if tn_on_stack (tj_state t ! w) then
                     if w_index < tn_lowlink (tj_state t ! v) then Some (set_lowlink v w_index t1)
                     else Some t1
                   else Some t1
             else None
        else
          let t1 = t\<lparr>tj_dfs := rest\<rparr>;
              v_lowlink = tn_lowlink (tj_state t ! v);
              t2 = (case rest of
                      [] \<Rightarrow> t1
                    | (parent, _) # _ \<Rightarrow>
                        if v_lowlink < tn_lowlink (tj_state t1 ! parent) then set_lowlink parent v_lowlink t1
                        else t1)
          in finish_root v t2
      else None)"

section \<open>Termination\<close>

text \<open>
  Each iteration discovers a vertex, or consumes an edge of a frame, or drops a frame.
\<close>

definition unvisited :: "tarjan \<Rightarrow> nat" where
  "unvisited t = length (List.filter (\<lambda>k. k = None) (map tn_index (tj_state t)))"

definition edges_left :: "nat list list \<Rightarrow> tarjan \<Rightarrow> nat" where
  "edges_left adj t = sum_list (map (\<lambda>(v, i). length (adj ! v) - i) (tj_dfs t))"

lemma set_lowlink_sel [simp]:
  "tj_dfs (set_lowlink v l t) = tj_dfs t" "tj_stack (set_lowlink v l t) = tj_stack t"
  "tj_counter (set_lowlink v l t) = tj_counter t" "tj_sccs (set_lowlink v l t) = tj_sccs t"
  "tj_state (set_lowlink v l t) = (tj_state t)[v := (tj_state t ! v)\<lparr>tn_lowlink := l\<rparr>]"
  by (simp_all add: set_lowlink_def)

lemma set_lowlink_indices [simp]:
  "map tn_index ((tj_state t)[v := (tj_state t ! v)\<lparr>tn_lowlink := l\<rparr>]) = map tn_index (tj_state t)"
  by (cases "v < length (tj_state t)") (simp_all add: map_update list_update_same_conv list_update_beyond)

lemma filter_update_less:
  "i < length xs \<Longrightarrow> P (xs ! i) \<Longrightarrow> \<not> P x \<Longrightarrow>
     length (List.filter P (xs[i := x])) < length (List.filter P xs)"
proof (induction xs arbitrary: i)
  case (Cons a xs)
  then show ?case
  proof (cases i)
    case 0
    with Cons show ?thesis by simp
  next
    case (Suc j)
    with Cons show ?thesis by auto
  qed
qed simp

lemma unvisited_cong:
  "map tn_index (tj_state t) = map tn_index (tj_state u) \<Longrightarrow> unvisited t = unvisited u"
  by (simp only: unvisited_def)

lemma unvisited_simps [simp]:
  "unvisited (set_lowlink v l t) = unvisited t"
  "unvisited (t\<lparr>tj_dfs := fr\<rparr>) = unvisited t"
  by (rule unvisited_cong, simp)+

lemma unvisited_discover:
  assumes "w < length (tj_state t)" "tn_index (tj_state t ! w) = None"
  shows "unvisited (discover w t) < unvisited t"
  using filter_update_less [of w "map tn_index (tj_state t)" "\<lambda>k. k = None" "Some (tj_counter t)"] assms
  by (simp only: unvisited_def discover_def) (simp add: map_update del: filter_map)

lemma pop_scc_indices:
  "pop_scc v S st scc = Some (S', st', scc') \<Longrightarrow> map tn_index st' = map tn_index st"
by (induction v S st scc rule: pop_scc.induct)
    (auto simp: map_update list_update_same_conv Let_def split: if_splits)

lemma finish_root_measure:
  "finish_root v t = Some u \<Longrightarrow> unvisited u = unvisited t \<and> tj_dfs u = tj_dfs t"
  unfolding finish_root_def
  by (auto split: if_splits Option.bind_splits intro!: unvisited_cong dest: pop_scc_indices)

lemma tarjan_step_measure:
  assumes "tj_dfs t = (v, i) # rest" "tarjan_step adj t v i rest = Some u"
  shows "(u, t) \<in> measures [unvisited, edges_left adj, \<lambda>t. length (tj_dfs t)]"
  using assms unvisited_discover [of "adj ! v ! i" "t\<lparr>tj_dfs := (v, i + 1) # rest\<rparr>"]
  by (auto simp: tarjan_step_def Let_def edges_left_def
      dest!: finish_root_measure split: if_splits option.splits list.splits)

function tarjan_loop :: "nat list list \<Rightarrow> tarjan \<Rightarrow> tarjan option" where
  "tarjan_loop adj t =
     (case tj_dfs t of
        [] \<Rightarrow> Some t
      | (v, i) # rest \<Rightarrow>
          (case tarjan_step adj t v i rest of None \<Rightarrow> None | Some t' \<Rightarrow> tarjan_loop adj t'))"
  by pat_completeness auto
termination
  by (relation "inv_image (measures [\<lambda>(adj, t). unvisited t, \<lambda>(adj, t). edges_left adj t,
                                      \<lambda>(adj, t). length (tj_dfs t)]) id")
     (use tarjan_step_measure in fastforce)+

declare tarjan_loop.simps [simp del]

section \<open>The whole algorithm\<close>

definition tarjan_from :: "nat list list \<Rightarrow> tarjan \<Rightarrow> nat \<Rightarrow> tarjan option" where
  "tarjan_from adj t start =
     (if start < length (tj_state t) then
        if tn_index (tj_state t ! start) \<noteq> None then Some t
        else tarjan_loop adj (discover start (t\<lparr>tj_dfs := []\<rparr>))
      else None)"

fun tarjan_starts :: "nat list list \<Rightarrow> nat list \<Rightarrow> tarjan \<Rightarrow> tarjan option" where
  "tarjan_starts adj [] t = Some t"
| "tarjan_starts adj (s # ss) t = do { t' \<leftarrow> tarjan_from adj t s; tarjan_starts adj ss t' }"

definition tarjan_init :: "nat \<Rightarrow> tarjan" where
  "tarjan_init v_count =
     \<lparr>tj_state = replicate v_count \<lparr>tn_index = None, tn_lowlink = 0, tn_on_stack = False\<rparr>,
      tj_stack = [], tj_dfs = [], tj_counter = 0, tj_sccs = []\<rparr>"

text \<open>Larger components first, then by smallest vertex.\<close>

definition scc_order :: "nat list list \<Rightarrow> nat list list" where
  "scc_order = sort_key (\<lambda>scc. (- int (length scc), hd scc))"

definition tarjan_scc :: "nat list list \<Rightarrow> nat \<Rightarrow> nat list list option" where
  "tarjan_scc adj v_count =
     map_option (\<lambda>t. scc_order (tj_sccs t)) (tarjan_starts adj [0..<v_count] (tarjan_init v_count))"

section \<open>The graph and its components\<close>

definition graph_edges :: "nat list list \<Rightarrow> (nat \<times> nat) set" where
  "graph_edges adj = {(u, w). u < length adj \<and> w \<in> set (adj ! u)}"

abbreviation reach :: "nat list list \<Rightarrow> nat \<Rightarrow> nat \<Rightarrow> bool" where
  "reach adj u w \<equiv> (u, w) \<in> (graph_edges adj)\<^sup>*"

definition component_of :: "nat list list \<Rightarrow> nat \<Rightarrow> nat set" where
  "component_of adj v = {u. reach adj v u \<and> reach adj u v}"

definition graph_ok :: "nat list list \<Rightarrow> nat \<Rightarrow> bool" where
  "graph_ok adj n \<longleftrightarrow> length adj = n \<and> (\<forall>vs \<in> set adj. \<forall>w \<in> set vs. w < n)"

section \<open>The invariant of the search\<close>

text \<open>
  \<open>S\<close> is the component stack and \<open>fr\<close> the DFS stack, newest first; \<open>D\<close> holds the vertices
  whose component has been emitted. Every vertex of \<open>S\<close> belongs to the newest frame that is not
  younger than it. Followed edges out of \<open>S\<close> that stay in \<open>S\<close> are accounted for in the \<open>lowlink\<close>
  of the owning frame; a finished vertex reaches an older vertex of \<open>S\<close>.
\<close>

definition explored :: "nat list list \<Rightarrow> (nat \<times> nat) list \<Rightarrow> nat \<Rightarrow> nat set" where
  "explored adj fr u = (case map_of fr u of Some i \<Rightarrow> set (take i (adj ! u)) | None \<Rightarrow> set (adj ! u))"

definition owner :: "(nat \<Rightarrow> nat) \<Rightarrow> (nat \<times> nat) list \<Rightarrow> nat \<Rightarrow> nat option" where
  "owner idx fr u = find (\<lambda>f. idx f \<le> idx u) (map fst fr)"

definition owned :: "nat list list \<Rightarrow> (nat \<Rightarrow> nat) \<Rightarrow> (nat \<Rightarrow> nat) \<Rightarrow> nat set \<Rightarrow> nat list
    \<Rightarrow> (nat \<times> nat) list \<Rightarrow> nat \<Rightarrow> nat \<Rightarrow> bool" where
  "owned adj idx low D S fr u f \<longleftrightarrow>
     reach adj f u \<and>
     (\<forall>w \<in> explored adj fr u. w \<in> D \<or> w \<in> set S \<and> low f \<le> idx w) \<and>
     (u \<in> fst ` set fr \<or> (\<exists>x \<in> set S. low f \<le> idx x \<and> idx x < idx u \<and> reach adj u x))"

definition search_inv :: "nat list list \<Rightarrow> (nat \<Rightarrow> nat) \<Rightarrow> (nat \<Rightarrow> nat) \<Rightarrow> nat set \<Rightarrow> nat list
    \<Rightarrow> (nat \<times> nat) list \<Rightarrow> bool" where
  "search_inv adj idx low D S fr \<longleftrightarrow>
     sorted_wrt (\<lambda>a b. idx b < idx a) S \<and>
     D \<inter> set S = {} \<and> D \<union> set S \<subseteq> {..<length adj} \<and>
     (\<forall>u \<in> D. \<forall>w. (u, w) \<in> graph_edges adj \<longrightarrow> w \<in> D) \<and>
     sorted_wrt (\<lambda>a b. idx b < idx a \<and> reach adj b a) (map fst fr) \<and>
     fst ` set fr \<subseteq> set S \<and>
     (\<forall>u \<in> set S. \<exists>f. owner idx fr u = Some f \<and> owned adj idx low D S fr u f) \<and>
     (\<forall>f \<in> fst ` set fr. low f \<le> idx f \<and> (\<exists>x \<in> set S. idx x = low f \<and> reach adj f x))"

lemma search_invD:
  assumes "search_inv adj idx low D S fr"
  shows "sorted_wrt (\<lambda>a b. idx b < idx a) S"
    "D \<inter> set S = {}" "D \<union> set S \<subseteq> {..<length adj}"
    "\<And>u w. u \<in> D \<Longrightarrow> (u, w) \<in> graph_edges adj \<Longrightarrow> w \<in> D"
    "sorted_wrt (\<lambda>a b. idx b < idx a \<and> reach adj b a) (map fst fr)"
    "fst ` set fr \<subseteq> set S"
    "\<And>u. u \<in> set S \<Longrightarrow> \<exists>f. owner idx fr u = Some f \<and> owned adj idx low D S fr u f"
    "\<And>f. f \<in> fst ` set fr \<Longrightarrow> low f \<le> idx f \<and> (\<exists>x \<in> set S. idx x = low f \<and> reach adj f x)"
  using assms unfolding search_inv_def by auto

lemma sorted_wrt_less_inj:
  "sorted_wrt (\<lambda>a b. (idx :: nat \<Rightarrow> nat) b < idx a) S \<Longrightarrow> a \<in> set S \<Longrightarrow> b \<in> set S \<Longrightarrow> idx a = idx b \<Longrightarrow> a = b"
  by (induction S) auto

lemma owner_Cons:
  "owner idx ((v, i) # fr) u = (if idx v \<le> idx u then Some v else owner idx fr u)"
  by (simp add: owner_def)

lemma owner_Some: "owner idx fr u = Some f \<Longrightarrow> f \<in> fst ` set fr \<and> idx f \<le> idx u"
  unfolding owner_def by (induction fr) (auto split: if_splits)

lemma explored_finished: "u \<notin> fst ` set fr \<Longrightarrow> explored adj fr u = set (adj ! u)"
  by (simp add: explored_def map_of_eq_None_iff [THEN iffD2])

lemma explored_top:
  "\<not> i < length (adj ! v) \<Longrightarrow> v \<notin> fst ` set fr \<Longrightarrow> explored adj ((v, i) # fr) u = explored adj fr u"
  by (simp add: explored_def map_of_eq_None_iff [THEN iffD2])

lemma owner_cong: "(\<And>f. f \<in> insert u (fst ` set fr) \<Longrightarrow> idx' f = idx f) \<Longrightarrow> owner idx' fr u = owner idx fr u"
  unfolding owner_def by (induction fr) auto

lemma sorted_wrt_less_distinct: "sorted_wrt (\<lambda>a b. (idx :: nat \<Rightarrow> nat) b < idx a) S \<Longrightarrow> distinct S"
  by (induction S) auto

text \<open>A new vertex is discovered.\<close>

lemma search_inv_discover:
  assumes inv: "search_inv adj idx low D S fr"
    and w: "w \<notin> D" "w \<notin> set S" "w < length adj"
    and idx: "\<And>u. u \<in> set S \<Longrightarrow> idx' u = idx u \<and> idx u < idx' w"
    and low: "\<And>u. u \<in> set S \<Longrightarrow> low' u = low u" "low' w = idx' w"
    and fr: "\<And>f. f \<in> fst ` set fr \<Longrightarrow> reach adj f w"
    and fr': "map fst fr' = map fst fr"
    and ex: "\<And>u x. u \<in> set S \<Longrightarrow> x \<in> explored adj fr' u \<Longrightarrow> x \<in> explored adj fr u \<or> x = w"
  shows "search_inv adj idx' low' D (w # S) ((w, 0) # fr')"
proof -
  note I = search_invD [OF inv]
  have fst': "fst ` set fr' = fst ` set fr"
    using arg_cong [OF fr', of set] by simp
  have ne: "u \<noteq> w" if "u \<in> set S" for u
    using w that by auto
  have owner': "owner idx' ((w, 0) # fr') u = owner idx fr u" if "u \<in> set S" for u
  proof -
    have "owner idx' ((w, 0) # fr') u = owner idx' fr u"
      using idx [OF that] by (simp add: owner_def fr')
    moreover have "owner idx' fr u = owner idx fr u"
      by (rule owner_cong) (use idx I(6) that in auto)
    ultimately show ?thesis by simp
  qed
  have "owned adj idx' low' D (w # S) ((w, 0) # fr') u f"
    if u: "u \<in> set S" and f: "owner idx fr u = Some f" "owned adj idx low D S fr u f" for u f
  proof -
    have fS: "f \<in> set S" "low f \<le> idx f"
      using owner_Some [OF f(1)] I(6) I(8) by auto
    have "explored adj ((w, 0) # fr') u = explored adj fr' u"
      using ne [OF u] by (simp add: explored_def)
    moreover have "low f \<le> idx' w"
      using idx [OF fS(1)] fS(2) by simp
    ultimately show ?thesis
      unfolding owned_def
    proof (intro conjI ballI)
      show "reach adj f u" using f(2) by (simp add: owned_def)
    next
      fix x assume "x \<in> explored adj ((w, 0) # fr') u"
      then have "x \<in> explored adj fr u \<or> x = w"
        using \<open>explored adj ((w, 0) # fr') u = explored adj fr' u\<close> ex [OF u] by auto
      then show "x \<in> D \<or> x \<in> set (w # S) \<and> low' f \<le> idx' x"
        using f(2) \<open>low f \<le> idx' w\<close> low(1) [OF fS(1)] idx by (auto simp: owned_def)
    next
      show "u \<in> fst ` set ((w, 0) # fr') \<or>
          (\<exists>x \<in> set (w # S). low' f \<le> idx' x \<and> idx' x < idx' u \<and> reach adj u x)"
        using f(2) low(1) [OF fS(1)] idx u fst' unfolding owned_def by (simp, metis)
    qed
  qed
  moreover have "owned adj idx' low' D (w # S) ((w, 0) # fr') w w"
    by (simp add: owned_def explored_def)
  ultimately have owned: "\<exists>f. owner idx' ((w, 0) # fr') u = Some f \<and> owned adj idx' low' D (w # S) ((w, 0) # fr') u f"
    if "u \<in> set (w # S)" for u
    using I(7) [of u] owner' [of u] that by (auto simp: owner_Cons)
  have "low' f \<le> idx' f \<and> (\<exists>x \<in> set (w # S). idx' x = low' f \<and> reach adj f x)"
    if "f \<in> fst ` set ((w, 0) # fr')" for f
  proof (cases "f = w")
    case True
    with low(2) show ?thesis by auto
  next
    case False
    with that fst' have "f \<in> fst ` set fr" by auto
    with I(6) I(8) [of f] idx low(1) [of f] show ?thesis
      by (metis (no_types, lifting) list.set_intros(2) subsetD)
  qed
  moreover have "sorted_wrt (\<lambda>a b. idx' b < idx' a) (w # S)"
    using I(1) idx by (auto intro: sorted_wrt_mono_rel [OF _ I(1)])
  moreover have "sorted_wrt (\<lambda>a b. idx' b < idx' a \<and> reach adj b a) (map fst ((w, 0) # fr'))"
  proof -
    have "sorted_wrt (\<lambda>a b. idx' b < idx' a \<and> reach adj b a) (map fst fr)"
      by (rule sorted_wrt_mono_rel [OF _ I(5)]) (metis I(6) idx set_map subsetD)
    then show ?thesis
      using I(6) idx fr fst' fr' by (auto simp: subset_eq)
  qed
  moreover have "D \<inter> set (w # S) = {}" "D \<union> set (w # S) \<subseteq> {..<length adj}"
      "fst ` set ((w, 0) # fr') \<subseteq> set (w # S)"
    using I(2,3,6) w fst' by auto
  ultimately show ?thesis
    unfolding search_inv_def using I(4) owned by (intro conjI ballI allI impI) simp_all
qed

text \<open>An edge to a vertex already seen: the lowlink of the frame is lowered if it is still open.\<close>

lemma search_inv_edge:
  assumes inv: "search_inv adj idx low D S fr"
    and fr: "fr = (v, i) # rest" "i < length (adj ! v)" "w = adj ! v ! i"
    and w: "w \<in> D \<or> w \<in> set S"
    and low: "\<And>u. u \<in> set S \<Longrightarrow> u \<noteq> v \<Longrightarrow> low' u = low u"
      "low' v = (if w \<in> set S then min (low v) (idx w) else low v)"
  shows "search_inv adj idx low' D S ((v, i + 1) # rest)"
proof -
  note I = search_invD [OF inv, unfolded fr(1)]
  have vS: "v \<in> set S" and vn: "v < length adj"
    using I(3,6) by auto
  have vw: "reach adj v w"
    using vn fr by (auto simp: graph_edges_def)
  have le: "low' u \<le> low u" if "u \<in> set S" for u
    using low(1) [OF that] low(2) by (cases "u = v") auto
  have own: "owner idx ((v, i + 1) # rest) u = owner idx ((v, i) # rest) u" for u
    by (simp add: owner_def)
  have "owned adj idx low' D S ((v, i + 1) # rest) u f"
    if u: "u \<in> set S" "owner idx ((v, i) # rest) u = Some f" "owned adj idx low D S ((v, i) # rest) u f" for u f
    unfolding owned_def
  proof (intro conjI ballI)
    have fS: "f \<in> set S" using owner_Some [OF u(2)] I(6) by auto
    show "reach adj f u" using u(3) by (simp add: owned_def)
    show "u \<in> fst ` set ((v, i + 1) # rest) \<or> (\<exists>x \<in> set S. low' f \<le> idx x \<and> idx x < idx u \<and> reach adj u x)"
      using u(3) le [OF fS] unfolding owned_def by (auto intro: le_trans)
    fix x assume x: "x \<in> explored adj ((v, i + 1) # rest) u"
    have "x \<in> explored adj ((v, i) # rest) u \<or> (u = v \<and> x = w)"
      using x fr(2,3) by (auto simp: explored_def take_Suc_conv_app_nth split: if_splits)
    then show "x \<in> D \<or> x \<in> set S \<and> low' f \<le> idx x"
    proof
      assume "x \<in> explored adj ((v, i) # rest) u"
      with u(3) le [OF fS] show ?thesis unfolding owned_def by (meson le_trans)
    next
      assume "u = v \<and> x = w"
      moreover from this u(2) have "f = v" by (simp add: owner_def)
      ultimately show ?thesis using w low(2) by auto
    qed
  qed
  then have "\<exists>f. owner idx ((v, i + 1) # rest) u = Some f \<and> owned adj idx low' D S ((v, i + 1) # rest) u f"
    if "u \<in> set S" for u
    using I(7) [OF that] own that by auto
  moreover have "low' f \<le> idx f \<and> (\<exists>x \<in> set S. idx x = low' f \<and> reach adj f x)"
    if f: "f \<in> fst ` set ((v, i) # rest)" for f
  proof (cases "f = v")
    case True
    with I(8) [of v] low(2) vw show ?thesis by (auto simp: min_def)
  next
    case False
    moreover have "f \<in> set S" using f I(6) by auto
    ultimately show ?thesis using I(8) [OF f] low(1) by auto
  qed
  ultimately show ?thesis
    using I(1-6) unfolding search_inv_def by auto
qed

text \<open>The top frame has no edge left.\<close>

lemma owner_rest:
  assumes "sorted_wrt (\<lambda>a b. idx b < idx a \<and> R b a) (map fst ((v, i) # rest))"
    "owner idx ((v, i) # rest) u = Some f" "f \<noteq> v"
  shows "owner idx rest u = Some f \<and> idx u < idx v"
  using assms by (auto simp: owner_Cons split: if_splits)

lemma search_inv_bottom:
  assumes "search_inv adj idx low D S [(v, i)]"
  shows "low v = idx v"
proof -
  note I = search_invD [OF assms]
  obtain x where x: "x \<in> set S" "idx x = low v" "low v \<le> idx v"
    using I(8) [of v] by auto
  from I(7) [OF x(1)] have "idx v \<le> idx x"
    by (auto simp: owner_def split: if_splits)
  with x show ?thesis by simp
qed

lemma search_inv_retreat:
  assumes inv: "search_inv adj idx low D S ((v, i) # (p, j) # rest)"
    and i: "\<not> i < length (adj ! v)"
    and v: "low v \<noteq> idx v"
    and low: "\<And>u. u \<noteq> p \<Longrightarrow> low' u = low u" "low' p = min (low p) (low v)"
  shows "search_inv adj idx low' D S ((p, j) # rest)"
proof -
  note I = search_invD [OF inv]
  have le: "low' u \<le> low u" for u
    using low by (cases "u = p") auto
  have pv: "idx p < idx v" "reach adj p v" using I(5) by auto
  have vnot: "v \<notin> fst ` set ((p, j) # rest)"
    using I(5) by (auto simp: image_iff)
  obtain x where x: "x \<in> set S" "idx x = low v" "low v < idx v" "reach adj v x"
    using I(8) [of v] v by auto
  have "\<exists>f. owner idx ((p, j) # rest) u = Some f \<and> owned adj idx low' D S ((p, j) # rest) u f"
    if u: "u \<in> set S" for u
  proof -
    obtain f where f: "owner idx ((v, i) # (p, j) # rest) u = Some f"
      "owned adj idx low D S ((v, i) # (p, j) # rest) u f"
      using I(7) [OF u] by blast
    have ex: "explored adj ((v, i) # (p, j) # rest) u = explored adj ((p, j) # rest) u"
      using i vnot by (rule explored_top)
    show ?thesis
    proof (cases "f = v")
      case True
      then have "idx v \<le> idx u" using f(1) owner_Some by metis
      with pv have own: "owner idx ((p, j) # rest) u = Some p" by (simp add: owner_Cons)
      have lpv: "low' p \<le> low v" using low(2) by simp
      have "owned adj idx low' D S ((p, j) # rest) u p"
        unfolding owned_def
      proof (intro conjI ballI)
        show "reach adj p u" using f(2) True pv(2) by (auto simp: owned_def)
        show "\<And>w. w \<in> explored adj ((p, j) # rest) u \<Longrightarrow> w \<in> D \<or> w \<in> set S \<and> low' p \<le> idx w"
          using f(2) ex True lpv unfolding owned_def by (metis le_trans)
        show "u \<in> fst ` set ((p, j) # rest) \<or> (\<exists>x \<in> set S. low' p \<le> idx x \<and> idx x < idx u \<and> reach adj u x)"
        proof (cases "u = v")
          case True
          with x lpv show ?thesis by auto
        next
          case False
          with f(2) \<open>f = v\<close> lpv show ?thesis unfolding owned_def by (auto intro: le_trans)
        qed
      qed
      with own show ?thesis by blast
    next
      case False
      with owner_rest [OF I(5) f(1)] have own: "owner idx ((p, j) # rest) u = Some f" and "u \<noteq> v"
        by auto
      have "owned adj idx low' D S ((p, j) # rest) u f"
        using f(2) le [of f] \<open>u \<noteq> v\<close> unfolding owned_def ex
        by (auto intro: le_trans)
      with own show ?thesis by blast
    qed
  qed
  moreover have "low' f \<le> idx f \<and> (\<exists>x \<in> set S. idx x = low' f \<and> reach adj f x)"
    if f: "f \<in> fst ` set ((p, j) # rest)" for f
  proof (cases "f = p \<and> low v < low p")
    case True
    then have "low' f = low v" "low v < idx f" "reach adj f x"
      using low(2) x(3,4) I(8) [of p] pv by (auto intro: rtrancl_trans)
    with x show ?thesis by auto
  next
    case False
    with low have "low' f = low f" by (cases "f = p") auto
    with I(8) [of f] f show ?thesis by auto
  qed
  ultimately show ?thesis
    using I(1-6) unfolding search_inv_def by auto
qed

text \<open>The vertices above a root form its component.\<close>

lemma search_inv_above_root:
  assumes inv: "search_inv adj idx low D (P @ v # S) ((v, i) # rest)"
    and i: "\<not> i < length (adj ! v)"
    and v: "low v = idx v"
  shows "set (P @ [v]) = component_of adj v"
    "\<And>u w. u \<in> D \<union> set (P @ [v]) \<Longrightarrow> (u, w) \<in> graph_edges adj \<Longrightarrow> w \<in> D \<union> set (P @ [v])"
proof -
  note I = search_invD [OF inv]
  define C where "C = set (P @ [v])"
  have above: "u \<in> C \<longleftrightarrow> u \<in> set (P @ v # S) \<and> idx v \<le> idx u" for u
    using I(1) unfolding C_def by (auto simp: sorted_wrt_append)
  have owned: "owned adj idx low D (P @ v # S) ((v, i) # rest) u v" if "u \<in> C" for u
  proof -
    from that have "owner idx ((v, i) # rest) u = Some v" "u \<in> set (P @ v # S)"
      using above by (auto simp: owner_Cons)
    with I(7) show ?thesis by fastforce
  qed
  have notframe: "u \<notin> fst ` set rest" if "u \<in> C" for u
    using that above [of u] I(5) by auto
  have closed: "w \<in> D \<union> C" if "u \<in> C" "(u, w) \<in> graph_edges adj" for u w
  proof -
    have "v \<notin> fst ` set rest" using I(5) by auto
    then have "w \<in> explored adj ((v, i) # rest) u"
      using that(2) explored_top [OF i] explored_finished [OF notframe [OF that(1)]]
      by (simp add: graph_edges_def)
    with owned [OF that(1)] v have "w \<in> D \<or> w \<in> set (P @ v # S) \<and> idx v \<le> idx w"
      unfolding owned_def by (metis (no_types))
    with above [of w] show ?thesis by auto
  qed
  then show "\<And>u w. u \<in> D \<union> set (P @ [v]) \<Longrightarrow> (u, w) \<in> graph_edges adj \<Longrightarrow> w \<in> D \<union> set (P @ [v])"
    using I(4) unfolding C_def by blast
  have D_closed: "w \<in> D" if "reach adj u w" "u \<in> D" for u w
    using that by (induction) (auto intro: I(4))
  have DC_closed: "w \<in> D \<union> C" if "reach adj u w" "u \<in> D \<union> C" for u w
    using that by (induction) (use closed I(4) in blast)+
  have vC: "v \<in> C" by (simp add: C_def)
  have "v \<notin> D" using I(2) by auto
  have down: "reach adj u v" if "u \<in> C" for u
    using that
  proof (induction "idx u" arbitrary: u rule: less_induct)
    case less
    show ?case
    proof (cases "u = v")
      case False
      with owned [OF less.prems] notframe [OF less.prems]
      obtain x where "x \<in> set (P @ v # S)" "low v \<le> idx x" "idx x < idx u" "reach adj u x"
        unfolding owned_def by auto
      moreover from this v have "x \<in> C" using above [of x] by simp
      ultimately show ?thesis using less.hyps [of x] by (metis rtrancl_trans)
    qed simp
  qed
  have "C = component_of adj v"
    unfolding component_of_def
  proof (intro set_eqI iffI CollectI conjI)
    fix u assume u: "u \<in> C"
    show "reach adj v u" using owned [OF u] by (simp add: owned_def)
    show "reach adj u v" using down u .
  next
    fix u assume "u \<in> {u. reach adj v u \<and> reach adj u v}"
    then have "u \<in> D \<union> C" "reach adj u v" using DC_closed vC by auto
    then show "u \<in> C" using D_closed \<open>v \<notin> D\<close> by auto
  qed
  then show "set (P @ [v]) = component_of adj v" by (simp add: C_def)
qed

lemma search_inv_root:
  assumes inv: "search_inv adj idx low D (P @ v # S) ((v, i) # rest)"
    and i: "\<not> i < length (adj ! v)"
    and v: "low v = idx v"
  shows "search_inv adj idx low (D \<union> set (P @ [v])) S rest"
proof -
  note I = search_invD [OF inv] and above = search_inv_above_root [OF inv i v]
  have older: "idx u < idx v" if "u \<in> set S" for u
    using I(1) that by (auto simp: sorted_wrt_append)
  have younger: "idx v \<le> idx u" if "u \<in> set (P @ [v])" for u
    using I(1) that by (auto simp: sorted_wrt_append)
  have frS: "fst ` set rest \<subseteq> set S"
    using I(5,6) younger by (fastforce simp: image_iff)
  have "v \<notin> fst ` set rest" using I(5) by auto
  then have ex: "explored adj ((v, i) # rest) u = explored adj rest u" for u
    using i by (rule explored_top [rotated])
  have "\<exists>f. owner idx rest u = Some f \<and> owned adj idx low (D \<union> set (P @ [v])) S rest u f"
    if u: "u \<in> set S" for u
  proof -
    obtain f where f: "owner idx ((v, i) # rest) u = Some f" "owned adj idx low D (P @ v # S) ((v, i) # rest) u f"
      using I(7) [of u] u by auto
    with older [OF u] have "f \<noteq> v" and own: "owner idx rest u = Some f"
      by (auto simp: owner_Cons dest: owner_Some)
    moreover have "owned adj idx low (D \<union> set (P @ [v])) S rest u f"
      unfolding owned_def
    proof (intro conjI ballI)
      show "reach adj f u" using f(2) by (simp add: owned_def)
      show "w \<in> D \<union> set (P @ [v]) \<or> w \<in> set S \<and> low f \<le> idx w" if "w \<in> explored adj rest u" for w
        using f(2) that unfolding owned_def ex by auto
      have "u \<noteq> v" using older [OF u] by auto
      then show "u \<in> fst ` set rest \<or> (\<exists>x \<in> set S. low f \<le> idx x \<and> idx x < idx u \<and> reach adj u x)"
        using f(2) older [OF u] younger unfolding owned_def by fastforce
    qed
    ultimately show ?thesis by blast
  qed
  moreover have "low f \<le> idx f \<and> (\<exists>x \<in> set S. idx x = low f \<and> reach adj f x)"
    if f: "f \<in> fst ` set rest" for f
  proof -
    from I(8) [of f] f obtain x where x: "x \<in> set (P @ v # S)" "idx x = low f" "low f \<le> idx f" "reach adj f x"
      by auto
    moreover have "idx f < idx v" using f frS older by auto
    ultimately have "x \<in> set S" using younger [of x] by auto
    with x show ?thesis by auto
  qed
  moreover have "\<forall>u \<in> D \<union> set (P @ [v]). \<forall>w. (u, w) \<in> graph_edges adj \<longrightarrow> w \<in> D \<union> set (P @ [v])"
    using above(2) by blast
  moreover have "sorted_wrt (\<lambda>a b. idx b < idx a) S" "(D \<union> set (P @ [v])) \<inter> set S = {}"
    "D \<union> set (P @ [v]) \<union> set S \<subseteq> {..<length adj}"
    using I(1,2,3) by (auto simp: sorted_wrt_append)
  ultimately show ?thesis
    using I(5) frS unfolding search_inv_def by (intro conjI) simp_all
qed

section \<open>The invariant of the code's state\<close>

definition node_idx :: "tarjan \<Rightarrow> nat \<Rightarrow> nat" where
  "node_idx t v = (if v < length (tj_state t) then unat (the (tn_index (tj_state t ! v))) else 0)"

definition node_low :: "tarjan \<Rightarrow> nat \<Rightarrow> nat" where
  "node_low t v = (if v < length (tj_state t) then unat (tn_lowlink (tj_state t ! v)) else 0)"

lemma node_dfs [simp]:
  "node_idx (t\<lparr>tj_dfs := fr\<rparr>) = node_idx t" "node_low (t\<lparr>tj_dfs := fr\<rparr>) = node_low t"
  by (simp_all add: node_idx_def node_low_def fun_eq_iff)

definition emitted :: "tarjan \<Rightarrow> nat set" where
  "emitted t = set (concat (tj_sccs t))"

definition visited :: "tarjan \<Rightarrow> nat set" where
  "visited t = emitted t \<union> set (tj_stack t)"

definition sccs_ok :: "nat list list \<Rightarrow> nat list list \<Rightarrow> bool" where
  "sccs_ok adj cs \<longleftrightarrow> distinct (concat cs) \<and>
     (\<forall>c \<in> set cs. sorted c \<and> (\<exists>v \<in> set c. set c = component_of adj v))"

definition tarjan_inv :: "nat list list \<Rightarrow> tarjan \<Rightarrow> bool" where
  "tarjan_inv adj t \<longleftrightarrow>
     length (tj_state t) = length adj \<and>
     unat (tj_counter t) = card (visited t) \<and>
     (\<forall>v < length adj. (tn_index (tj_state t ! v) \<noteq> None) = (v \<in> visited t) \<and>
                       tn_on_stack (tj_state t ! v) = (v \<in> set (tj_stack t))) \<and>
     (\<forall>v \<in> set (tj_stack t). node_idx t v < unat (tj_counter t)) \<and>
     sccs_ok adj (tj_sccs t) \<and>
     search_inv adj (node_idx t) (node_low t) (emitted t) (tj_stack t) (tj_dfs t)"

lemma tarjan_invD:
  assumes "tarjan_inv adj t"
  shows "length (tj_state t) = length adj" "unat (tj_counter t) = card (visited t)"
    "\<And>v. v < length adj \<Longrightarrow> (tn_index (tj_state t ! v) \<noteq> None) = (v \<in> visited t)"
    "\<And>v. v < length adj \<Longrightarrow> tn_on_stack (tj_state t ! v) = (v \<in> set (tj_stack t))"
    "\<And>v. v \<in> set (tj_stack t) \<Longrightarrow> node_idx t v < unat (tj_counter t)"
    "sccs_ok adj (tj_sccs t)"
    "search_inv adj (node_idx t) (node_low t) (emitted t) (tj_stack t) (tj_dfs t)"
  using assms unfolding tarjan_inv_def by auto

lemma tarjan_inv_visited: "tarjan_inv adj t \<Longrightarrow> visited t \<subseteq> {..<length adj}"
  using search_invD(3) [OF tarjan_invD(7)] unfolding visited_def by blast

lemma node_discover:
  "v < length (tj_state t) \<Longrightarrow> node_idx (discover w t) v = (if v = w then unat (tj_counter t) else node_idx t v)"
  "v < length (tj_state t) \<Longrightarrow> node_low (discover w t) v = (if v = w then unat (tj_counter t) else node_low t v)"
  by (auto simp: node_idx_def node_low_def discover_def nth_list_update)

lemma tarjan_inv_discover:
  assumes inv: "tarjan_inv adj t" and w: "w < length adj" "w \<notin> visited t" and n: "length adj < 2 ^ 32"
    and fr: "\<And>f. f \<in> fst ` set (tj_dfs t) \<Longrightarrow> reach adj f w"
    and fr': "map fst fr' = map fst (tj_dfs t)"
    and ex: "\<And>u x. u \<in> set (tj_stack t) \<Longrightarrow> x \<in> explored adj fr' u \<Longrightarrow>
        x \<in> explored adj (tj_dfs t) u \<or> x = w"
  shows "tarjan_inv adj (discover w (t\<lparr>tj_dfs := fr'\<rparr>))" (is "tarjan_inv adj ?u")
proof -
  note T = tarjan_invD [OF inv] and I = search_invD [OF tarjan_invD(7) [OF inv]]
  have vis: "visited ?u = insert w (visited t)" "emitted ?u = emitted t"
    by (auto simp: visited_def emitted_def discover_def)
  have fin: "finite (visited t)" "card (visited t) < length adj"
    using tarjan_inv_visited [OF inv] w psubset_card_mono [of "{..<length adj}" "visited t"]
    by (auto intro: finite_subset)
  have S: "v < length adj" "v \<noteq> w" if "v \<in> set (tj_stack t)" for v
    using that I(3) w by (auto simp: visited_def)
  have idx: "node_idx ?u v = node_idx t v" "node_low ?u v = node_low t v" if "v \<in> set (tj_stack t)" for v
    using S [OF that] T(1) node_discover [of v "t\<lparr>tj_dfs := fr'\<rparr>" w]
    by (auto simp: node_idx_def node_low_def)
  have new: "node_idx ?u w = unat (tj_counter t)" "node_low ?u w = unat (tj_counter t)"
    using w T(1) by (simp_all add: node_discover)
  have counter: "unat (tj_counter ?u) = card (visited ?u)"
    using fin w n T(2) vis by (simp add: discover_def unat_word_ariths)
  moreover have "search_inv adj (node_idx ?u) (node_low ?u) (emitted t) (w # tj_stack t) ((w, 0) # fr')"
    by (rule search_inv_discover [OF T(7)])
      (use w fr fr' ex idx new T(5) in \<open>auto simp: visited_def\<close>)
  moreover have "\<forall>v < length adj. (tn_index (tj_state ?u ! v) \<noteq> None) = (v \<in> visited ?u) \<and>
      tn_on_stack (tj_state ?u ! v) = (v \<in> set (tj_stack ?u))"
  proof -
    have "tj_state ?u ! v = (if v = w then \<lparr>tn_index = Some (tj_counter t),
        tn_lowlink = tj_counter t, tn_on_stack = True\<rparr> else tj_state t ! v)" for v
      using w T(1) by (simp add: discover_def)
    moreover have "set (tj_stack ?u) = insert w (set (tj_stack t))"
      by (simp add: discover_def)
    ultimately show ?thesis using T(3,4) vis(1) by auto
  qed
  moreover have "unat (tj_counter ?u) = Suc (unat (tj_counter t))"
    using counter vis fin w T(2) by simp
  then have "\<forall>v \<in> set (tj_stack ?u). node_idx ?u v < unat (tj_counter ?u)"
    using idx new T(5) by (auto simp: discover_def less_SucI)
  ultimately show ?thesis
    using T(1,6) vis unfolding tarjan_inv_def by (simp add: discover_def)
qed

lemma tarjan_inv_set_lowlink:
  assumes inv: "tarjan_inv adj t" and v: "v < length adj"
    and search: "search_inv adj (node_idx t) ((node_low t)(v := unat l)) (emitted t) (tj_stack t) fr"
  shows "tarjan_inv adj (set_lowlink v l (t\<lparr>tj_dfs := fr\<rparr>))" (is "tarjan_inv adj ?u")
proof -
  note T = tarjan_invD [OF inv]
  have st: "tj_state ?u ! w = (if w = v then (tj_state t ! v)\<lparr>tn_lowlink := l\<rparr> else tj_state t ! w)" for w
    using v T(1) by simp
  have "node_idx ?u = node_idx t" "node_low ?u = (node_low t)(v := unat l)"
    unfolding node_idx_def node_low_def fun_eq_iff st using v T(1) by auto
  moreover have "visited ?u = visited t" "emitted ?u = emitted t"
    by (auto simp: visited_def emitted_def)
  ultimately show ?thesis
    using inv search unfolding tarjan_inv_def st by (auto simp: fun_upd_def)
qed

lemma tarjan_inv_dfs:
  "tarjan_inv adj t \<Longrightarrow> search_inv adj (node_idx t) (node_low t) (emitted t) (tj_stack t) fr \<Longrightarrow>
     tarjan_inv adj (t\<lparr>tj_dfs := fr\<rparr>)"
  unfolding tarjan_inv_def by (auto simp: visited_def emitted_def)

lemma pop_scc_result:
  assumes "v \<notin> set P" "\<forall>u \<in> set (P @ [v]). u < length st" "distinct P"
  shows "\<exists>st'. pop_scc v (P @ v # S) st scc = Some (S, st', scc @ P @ [v]) \<and>
     length st' = length st \<and>
     (\<forall>u < length st. tn_index (st' ! u) = tn_index (st ! u) \<and> tn_lowlink (st' ! u) = tn_lowlink (st ! u) \<and>
        tn_on_stack (st' ! u) = (tn_on_stack (st ! u) \<and> u \<notin> set (P @ [v])))"
  using assms
proof (induction P arbitrary: st scc)
  case Nil
  then show ?case by (auto simp: nth_list_update)
next
  case (Cons p P)
  let ?st = "st[p := (st ! p)\<lparr>tn_on_stack := False\<rparr>]"
  from Cons obtain st' where *: "pop_scc v (P @ v # S) ?st (scc @ [p]) = Some (S, st', (scc @ [p]) @ P @ [v])"
    "length st' = length ?st"
    "\<forall>u < length ?st. tn_index (st' ! u) = tn_index (?st ! u) \<and> tn_lowlink (st' ! u) = tn_lowlink (?st ! u) \<and>
        tn_on_stack (st' ! u) = (tn_on_stack (?st ! u) \<and> u \<notin> set (P @ [v]))"
    using Cons.IH [of ?st "scc @ [p]"] by auto
  from *(1) have "pop_scc v ((p # P) @ v # S) st scc = Some (S, st', scc @ (p # P) @ [v])"
    using Cons.prems by (simp add: Let_def)
  moreover have "\<forall>u < length st. tn_index (st' ! u) = tn_index (st ! u) \<and> tn_lowlink (st' ! u) = tn_lowlink (st ! u) \<and>
        tn_on_stack (st' ! u) = (tn_on_stack (st ! u) \<and> u \<notin> set ((p # P) @ [v]))"
    using *(3) Cons.prems by (auto simp: nth_list_update)
  ultimately show ?case using *(2) by auto
qed

lemma component_of_sym: "w \<in> component_of adj v \<Longrightarrow> component_of adj w = component_of adj v"
  unfolding component_of_def by (auto intro: rtrancl_trans)

text \<open>A root is finished: its component is emitted.\<close>

lemma tarjan_inv_root:
  assumes inv: "tarjan_inv adj t" and fr: "tj_dfs t = (v, i) # rest" and i: "\<not> i < length (adj ! v)"
    and low: "unat (tn_lowlink (tj_state t ! v)) = node_idx t v"
  shows "\<exists>u. finish_root v (t\<lparr>tj_dfs := rest\<rparr>) = Some u \<and> tarjan_inv adj u \<and> visited t \<subseteq> visited u"
proof -
  note T = tarjan_invD [OF inv] and I = search_invD [OF tarjan_invD(7) [OF inv]]
  have vS: "v \<in> set (tj_stack t)" using I(6) fr by auto
  then obtain P S where PS: "tj_stack t = P @ v # S" "v \<notin> set P"
    by (meson split_list_first)
  have "v < length adj" using vS I(3) by auto
  then have lowv: "node_low t v = node_idx t v" using low T(1) by (simp add: node_low_def)
  have idx: "map_option unat (tn_index (tj_state t ! v)) = Some (node_idx t v)"
    using \<open>v < length adj\<close> T(1) T(3) [of v] vS by (auto simp: node_idx_def visited_def)
  have dist: "distinct (tj_stack t)"
    using I(1) by (rule sorted_wrt_less_distinct)
  have "distinct P" using dist PS by simp
  moreover have "\<forall>u \<in> set (P @ [v]). u < length (tj_state t)"
    using I(3) T(1) PS by auto
  ultimately obtain st' where st': "pop_scc v (P @ v # S) (tj_state t) [] = Some (S, st', P @ [v])"
    "length st' = length (tj_state t)"
    "\<forall>u < length (tj_state t). tn_index (st' ! u) = tn_index (tj_state t ! u) \<and>
        tn_lowlink (st' ! u) = tn_lowlink (tj_state t ! u) \<and>
        tn_on_stack (st' ! u) = (tn_on_stack (tj_state t ! u) \<and> u \<notin> set (P @ [v]))"
    using pop_scc_result [OF PS(2), of "tj_state t" S "[]"] by auto
  define u where "u = t\<lparr>tj_dfs := rest, tj_stack := S, tj_state := st', tj_sccs := tj_sccs t @ [sort (P @ [v])]\<rparr>"
  have "finish_root v (t\<lparr>tj_dfs := rest\<rparr>) = Some u"
    using st'(1) PS idx low by (auto simp: finish_root_def u_def word_unat_eq_iff)
  moreover have em: "emitted u = emitted t \<union> set (P @ [v])"
    by (auto simp: emitted_def u_def)
  moreover have vis: "visited u = visited t"
    using em PS by (auto simp: visited_def u_def)
  moreover have "tarjan_inv adj u"
  proof -
    have nodes: "node_idx u = node_idx t" "node_low u = node_low t"
      using st'(2,3) T(1) by (auto simp: node_idx_def node_low_def u_def fun_eq_iff)
    have root: "search_inv adj (node_idx t) (node_low t) (emitted u) S rest"
      unfolding em by (rule search_inv_root [OF T(7) [unfolded fr PS(1)] i]) (use lowv in simp)
    have "sccs_ok adj (tj_sccs u)"
    proof -
      have "set (P @ [v]) = component_of adj v"
        by (rule search_inv_above_root(1) [OF T(7) [unfolded fr PS(1)] i]) (use lowv in simp)
      moreover have "distinct (concat (tj_sccs t) @ P @ [v])"
        using T(6) dist PS I(2) unfolding sccs_ok_def by (auto simp: emitted_def)
      ultimately show ?thesis
        using T(6) unfolding sccs_ok_def u_def by auto
    qed
    moreover have "\<forall>w < length adj. (tn_index (tj_state u ! w) \<noteq> None) = (w \<in> visited u) \<and>
                       tn_on_stack (tj_state u ! w) = (w \<in> set (tj_stack u))"
    proof (intro allI impI)
      fix w assume w: "w < length adj"
      have "w \<in> set S \<longleftrightarrow> w \<in> set (tj_stack t) \<and> w \<notin> set (P @ [v])"
        using dist PS by auto
      then show "(tn_index (tj_state u ! w) \<noteq> None) = (w \<in> visited u) \<and>
          tn_on_stack (tj_state u ! w) = (w \<in> set (tj_stack u))"
        using T(1) T(3) [OF w] T(4) [OF w] vis st'(3) w by (simp add: u_def)
    qed
    moreover have "search_inv adj (node_idx u) (node_low u) (emitted u) (tj_stack u) (tj_dfs u)"
      using root nodes by (simp add: u_def)
    moreover have "\<forall>w \<in> set (tj_stack u). node_idx u w < unat (tj_counter u)"
      using T(5) nodes I(3) PS by (auto simp: u_def)
    ultimately show ?thesis
      using T(1,2) st'(2) vis unfolding tarjan_inv_def by (simp add: u_def)
  qed
  ultimately show ?thesis by auto
qed

text \<open>One iteration of the loop.\<close>

lemma visited_simps [simp]:
  "visited (t\<lparr>tj_dfs := fr\<rparr>) = visited t"
  "visited (set_lowlink v l t) = visited t"
  "visited (discover w t) = insert w (visited t)"
  by (auto simp: visited_def emitted_def discover_def)

lemma tarjan_step_edge:
  assumes inv: "tarjan_inv adj t" and ok: "graph_ok adj n" "n < 2 ^ 32"
    and fr: "tj_dfs t = (v, i) # rest" and i: "i < length (adj ! v)"
  shows "\<exists>u. tarjan_step adj t v i rest = Some u \<and> tarjan_inv adj u \<and> visited t \<subseteq> visited u"
proof -
  note T = tarjan_invD [OF inv] and I = search_invD [OF tarjan_invD(7) [OF inv], unfolded fr]
  define w where "w = adj ! v ! i"
  have v: "v < length adj" "v \<in> set (tj_stack t)" using I(3,6) by auto
  have w: "w < length adj" "(v, w) \<in> graph_edges adj"
    using ok v(1) nth_mem [OF v(1)] nth_mem [OF i] unfolding graph_ok_def w_def graph_edges_def by blast+
  show ?thesis
  proof (cases "tn_index (tj_state t ! w)")
    case None
    then have "tarjan_step adj t v i rest = Some (discover w (t\<lparr>tj_dfs := (v, i + 1) # rest\<rparr>))"
      using v w T(1) i by (simp add: tarjan_step_def Let_def flip: w_def)
    moreover have "tarjan_inv adj (discover w (t\<lparr>tj_dfs := (v, i + 1) # rest\<rparr>))"
    proof (rule tarjan_inv_discover [OF inv w(1)])
      show "w \<notin> visited t" using T(3) [OF w(1)] None by simp
      show "length adj < 2 ^ 32" using ok by (simp add: graph_ok_def)
      show "reach adj f w" if "f \<in> fst ` set (tj_dfs t)" for f
      proof -
        have "f = v \<or> reach adj f v" using that I(5) unfolding fr by auto
        then show ?thesis using w(2) by auto
      qed
      show "map fst ((v, i + 1) # rest) = map fst (tj_dfs t)" by (simp add: fr)
      show "x \<in> explored adj (tj_dfs t) u \<or> x = w" if "x \<in> explored adj ((v, i + 1) # rest) u" for u x
        using that i unfolding fr explored_def w_def by (auto simp: take_Suc_conv_app_nth split: if_splits)
    qed
    ultimately show ?thesis by auto
  next
    case (Some k)
    then have wv: "w \<in> visited t" "node_idx t w = unat k"
      using T(1) T(3) [OF w(1)] w(1) by (auto simp: node_idx_def)
    then have wDS: "w \<in> emitted t \<or> w \<in> set (tj_stack t)"
      by (auto simp: visited_def)
    show ?thesis
    proof (cases "w \<in> set (tj_stack t) \<and> k < tn_lowlink (tj_state t ! v)")
      case True
      then have "tarjan_step adj t v i rest = Some (set_lowlink v k (t\<lparr>tj_dfs := (v, i + 1) # rest\<rparr>))"
        using v w T(1) T(4) [OF w(1)] i Some by (simp add: tarjan_step_def Let_def flip: w_def)
      moreover have "tarjan_inv adj (set_lowlink v k (t\<lparr>tj_dfs := (v, i + 1) # rest\<rparr>))"
        by (rule tarjan_inv_set_lowlink [OF inv v(1)], rule search_inv_edge [OF T(7) fr i w_def wDS])
          (use True wv v T(1) in \<open>auto simp: node_low_def word_less_nat_alt\<close>)
      ultimately show ?thesis by auto
    next
      case False
      then have "tarjan_step adj t v i rest = Some (t\<lparr>tj_dfs := (v, i + 1) # rest\<rparr>)"
        using v w T(1) T(4) [OF w(1)] i Some by (auto simp: tarjan_step_def Let_def simp flip: w_def)
      moreover have "tarjan_inv adj (t\<lparr>tj_dfs := (v, i + 1) # rest\<rparr>)"
        by (rule tarjan_inv_dfs [OF inv], rule search_inv_edge [OF T(7) fr i w_def wDS])
          (use False wv v T(1) in \<open>auto simp: node_low_def word_less_nat_alt\<close>)
      ultimately show ?thesis by auto
    qed
  qed
qed

lemma tarjan_step_finish:
  assumes inv: "tarjan_inv adj t"
    and fr: "tj_dfs t = (v, i) # rest" and i: "\<not> i < length (adj ! v)"
  shows "\<exists>u. tarjan_step adj t v i rest = Some u \<and> tarjan_inv adj u \<and> visited t \<subseteq> visited u"
proof -
  note T = tarjan_invD [OF inv] and I = search_invD [OF tarjan_invD(7) [OF inv], unfolded fr]
  have v: "v < length adj" "v \<in> set (tj_stack t)" using I(3,6) by auto
  have nodes: "node_low t v = unat (tn_lowlink (tj_state t ! v))" "map_option unat (tn_index (tj_state t ! v)) = Some (node_idx t v)"
    using v T(1) T(3) [OF v(1)] by (auto simp: node_low_def node_idx_def visited_def)
  show ?thesis
  proof (cases "node_low t v = node_idx t v")
    case True
    \<comment> \<open>the lowlink of the parent is below the index of its child already\<close>
    have "tarjan_step adj t v i rest = finish_root v (t\<lparr>tj_dfs := rest\<rparr>)"
    proof (cases rest)
      case (Cons q rest')
      obtain p j where q: "q = (p, j)" by force
      with Cons I(5,6,8) have "p \<in> set (tj_stack t)" "node_low t p \<le> node_idx t p" "node_idx t p < node_idx t v"
        by auto
      moreover from this I(3) T(1) have "node_low t p = unat (tn_lowlink (tj_state t ! p))"
        by (auto simp: node_low_def)
      ultimately show ?thesis
        using v i Cons q True nodes by (simp add: tarjan_step_def Let_def word_less_nat_alt)
    qed (use v i in \<open>simp add: tarjan_step_def Let_def\<close>)
    with tarjan_inv_root [OF inv fr i] True nodes(1) show ?thesis by auto
  next
    case False
    have "rest \<noteq> []"
      using search_inv_bottom [of adj "node_idx t" "node_low t" "emitted t" "tj_stack t" v i] T(7) fr False
      by auto
    then obtain p j rest' where rest: "rest = (p, j) # rest'" by (cases rest) auto
    then have p: "p < length adj" "p \<noteq> v" "p < length (tj_state t)" using I(3,5,6) T(1) by auto
    have np: "node_low t p = unat (tn_lowlink (tj_state t ! p))" using p by (simp add: node_low_def)
    let ?l = "tn_lowlink (tj_state t ! v)" and ?t = "t\<lparr>tj_dfs := rest\<rparr>"
    note retreat = search_inv_retreat [OF T(7) [unfolded fr rest] i False]
    show ?thesis
    proof (cases "?l < tn_lowlink (tj_state t ! p)")
      case True
      then have "tarjan_step adj t v i rest = Some (set_lowlink p ?l ?t)"
        using v i rest nodes np False p by (auto simp: tarjan_step_def Let_def finish_root_def)
      moreover have "tarjan_inv adj (set_lowlink p ?l ?t)"
        unfolding rest by (rule tarjan_inv_set_lowlink [OF inv p(1)], rule retreat) (use True nodes np in \<open>auto simp: word_less_nat_alt\<close>)
      ultimately show ?thesis by auto
    next
      case False
      then have "tarjan_step adj t v i rest = Some ?t"
        using v i rest nodes np \<open>node_low t v \<noteq> node_idx t v\<close> by (auto simp: tarjan_step_def Let_def finish_root_def)
      moreover have "tarjan_inv adj ?t"
        unfolding rest by (rule tarjan_inv_dfs [OF inv], rule retreat) (use False nodes np in \<open>auto simp: word_less_nat_alt\<close>)
      ultimately show ?thesis by auto
    qed
  qed
qed

lemma tarjan_loop_correct:
  assumes "tarjan_inv adj t" "graph_ok adj n" "n < 2 ^ 32"
  shows "\<exists>u. tarjan_loop adj t = Some u \<and> tarjan_inv adj u \<and> tj_dfs u = [] \<and> visited t \<subseteq> visited u"
  using assms
proof (induction adj t rule: tarjan_loop.induct)
  case (1 adj t)
  show ?case
  proof (cases "tj_dfs t")
    case Nil
    with "1.prems" show ?thesis by (simp add: tarjan_loop.simps)
  next
    case (Cons q rest)
    obtain v i where q: "q = (v, i)" by force
    then obtain u where u: "tarjan_step adj t v i rest = Some u" "tarjan_inv adj u" "visited t \<subseteq> visited u"
      using tarjan_step_edge [OF "1.prems"] tarjan_step_finish [OF "1.prems"(1)] Cons by blast
    with "1.IH" [OF Cons q [symmetric] u(1)] "1.prems" obtain u' where
      "tarjan_loop adj u = Some u'" "tarjan_inv adj u'" "tj_dfs u' = []" "visited u \<subseteq> visited u'"
      by auto
    with u Cons q show ?thesis
      by (subst tarjan_loop.simps) auto
  qed
qed

lemma tarjan_inv_stack_empty: "tarjan_inv adj t \<Longrightarrow> tj_dfs t = [] \<Longrightarrow> tj_stack t = []"
  using search_invD(7) [OF tarjan_invD(7), of adj t] unfolding owner_def
  by (cases "tj_stack t") auto

lemma tarjan_from_correct:
  assumes inv: "tarjan_inv adj t" "tj_dfs t = []" and ok: "graph_ok adj n" "n < 2 ^ 32" and s: "s < n"
  shows "\<exists>u. tarjan_from adj t s = Some u \<and> tarjan_inv adj u \<and> tj_dfs u = [] \<and> insert s (visited t) \<subseteq> visited u"
proof -
  note T = tarjan_invD [OF inv(1)]
  have n: "s < length adj" "length adj < 2 ^ 32" using ok s by (auto simp: graph_ok_def)
  show ?thesis
  proof (cases "tn_index (tj_state t ! s) = None")
    case True
    have "tarjan_inv adj (discover s (t\<lparr>tj_dfs := []\<rparr>))"
      using tarjan_inv_stack_empty [OF inv]
      by (intro tarjan_inv_discover [OF inv(1) n(1)]) (use True T(3) [OF n(1)] n inv(2) in auto)
    from tarjan_loop_correct [OF this ok] show ?thesis
      using True n T(1) by (auto simp: tarjan_from_def)
  next
    case False
    then show ?thesis using n T(1,3) inv by (auto simp: tarjan_from_def)
  qed
qed

lemma tarjan_starts_correct:
  assumes "tarjan_inv adj t" "tj_dfs t = []" "graph_ok adj n" "n < 2 ^ 32" "\<forall>s \<in> set ss. s < n"
  shows "\<exists>u. tarjan_starts adj ss t = Some u \<and> tarjan_inv adj u \<and> tj_dfs u = [] \<and> set ss \<union> visited t \<subseteq> visited u"
  using assms
proof (induction ss arbitrary: t)
  case (Cons s ss)
  from tarjan_from_correct [OF Cons.prems(1-4), of s] Cons.prems(5)
  obtain u where u: "tarjan_from adj t s = Some u" "tarjan_inv adj u" "tj_dfs u = []"
    "insert s (visited t) \<subseteq> visited u" by auto
  from Cons.IH [OF this(2,3) Cons.prems(3,4)] Cons.prems(5)
  obtain u' where "tarjan_starts adj ss u = Some u'" "tarjan_inv adj u'" "tj_dfs u' = []"
    "set ss \<union> visited u \<subseteq> visited u'" by auto
  with u show ?case by auto
qed simp

lemma tarjan_inv_init: "graph_ok adj n \<Longrightarrow> tarjan_inv adj (tarjan_init n)"
  unfolding tarjan_inv_def
  by (auto simp: tarjan_init_def graph_ok_def visited_def emitted_def sccs_ok_def search_inv_def)

section \<open>Correctness\<close>

lemma scc_order_perm: "mset (scc_order cs) = mset cs"
  by (simp add: scc_order_def)

lemma scc_order_sorted:
  "sorted_wrt (\<lambda>a b. length b < length a \<or> length a = length b \<and> hd a \<le> hd b) (scc_order cs)"
proof -
  have "sorted (map (\<lambda>c. (- int (length c), hd c)) (scc_order cs))"
    by (simp add: scc_order_def)
  then show ?thesis
    by (auto simp: sorted_map less_eq_prod_def elim!: sorted_wrt_mono_rel [rotated])
qed

lemma tarjan_scc_result:
  assumes ok: "graph_ok adj n" "n < 2 ^ 32"
  shows "\<exists>cs. tarjan_scc adj n = Some cs \<and> sccs_ok adj cs \<and> set (concat cs) = {..<n} \<and>
    sorted_wrt (\<lambda>a b. length b < length a \<or> length a = length b \<and> hd a \<le> hd b) cs"
proof -
  obtain u where u: "tarjan_starts adj [0..<n] (tarjan_init n) = Some u" "tarjan_inv adj u" "tj_dfs u = []"
    "{..<n} \<subseteq> visited u"
    using tarjan_starts_correct [OF tarjan_inv_init [OF ok(1)] _ ok, of "[0..<n]"]
    by (auto simp: tarjan_init_def atLeast0LessThan)
  have "emitted u = {..<n}"
    using u(4) tarjan_inv_visited [OF u(2)] tarjan_inv_stack_empty [OF u(2,3)] ok(1)
    by (auto simp: visited_def graph_ok_def)
  moreover have "mset (concat (scc_order (tj_sccs u))) = mset (concat (tj_sccs u))"
    by (simp only: mset_concat scc_order_perm mset_map flip: sum_mset_sum_list)
  moreover have "set (scc_order (tj_sccs u)) = set (tj_sccs u)"
    using scc_order_perm by (metis set_mset_mset)
  ultimately have "sccs_ok adj (scc_order (tj_sccs u))" "set (concat (scc_order (tj_sccs u))) = {..<n}"
    using tarjan_invD(6) [OF u(2)]
      mset_eq_imp_distinct_iff [of "concat (scc_order (tj_sccs u))" "concat (tj_sccs u)"]
    unfolding sccs_ok_def emitted_def by auto
  with u(1) scc_order_sorted show ?thesis
    by (auto simp: tarjan_scc_def)
qed

lemma sccs_ok_components:
  assumes "sccs_ok adj cs" "set (concat cs) = {..<n}"
  shows "set ` set cs = component_of adj ` {..<n}"
proof (intro equalityI subsetI)
  fix C assume "C \<in> set ` set cs"
  then obtain c v where c: "C = set c" "c \<in> set cs" "v \<in> set c" "set c = component_of adj v"
    using assms(1) unfolding sccs_ok_def by blast
  moreover from c(2,3) assms(2) have "v < n" by auto
  ultimately show "C \<in> component_of adj ` {..<n}" by blast
next
  fix C assume "C \<in> component_of adj ` {..<n}"
  then obtain v where "C = component_of adj v" "v < n" by auto
  then have v: "C = component_of adj v" "v \<in> set (concat cs)" using assms(2) by auto
  then obtain c w where "c \<in> set cs" "v \<in> set c" "set c = component_of adj w"
    using assms(1) unfolding sccs_ok_def by auto
  moreover from this have "component_of adj v = component_of adj w"
    using component_of_sym by blast
  ultimately show "C \<in> set ` set cs" using v(1) by blast
qed

text \<open>
  C38: \<open>tarjan_scc\<close> returns, on every well-formed graph of fewer than \<open>2 ^ 32\<close> vertices, exactly the
  strongly connected components of the graph (two vertices are in one component iff each reaches
  the other): every vertex in exactly one component, each component in ascending order, and the
  components from the largest to the smallest, equal sizes by smallest vertex.
\<close>

theorem tarjan_scc_correct:
  assumes "graph_ok adj n" "n < 2 ^ 32"
  shows "\<exists>cs. tarjan_scc adj n = Some cs \<and> set ` set cs = component_of adj ` {..<n} \<and>
    distinct (concat cs) \<and> (\<forall>c \<in> set cs. c \<noteq> [] \<and> sorted c) \<and>
    sorted_wrt (\<lambda>a b. length b < length a \<or> length a = length b \<and> hd a \<le> hd b) cs"
proof -
  obtain cs where cs: "tarjan_scc adj n = Some cs" "sccs_ok adj cs" "set (concat cs) = {..<n}"
    "sorted_wrt (\<lambda>a b. length b < length a \<or> length a = length b \<and> hd a \<le> hd b) cs"
    using tarjan_scc_result [OF assms] by blast
  moreover from cs(2) have "distinct (concat cs)" "\<forall>c \<in> set cs. c \<noteq> [] \<and> sorted c"
    unfolding sccs_ok_def by auto
  ultimately show ?thesis using sccs_ok_components [OF cs(2,3)] by (intro exI [of _ cs]) simp
qed

lemma tarjan_scc_correct_witness:
  "\<exists>cs. tarjan_scc [[1], [2], [0, 3], [4], [3]] 5 = Some cs \<and>
     set ` set cs = component_of [[1], [2], [0, 3], [4], [3]] ` {..<5}"
proof -
  have "graph_ok [[1], [2], [0, 3], [4], [3]] 5" by (simp add: graph_ok_def)
  then show ?thesis using tarjan_scc_correct [of "[[1], [2], [0, 3], [4], [3]]" 5] by auto
qed

end
