(* ===== verification/GraphCycles.thy ===== *)
theory GraphCycles
  imports GraphTarjan "HOL-Library.AList"
begin

text \<open>
  Cycle detection in the transfer graph (\<open>detect_cycles\<close> of \<open>src/crates/graph/src/cycles.rs\<close>): the
  transfers of a token are aggregated into a graph over wallets, and in each strongly connected
  component the cycles are enumerated by Johnson's algorithm, bounded in the length of a cycle and
  in the number of cycles per component.
  A time stamp is a number of nanoseconds; \<open>usize\<close> values are naturals (they count elements in
  memory). \<open>usize::MAX\<close> as "no position" is \<open>None\<close>.
\<close>

section \<open>Data\<close>

record transfer_edge =
  te_from_address :: string
  te_to_address :: string
  te_amount_raw :: "128 word"
  te_block_time :: int
  te_block_height :: "64 word"

record cycle =
  cy_vertices :: "string list"
  cy_per_edge_amounts_raw :: "128 word list"
  cy_block_time_span_minutes :: "64 word"

record cycle_config =
  max_cycle_length :: nat
  max_cycles_per_scc :: nat
  min_scc_size :: nat

definition default_cycle_config :: cycle_config where
  "default_cycle_config = \<lparr>max_cycle_length = 5, max_cycles_per_scc = 100, min_scc_size = 3\<rparr>"

record agg_edge =
  amount_raw_sum :: "128 word"
  min_block_time :: int
  max_block_time :: int

section \<open>From transfers to a graph\<close>

text \<open>
  The vertex table: \<open>addr_to_id\<close> and its inverse \<open>id_to_addr\<close>; the aggregated edges are a hash map,
  here an association list with one entry per key.
\<close>

type_synonym edge_map = "((nat \<times> nat) \<times> agg_edge) list"

record graph_build =
  addr_to_id :: "string \<Rightarrow> nat option"
  id_to_addr :: "string list"
  edge_table :: edge_map

definition get_or_insert :: "string \<Rightarrow> graph_build \<Rightarrow> nat \<times> graph_build" where
  "get_or_insert addr g =
     (case addr_to_id g addr of
        Some vid \<Rightarrow> (vid, g)
      | None \<Rightarrow>
          let vid = length (id_to_addr g)
          in (vid, g\<lparr>addr_to_id := (addr_to_id g)(addr := Some vid), id_to_addr := id_to_addr g @ [addr]\<rparr>))"

definition saturating_add128 :: "128 word \<Rightarrow> 128 word \<Rightarrow> 128 word" where
  "saturating_add128 a b = (if a + b < a then - 1 else a + b)"

definition add_transfer :: "transfer_edge \<Rightarrow> agg_edge \<Rightarrow> agg_edge" where
  "add_transfer te entry =
     \<lparr>amount_raw_sum = saturating_add128 (amount_raw_sum entry) (te_amount_raw te),
      min_block_time = (if te_block_time te < min_block_time entry then te_block_time te else min_block_time entry),
      max_block_time = (if te_block_time te > max_block_time entry then te_block_time te else max_block_time entry)\<rparr>"

definition ingest :: "graph_build \<Rightarrow> transfer_edge \<Rightarrow> graph_build" where
  "ingest g0 te =
     (let (from_id, g1) = get_or_insert (te_from_address te) g0;
          (to_id, g2) = get_or_insert (te_to_address te) g1
      in if from_id = to_id then g2
         else
           let entry = (case map_of (edge_table g2) (from_id, to_id) of
                 Some e \<Rightarrow> e
               | None \<Rightarrow> \<lparr>amount_raw_sum = 0, min_block_time = te_block_time te, max_block_time = te_block_time te\<rparr>)
           in g2\<lparr>edge_table := AList.update (from_id, to_id) (add_transfer te entry) (edge_table g2)\<rparr>)"

definition empty_build :: graph_build where
  "empty_build = \<lparr>addr_to_id = (\<lambda>_. None), id_to_addr = [], edge_table = []\<rparr>"

definition build_graph :: "transfer_edge list \<Rightarrow> graph_build" where
  "build_graph edges = foldl ingest empty_build edges"

text \<open>The adjacency lists, from the keys of the hash map in the order it yields them.\<close>

definition build_adj :: "nat \<Rightarrow> (nat \<times> nat) list \<Rightarrow> nat list list" where
  "build_adj v_count ks =
     map (\<lambda>neighbors. remdups_adj (sort neighbors))
       (foldl (\<lambda>adj (from_id, to_id). adj[from_id := adj ! from_id @ [to_id]]) (replicate v_count []) ks)"

section \<open>Johnson's algorithm\<close>

text \<open>What does not change during the search of one start vertex \<open>s\<close>.\<close>

record cycle_env =
  ce_s :: nat
  ce_scc :: "nat list"
  ce_scc_pos :: "nat option list"
  ce_adj :: "nat list list"
  ce_edges :: edge_map
  ce_addrs :: "string list"
  ce_cfg :: cycle_config

record johnson =
  jn_blocked :: "bool list"
  jn_blockers :: "nat list list"
  jn_detected :: "cycle list"

definition pos_at :: "nat option list \<Rightarrow> nat \<Rightarrow> nat option" where
  "pos_at scc_pos v = (if v < length scc_pos then scc_pos ! v else None)"

text \<open>The position of a vertex that the search for \<open>s\<close> may visit.\<close>

definition eligible :: "cycle_env \<Rightarrow> nat \<Rightarrow> nat option" where
  "eligible E w =
     (case pos_at (ce_scc_pos E) w of
        None \<Rightarrow> None
      | Some w_pos \<Rightarrow>
          if w_pos \<ge> length (ce_scc E) then None
          else if ce_scc E ! w_pos < ce_s E then None
          else Some w_pos)"

text \<open>
  \<open>build_cycle\<close>: the addresses and amounts along the ring, \<open>None\<close> when an address or an edge is
  missing, and the span of the edges' time stamps in whole minutes.
\<close>

fun ring_hops :: "nat list \<Rightarrow> nat \<Rightarrow> edge_map \<Rightarrow> string list \<Rightarrow> (string \<times> agg_edge) list option" where
  "ring_hops [] s es addrs = Some []"
| "ring_hops (v # path) s es addrs =
     (if v < length addrs then
        case map_of es (v, case path of next # _ \<Rightarrow> next | [] \<Rightarrow> s) of
          None \<Rightarrow> None
        | Some e \<Rightarrow> map_option (\<lambda>hops. (addrs ! v, e) # hops) (ring_hops path s es addrs)
      else None)"

definition min_time :: "int option \<Rightarrow> int \<Rightarrow> int option" where
  "min_time acc t = (case acc of None \<Rightarrow> Some t | Some u \<Rightarrow> if t < u then Some t else Some u)"

definition max_time :: "int option \<Rightarrow> int \<Rightarrow> int option" where
  "max_time acc t = (case acc of None \<Rightarrow> Some t | Some u \<Rightarrow> if t > u then Some t else Some u)"

definition span_minutes :: "int option \<Rightarrow> int option \<Rightarrow> 64 word" where
  "span_minutes lo hi =
     (case (lo, hi) of
        (Some a, Some b) \<Rightarrow> word_of_int (max 0 (b - a) div 1000000000) div 60
      | _ \<Rightarrow> 0)"

definition build_cycle :: "nat list \<Rightarrow> nat \<Rightarrow> edge_map \<Rightarrow> string list \<Rightarrow> cycle option" where
  "build_cycle path s es addrs =
     map_option (\<lambda>hops.
       \<lparr>cy_vertices = map fst hops,
        cy_per_edge_amounts_raw = map (\<lambda>(_, e). amount_raw_sum e) hops,
        cy_block_time_span_minutes =
          span_minutes (foldl (\<lambda>acc (_, e). min_time acc (min_block_time e)) None hops)
                       (foldl (\<lambda>acc (_, e). max_time acc (max_block_time e)) None hops)\<rparr>)
       (ring_hops path s es addrs)"

text \<open>
  \<open>unblock\<close> recurses into the drained blocker list of a vertex before it goes on with the list it
  came from: a work list, taken from the front.
\<close>

lemma blocked_update_less:
  "w < length blocked \<Longrightarrow> blocked ! w \<Longrightarrow>
     length (List.filter (\<lambda>b. b) (blocked[w := False])) < length (List.filter (\<lambda>b. b) blocked)"
  by (rule filter_update_less) auto

function unblock_all :: "nat list \<Rightarrow> bool list \<Rightarrow> nat list list \<Rightarrow> bool list \<times> nat list list" where
  "unblock_all [] blocked blockers = (blocked, blockers)"
| "unblock_all (w # ws) blocked blockers =
     (if w < length blocked \<and> blocked ! w
      then unblock_all (blockers ! w @ ws) (blocked[w := False]) (blockers[w := []])
      else unblock_all ws blocked blockers)"
  by pat_completeness auto
termination
  by (relation "measures [\<lambda>(ws, blocked, blockers). length (List.filter (\<lambda>b. b) blocked),
                          \<lambda>(ws, blocked, blockers). length ws]")
     (auto simp: blocked_update_less)

definition unblock :: "nat option \<Rightarrow> bool list \<Rightarrow> nat list list \<Rightarrow> bool list \<times> nat list list" where
  "unblock u_pos blocked blockers =
     (case u_pos of
        None \<Rightarrow> (blocked, blockers)
      | Some u \<Rightarrow>
          if u \<ge> length blocked then (blocked, blockers)
          else unblock_all (blockers ! u) (blocked[u := False]) (blockers[u := []]))"

definition add_blockers :: "cycle_env \<Rightarrow> nat option \<Rightarrow> nat list \<Rightarrow> nat list list \<Rightarrow> nat list list" where
  "add_blockers E v_pos ws blockers =
     foldl (\<lambda>bs w.
       case eligible E w of
         None \<Rightarrow> bs
       | Some w_pos \<Rightarrow>
           (case v_pos of
              None \<Rightarrow> bs
            | Some p \<Rightarrow>
                if p < length bs \<and> p \<notin> set (bs ! w_pos) then bs[w_pos := bs ! w_pos @ [p]] else bs))
       blockers ws"

definition mark_blocked :: "nat option \<Rightarrow> johnson \<Rightarrow> johnson" where
  "mark_blocked v_pos st =
     (case v_pos of
        None \<Rightarrow> st
      | Some p \<Rightarrow> if p < length (jn_blocked st) then st\<lparr>jn_blocked := (jn_blocked st)[p := True]\<rparr> else st)"

text \<open>
  \<open>circuit\<close>, its loop over the neighbours and the body of the loop. The shared \<open>path\<close> is pushed at
  the entry of \<open>circuit\<close> and popped at its exit, so it is an argument here; \<open>path @ [v]\<close> is the path in
  the loop.
\<close>

function (sequential) circuit :: "cycle_env \<Rightarrow> nat list \<Rightarrow> nat \<Rightarrow> johnson \<Rightarrow> bool \<times> johnson"
  and circuit_visit :: "cycle_env \<Rightarrow> nat list \<Rightarrow> nat \<Rightarrow> nat \<Rightarrow> bool \<Rightarrow> johnson \<Rightarrow> bool \<times> johnson"
  and circuit_edges :: "cycle_env \<Rightarrow> nat list \<Rightarrow> nat list \<Rightarrow> bool \<Rightarrow> johnson \<Rightarrow> bool \<times> johnson" where
  "circuit E path v st =
     (if length path \<ge> max_cycle_length (ce_cfg E) then (False, st)
      else if length (jn_detected st) \<ge> max_cycles_per_scc (ce_cfg E) then (False, st)
      else
        let v_pos = pos_at (ce_scc_pos E) v;
            (found_cycle, st2) = circuit_edges E (path @ [v]) (ce_adj E ! v) False (mark_blocked v_pos st)
        in if found_cycle then
             let (blocked, blockers) = unblock v_pos (jn_blocked st2) (jn_blockers st2)
             in (True, st2\<lparr>jn_blocked := blocked, jn_blockers := blockers\<rparr>)
           else
             (False, st2\<lparr>jn_blockers := add_blockers E v_pos (ce_adj E ! v) (jn_blockers st2)\<rparr>))"
| "circuit_visit E path w w_pos found_cycle st =
     (if w = ce_s E then
        (True,
         if length path \<ge> 2 then
           case build_cycle path (ce_s E) (ce_edges E) (ce_addrs E) of
             Some cycle \<Rightarrow> st\<lparr>jn_detected := jn_detected st @ [cycle]\<rparr>
           | None \<Rightarrow> st
         else st)
      else if w_pos < length (jn_blocked st) \<and> \<not> jn_blocked st ! w_pos then
        let (found, st1) = circuit E path w st in (found_cycle \<or> found, st1)
      else (found_cycle, st))"
| "circuit_edges E path [] found_cycle st = (found_cycle, st)"
| "circuit_edges E path (w # ws) found_cycle st =
     (case eligible E w of
        None \<Rightarrow> circuit_edges E path ws found_cycle st
      | Some w_pos \<Rightarrow>
          let (found_cycle', st') = circuit_visit E path w w_pos found_cycle st
          in if length (jn_detected st') \<ge> max_cycles_per_scc (ce_cfg E) then (found_cycle', st')
             else circuit_edges E path ws found_cycle' st')"
  by pat_completeness auto
termination
  by (relation "measures
      [case_sum (\<lambda>(E, path, _). max_cycle_length (ce_cfg E) - length path)
         (case_sum (\<lambda>(E, path, _). max_cycle_length (ce_cfg E) - length path)
                   (\<lambda>(E, path, _). max_cycle_length (ce_cfg E) - length path)),
       case_sum (\<lambda>_. 0) (case_sum (\<lambda>_. 1) (\<lambda>(E, path, ws, _). 2 + length ws))]")
     auto

declare circuit.simps [simp del] circuit_visit.simps [simp del] circuit_edges.simps [simp del]

text \<open>The positions of the component's vertices (\<open>scc_pos\<close>).\<close>

definition scc_positions :: "nat list \<Rightarrow> nat option list" where
  "scc_positions scc =
     foldl (\<lambda>ps (pos, v). ps[v := Some pos]) (replicate (Max (insert 0 (set scc)) + 1) None)
       (enumerate 0 scc)"

definition reset_from :: "nat \<Rightarrow> johnson \<Rightarrow> johnson" where
  "reset_from s_pos st =
     st\<lparr>jn_blocked := foldl (\<lambda>bs i. bs[i := False]) (jn_blocked st) [s_pos..<length (jn_blocked st)],
        jn_blockers := foldl (\<lambda>bs i. bs[i := []]) (jn_blockers st) [s_pos..<length (jn_blockers st)]\<rparr>"

fun enumerate_from :: "cycle_env \<Rightarrow> nat list \<Rightarrow> johnson \<Rightarrow> johnson" where
  "enumerate_from E [] st = st"
| "enumerate_from E (s_pos # rest) st =
     (let s = ce_scc E ! s_pos;
          st1 = snd (circuit (E\<lparr>ce_s := s\<rparr>) [] s (reset_from s_pos st))
      in if length (jn_detected st1) \<ge> max_cycles_per_scc (ce_cfg E) then st1
         else enumerate_from E rest st1)"

definition enumerate_cycles_in_scc :: "nat list \<Rightarrow> nat list list \<Rightarrow> edge_map \<Rightarrow> string list
    \<Rightarrow> cycle_config \<Rightarrow> cycle list" where
  "enumerate_cycles_in_scc scc adj es addrs cfg =
     (let n = length scc;
          E = \<lparr>ce_s = 0, ce_scc = scc, ce_scc_pos = scc_positions scc, ce_adj = adj,
               ce_edges = es, ce_addrs = addrs, ce_cfg = cfg\<rparr>
      in jn_detected (enumerate_from E [0..<n]
           \<lparr>jn_blocked = replicate n False, jn_blockers = replicate n [], jn_detected = []\<rparr>))"

section \<open>The entry point\<close>

text \<open>
  The order in which the hash map yields its keys is an argument, \<open>key_order\<close>. The result is \<open>None\<close>
  only if \<open>tarjan_scc\<close> panics.
\<close>

definition detect_cycles :: "((nat \<times> nat) list \<Rightarrow> (nat \<times> nat) list) \<Rightarrow> transfer_edge list
    \<Rightarrow> cycle_config \<Rightarrow> cycle list option" where
  "detect_cycles key_order edges cfg =
     (if edges = [] then Some []
      else
        let g = build_graph edges;
            v_count = length (id_to_addr g)
        in if v_count = 0 then Some []
           else
             let adj = build_adj v_count (key_order (map fst (edge_table g)))
             in map_option (\<lambda>sccs.
                  concat (map (\<lambda>scc.
                    if length scc < min_scc_size cfg then []
                    else enumerate_cycles_in_scc scc adj (edge_table g) (id_to_addr g) cfg) sccs))
                  (tarjan_scc adj v_count))"

end
