(* ===== verification/GraphBlocking.thy ===== *)
theory GraphBlocking
  imports GraphJohnson
begin

section \<open>Blocking\<close>

definition positions :: "cycle_env \<Rightarrow> nat set" where
  "positions E = {p. p < length (ce_scc E) \<and> ce_s E \<le> ce_scc E ! p}"

definition blocked_set :: "cycle_env \<Rightarrow> johnson \<Rightarrow> nat set" where
  "blocked_set E st = {p \<in> positions E. jn_blocked st ! p}"

definition stack_positions :: "cycle_env \<Rightarrow> nat list \<Rightarrow> nat set" where
  "stack_positions E path = {p \<in> positions E. ce_scc E ! p \<in> set path}"

text \<open>
  The invariant: vertices of the path are blocked; an unblocked vertex has no waiting predecessors;
  a blocked vertex off the path has only blocked successors, does not close a cycle, and waits at
  each of its successors.
\<close>

definition block_inv :: "cycle_env \<Rightarrow> nat set \<Rightarrow> johnson \<Rightarrow> bool" where
  "block_inv E K st \<longleftrightarrow>
     length (jn_blocked st) = length (ce_scc E) \<and> length (jn_blockers st) = length (ce_scc E) \<and>
     (\<forall>p \<in> positions E. set (jn_blockers st ! p) \<subseteq> positions E) \<and>
     (\<forall>p \<in> positions E. \<not> jn_blocked st ! p \<longrightarrow> jn_blockers st ! p = []) \<and>
     K \<subseteq> blocked_set E st \<and>
     (\<forall>p \<in> blocked_set E st - K. \<forall>w \<in> set (ce_adj E ! (ce_scc E ! p)). \<forall>q. eligible E w = Some q \<longrightarrow>
        w \<noteq> ce_s E \<and> q \<in> blocked_set E st \<and> p \<in> set (jn_blockers st ! q))"

text \<open>A search keeps what was blocked, and registers nothing of it as waiting anew.\<close>

definition block_grow :: "cycle_env \<Rightarrow> johnson \<Rightarrow> johnson \<Rightarrow> bool" where
  "block_grow E st st' \<longleftrightarrow>
     blocked_set E st \<subseteq> blocked_set E st' \<and>
     (\<forall>p \<in> positions E. set (jn_blockers st' ! p) \<subseteq> set (jn_blockers st ! p) \<union> - blocked_set E st)"

lemma block_grow_refl [simp]: "block_grow E st st"
  by (auto simp: block_grow_def)

lemma block_grow_trans: "block_grow E a b \<Longrightarrow> block_grow E b c \<Longrightarrow> block_grow E a c"
  unfolding block_grow_def by blast

lemma eligible_positions: "env_ok E \<Longrightarrow> eligible E w = Some p \<Longrightarrow> p \<in> positions E \<and> ce_scc E ! p = w"
  by (auto simp: eligible_iff positions_def searched_def)

lemma eligible_at: "env_ok E \<Longrightarrow> p \<in> positions E \<Longrightarrow> eligible E (ce_scc E ! p) = Some p"
  by (auto simp: eligible_iff positions_def searched_def)

lemma block_invD:
  assumes "block_inv E K st"
  shows "length (jn_blocked st) = length (ce_scc E)" "length (jn_blockers st) = length (ce_scc E)"
    "\<And>p. p \<in> positions E \<Longrightarrow> set (jn_blockers st ! p) \<subseteq> positions E"
    "\<And>p. p \<in> positions E \<Longrightarrow> \<not> jn_blocked st ! p \<Longrightarrow> jn_blockers st ! p = []"
    "K \<subseteq> blocked_set E st"
    "\<And>p w q. p \<in> blocked_set E st \<Longrightarrow> p \<notin> K \<Longrightarrow> w \<in> set (ce_adj E ! (ce_scc E ! p)) \<Longrightarrow> eligible E w = Some q \<Longrightarrow>
        w \<noteq> ce_s E \<and> q \<in> blocked_set E st \<and> p \<in> set (jn_blockers st ! q)"
  using assms unfolding block_inv_def by (simp_all add: Diff_iff)

lemma block_inv_detected:
  "jn_blocked st' = jn_blocked st \<Longrightarrow> jn_blockers st' = jn_blockers st \<Longrightarrow>
     block_inv E K st' = block_inv E K st \<and> block_grow E st st'' = block_grow E st' st'' \<and>
     block_grow E st'' st' = block_grow E st'' st \<and> blocked_set E st' = blocked_set E st"
  by (simp add: block_inv_def block_grow_def blocked_set_def)

text \<open>From a blocked vertex off the path no way to \<open>s\<close> avoids the path.\<close>

lemma blocked_no_exit:
  assumes ok: "env_ok E" and inv: "block_inv E (stack_positions E path) st"
  shows "p \<in> blocked_set E st \<Longrightarrow> ce_scc E ! p = w \<Longrightarrow> walk E (w # q) \<Longrightarrow> set (w # q) \<subseteq> searched E \<Longrightarrow>
     set (w # q) \<inter> set path = {} \<Longrightarrow> ce_s E \<in> searched E \<Longrightarrow> ce_s E \<notin> set (ce_adj E ! last (w # q))"
proof (induction q arbitrary: w p)
  case Nil
  then have "p \<notin> stack_positions E path" by (auto simp: stack_positions_def)
  moreover obtain k where "eligible E (ce_s E) = Some k"
    using Nil.prems eligible_None [OF ok] by fastforce
  ultimately show ?case using block_invD(6) [OF inv Nil.prems(1), of "ce_s E" k] Nil.prems(2) by auto
next
  case (Cons x q)
  then have "p \<notin> stack_positions E path" by (auto simp: stack_positions_def)
  moreover obtain k where k: "eligible E x = Some k"
    using Cons.prems eligible_None [OF ok] by fastforce
  moreover have "x \<in> set (ce_adj E ! (ce_scc E ! p))" using Cons.prems by auto
  ultimately have "k \<in> blocked_set E st"
    using block_invD(6) [OF inv Cons.prems(1), of x k] by auto
  with Cons.IH [of k x] Cons.prems eligible_positions [OF ok k] show ?case by auto
qed

section \<open>Unblocking\<close>

text \<open>The work list unblocks a set \<open>U\<close> that is closed under the blocker lists, and no more than it must.\<close>

definition confined :: "nat list \<Rightarrow> nat list list \<Rightarrow> nat \<Rightarrow> nat set \<Rightarrow> bool" where
  "confined ws Bl n U \<longleftrightarrow>
     (\<forall>X. set ws \<inter> X = {} \<longrightarrow> (\<forall>q < n. q \<notin> X \<longrightarrow> set (Bl ! q) \<inter> X = {}) \<longrightarrow> U \<inter> X = {})"

definition unblocks :: "nat list \<Rightarrow> bool list \<Rightarrow> nat list list \<Rightarrow> nat set \<Rightarrow> bool list \<times> nat list list \<Rightarrow> bool" where
  "unblocks ws bl Bl U r \<longleftrightarrow>
     length (fst r) = length bl \<and> length (snd r) = length Bl \<and>
     (\<forall>p < length bl. fst r ! p = (bl ! p \<and> p \<notin> U)) \<and>
     (\<forall>p < length bl. snd r ! p = (if p \<in> U then [] else Bl ! p)) \<and>
     U \<subseteq> {p. p < length bl \<and> bl ! p} \<and>
     (\<forall>p \<in> set ws. p < length bl \<and> bl ! p \<longrightarrow> p \<in> U) \<and>
     (\<forall>q \<in> U. \<forall>p \<in> set (Bl ! q). p < length bl \<and> bl ! p \<longrightarrow> p \<in> U) \<and>
     confined ws Bl (length bl) U"

lemma confinedD:
  "confined ws Bl n U \<Longrightarrow> set ws \<inter> X = {} \<Longrightarrow> (\<And>q. q < n \<Longrightarrow> q \<notin> X \<Longrightarrow> set (Bl ! q) \<inter> X = {}) \<Longrightarrow> U \<inter> X = {}"
  unfolding confined_def by blast

lemma unblocksD:
  assumes "unblocks ws bl Bl U r"
  shows "length (fst r) = length bl" "length (snd r) = length Bl"
    "\<And>p. p < length bl \<Longrightarrow> fst r ! p = (bl ! p \<and> p \<notin> U)"
    "\<And>p. p < length bl \<Longrightarrow> snd r ! p = (if p \<in> U then [] else Bl ! p)"
    "U \<subseteq> {p. p < length bl \<and> bl ! p}"
    "\<And>p. p \<in> set ws \<Longrightarrow> p < length bl \<Longrightarrow> bl ! p \<Longrightarrow> p \<in> U"
    "\<And>p q. q \<in> U \<Longrightarrow> p \<in> set (Bl ! q) \<Longrightarrow> p < length bl \<Longrightarrow> bl ! p \<Longrightarrow> p \<in> U"
    "confined ws Bl (length bl) U"
  using assms unfolding unblocks_def by simp_all

lemma unblock_all_result:
  "length Bl = length bl \<Longrightarrow> \<exists>U. unblocks ws bl Bl U (unblock_all ws bl Bl)"
proof (induction ws bl Bl rule: unblock_all.induct)
  case (1 bl Bl)
  then show ?case by (intro exI [of _ "{}"]) (simp add: unblocks_def confined_def)
next
  case (2 w ws bl Bl)
  show ?case
  proof (cases "w < length bl \<and> bl ! w")
    case True
    with 2 obtain U where U: "unblocks (Bl ! w @ ws) (bl[w := False]) (Bl[w := []]) U
        (unblock_all (Bl ! w @ ws) (bl[w := False]) (Bl[w := []]))" by auto
    note D = unblocksD [OF U]
    have "w \<notin> U" using D(5) True by auto
    have "unblocks (w # ws) bl Bl (insert w U) (unblock_all (w # ws) bl Bl)"
      unfolding unblocks_def
    proof (intro conjI allI impI ballI)
      let ?r = "unblock_all (w # ws) bl Bl"
      show "length (fst ?r) = length bl" "length (snd ?r) = length Bl"
        using D(1,2) True by simp_all
      show "fst ?r ! p = (bl ! p \<and> p \<notin> insert w U)" if "p < length bl" for p
        using D(3) [of p] True that by (cases "p = w") simp_all
      show "snd ?r ! p = (if p \<in> insert w U then [] else Bl ! p)" if "p < length bl" for p
        using D(4) [of p] True that 2(3) by (cases "p = w") simp_all
      show "insert w U \<subseteq> {p. p < length bl \<and> bl ! p}"
      proof
        fix p assume p: "p \<in> insert w U"
        show "p \<in> {p. p < length bl \<and> bl ! p}"
        proof (cases "p = w")
          case False
          with p D(5) have "p < length bl \<and> bl[w := False] ! p" by auto
          with False show ?thesis by simp
        qed (use True in simp)
      qed
      show "p \<in> insert w U" if "p \<in> set (w # ws)" "p < length bl \<and> bl ! p" for p
        using D(6) [of p] that by (cases "p = w") simp_all
      show "p \<in> insert w U" if "q \<in> insert w U" "p \<in> set (Bl ! q)" "p < length bl \<and> bl ! p" for p q
      proof (cases "p = w")
        case False
        then have p: "p < length (bl[w := False])" "bl[w := False] ! p" using that by simp_all
        show ?thesis
        proof (cases "q = w")
          case True
          with D(6) [OF _ p] that show ?thesis by simp
        next
          case False
          with D(7) [OF _ _ p, of q] that show ?thesis by simp
        qed
      qed simp
      show "confined (w # ws) Bl (length bl) (insert w U)"
        unfolding confined_def
      proof (intro allI impI)
        fix X assume X: "set (w # ws) \<inter> X = {}" "\<forall>q < length bl. q \<notin> X \<longrightarrow> set (Bl ! q) \<inter> X = {}"
        then have "w \<notin> X" "set (Bl ! w @ ws) \<inter> X = {}" using True by auto
        moreover have "set (Bl[w := []] ! q) \<inter> X = {}" if "q < length (bl[w := False])" "q \<notin> X" for q
          using X(2) that 2(3) by (cases "q = w") simp_all
        ultimately show "insert w U \<inter> X = {}"
          using confinedD [OF D(8), of X] by simp
      qed
    qed
    then show ?thesis by blast
  next
    case False
    with 2 obtain U where U: "unblocks ws bl Bl U (unblock_all ws bl Bl)" by auto
    note D = unblocksD [OF U]
    have r: "unblock_all (w # ws) bl Bl = unblock_all ws bl Bl" using False by auto
    have "unblocks (w # ws) bl Bl U (unblock_all (w # ws) bl Bl)"
      unfolding unblocks_def r
    proof (intro conjI allI impI ballI)
      show "p \<in> U" if "p \<in> set (w # ws)" "p < length bl \<and> bl ! p" for p
        using D(6) False that by (cases "p = w") simp_all
      show "confined (w # ws) Bl (length bl) U"
        unfolding confined_def
      proof (intro allI impI)
        fix X assume "set (w # ws) \<inter> X = {}" "\<forall>q < length bl. q \<notin> X \<longrightarrow> set (Bl ! q) \<inter> X = {}"
        then show "U \<inter> X = {}" by (intro confinedD [OF D(8)]) auto
      qed
    qed (use D(1-5,7) in simp_all)
    then show ?thesis by blast
  qed
qed

text \<open>The end of a vertex that closed a cycle: it is unblocked, with all that waited for it.\<close>

lemma block_inv_found:
  assumes inv0: "block_inv E K st0" and vp: "vp \<in> positions E" "vp \<notin> blocked_set E st0"
    and inv: "block_inv E (insert vp K) st" and grow: "block_grow E st0 st"
    and r: "unblock (Some vp) (jn_blocked st) (jn_blockers st) = (bl, Bl)"
    and st': "jn_blocked st' = bl" "jn_blockers st' = Bl"
  shows "block_inv E K st' \<and> block_grow E st0 st'"
proof -
  let ?bl = "jn_blocked st" and ?Bl = "jn_blockers st" and ?n = "length (ce_scc E)"
  note I0 = block_invD [OF inv0] and I = block_invD [OF inv]
  have n: "p < ?n" if "p \<in> positions E" for p using that by (simp add: positions_def)
  have r': "unblock_all (?Bl ! vp) (?bl[vp := False]) (?Bl[vp := []]) = (bl, Bl)"
    using r n [OF vp(1)] I(1) by (simp add: unblock_def)
  obtain U where U: "unblocks (?Bl ! vp) (?bl[vp := False]) (?Bl[vp := []]) U (bl, Bl)"
    using unblock_all_result [of "?Bl[vp := []]" "?bl[vp := False]" "?Bl ! vp"] I(1,2) r' by auto
  note D = unblocksD [OF U, simplified]
  define V where "V = insert vp U"
  have bl: "bl ! p = (?bl ! p \<and> p \<notin> V)" if "p < ?n" for p
    using D(3) [of p] that I(1) by (cases "p = vp") (simp_all add: V_def)
  have Bl: "Bl ! p = (if p \<in> V then [] else ?Bl ! p)" if "p < ?n" for p
    using D(4) [of p] that I(1,2) by (cases "p = vp") (simp_all add: V_def)
  have closed: "p \<in> V" if "q \<in> V" "p \<in> set (?Bl ! q)" "p < ?n" "?bl ! p" for p q
  proof (cases "p = vp")
    case False
    then have p: "p < length ?bl" "?bl[vp := False] ! p" using that I(1) by simp_all
    show ?thesis
    proof (cases "q = vp")
      case True
      with D(6) [OF _ p] that show ?thesis by (simp add: V_def)
    next
      case False
      with D(7) [OF _ _ p, of q] that show ?thesis by (simp add: V_def)
    qed
  qed (simp add: V_def)
  define X where "X = blocked_set E st0 \<union> - positions E"
  have old: "set (?Bl ! q) \<inter> X = {}" if "q \<notin> X" for q
  proof -
    from that have q: "q \<in> positions E" "q \<notin> blocked_set E st0" by (auto simp: X_def)
    then have "jn_blockers st0 ! q = []" using I0(4) by (simp add: blocked_set_def)
    moreover have "set (?Bl ! q) \<subseteq> set (jn_blockers st0 ! q) \<union> - blocked_set E st0"
      using grow q(1) unfolding block_grow_def by blast
    ultimately have "set (?Bl ! q) \<subseteq> - blocked_set E st0" by simp
    with I(3) [OF q(1)] show ?thesis by (auto simp: X_def)
  qed
  have "vp \<notin> X" using vp by (simp add: X_def)
  have "U \<inter> X = {}"
  proof (rule confinedD [OF D(8)])
    show "set (?Bl ! vp) \<inter> X = {}" by (rule old) fact
    show "set (?Bl[vp := []] ! q) \<inter> X = {}" if "q < length ?bl" "q \<notin> X" for q
      using old [OF that(2)] that(1) I(1,2) by (cases "q = vp") simp_all
  qed
  then have V: "V \<inter> blocked_set E st0 = {}" using vp by (auto simp: V_def X_def)
  have b3: "blocked_set E st' = blocked_set E st - V"
    using bl n st' by (auto simp: blocked_set_def)
  have old_sub: "blocked_set E st0 \<subseteq> blocked_set E st'"
    using V grow b3 by (auto simp: block_grow_def)
  have "block_inv E K st'"
    unfolding block_inv_def
  proof (intro conjI ballI allI impI)
    show "length (jn_blocked st') = ?n" "length (jn_blockers st') = ?n"
      using D(1,2) I(1,2) st' by simp_all
    show "set (jn_blockers st' ! p) \<subseteq> positions E" if "p \<in> positions E" for p
      using Bl [OF n [OF that]] I(3) [OF that] st' by simp
    show "jn_blockers st' ! p = []" if "p \<in> positions E" "\<not> jn_blocked st' ! p" for p
      using Bl [OF n [OF that(1)]] bl [OF n [OF that(1)]] I(4) [OF that(1)] that(2) st' by auto
    show "K \<subseteq> blocked_set E st'" using I0(5) old_sub by blast
    fix p w q assume p: "p \<in> blocked_set E st' - K" and w: "w \<in> set (ce_adj E ! (ce_scc E ! p))"
      and q: "eligible E w = Some q"
    from p b3 have p2: "p \<in> blocked_set E st" "p \<notin> insert vp K" "p \<notin> V" by (auto simp: V_def)
    from I(6) [OF p2(1,2) w q] have J: "w \<noteq> ce_s E" "q \<in> blocked_set E st" "p \<in> set (?Bl ! q)" by auto
    have "p < ?n" "?bl ! p" using p2(1) n by (auto simp: blocked_set_def)
    with closed [of q p] J p2(3) have "q \<notin> V" by auto
    moreover have "q < ?n" using J(2) n by (auto simp: blocked_set_def)
    ultimately show "w \<noteq> ce_s E" "q \<in> blocked_set E st'" "p \<in> set (jn_blockers st' ! q)"
      using J b3 Bl [of q] st' by simp_all
  qed
  moreover have "block_grow E st0 st'"
    unfolding block_grow_def
  proof (intro conjI ballI)
    show "set (jn_blockers st' ! p) \<subseteq> set (jn_blockers st0 ! p) \<union> - blocked_set E st0" if "p \<in> positions E" for p
      using Bl [OF n [OF that]] grow that st' by (auto simp: block_grow_def)
  qed (rule old_sub)
  ultimately show ?thesis by blast
qed

text \<open>The end of a vertex that closed none: it waits at all its successors.\<close>

lemma add_blockers_result:
  assumes "env_ok E" "length Bl = length (ce_scc E)" "vp < length Bl"
  shows "length (add_blockers E (Some vp) ws Bl) = length Bl \<and>
    (\<forall>q < length Bl. set (add_blockers E (Some vp) ws Bl ! q) =
       set (Bl ! q) \<union> (if \<exists>w \<in> set ws. eligible E w = Some q then {vp} else {}))"
  using assms(2,3)
proof (induction ws arbitrary: Bl)
  case (Cons w ws)
  show ?case
  proof (cases "eligible E w")
    case None
    with Cons show ?thesis by (simp add: add_blockers_def)
  next
    case (Some k)
    then have k: "k < length Bl" using Cons.prems eligible_iff [OF assms(1)] by simp
    define Bl1 where "Bl1 = (if vp \<notin> set (Bl ! k) then Bl[k := Bl ! k @ [vp]] else Bl)"
    have step: "add_blockers E (Some vp) (w # ws) Bl = add_blockers E (Some vp) ws Bl1"
      using Some Cons.prems by (simp add: add_blockers_def Bl1_def)
    have len: "length Bl1 = length Bl" by (simp add: Bl1_def)
    have b1: "set (Bl1 ! q) = set (Bl ! q) \<union> (if q = k then {vp} else {})" if "q < length Bl" for q
      using k by (auto simp: Bl1_def nth_list_update)
    from Cons.IH [of Bl1] Cons.prems len show ?thesis
      unfolding step using b1 Some by auto
  qed
qed (simp add: add_blockers_def)

lemma block_inv_not_found:
  assumes ok: "env_ok E" and inv0: "block_inv E K st0" and vp: "vp \<in> positions E" "vp \<notin> blocked_set E st0"
    and inv: "block_inv E (insert vp K) st" and grow: "block_grow E st0 st"
    and succ: "\<forall>w \<in> set (ce_adj E ! (ce_scc E ! vp)). \<forall>q. eligible E w = Some q \<longrightarrow> w \<noteq> ce_s E \<and> q \<in> blocked_set E st"
    and st': "jn_blocked st' = jn_blocked st"
      "jn_blockers st' = add_blockers E (Some vp) (ce_adj E ! (ce_scc E ! vp)) (jn_blockers st)"
  shows "block_inv E K st' \<and> block_grow E st0 st' \<and> vp \<in> blocked_set E st'"
proof -
  let ?n = "length (ce_scc E)"
  note I0 = block_invD [OF inv0] and I = block_invD [OF inv]
  have n: "p < ?n" if "p \<in> positions E" for p using that by (simp add: positions_def)
  have b: "blocked_set E st' = blocked_set E st" using st' by (simp add: blocked_set_def)
  have Bl: "length (jn_blockers st') = ?n"
    "\<And>q. q < ?n \<Longrightarrow> set (jn_blockers st' ! q) = set (jn_blockers st ! q) \<union>
        (if \<exists>w \<in> set (ce_adj E ! (ce_scc E ! vp)). eligible E w = Some q then {vp} else {})"
    using add_blockers_result [OF ok, of "jn_blockers st" vp] I(2) n [OF vp(1)] st'(2) by auto
  have "block_inv E K st'"
    unfolding block_inv_def
  proof (intro conjI ballI allI impI)
    show "length (jn_blocked st') = ?n" "length (jn_blockers st') = ?n" using I(1) Bl st' by simp_all
    show "set (jn_blockers st' ! p) \<subseteq> positions E" if "p \<in> positions E" for p
      using Bl(2) [OF n [OF that]] I(3) [OF that] vp(1) by (simp split: if_splits)
    show "jn_blockers st' ! p = []" if p: "p \<in> positions E" "\<not> jn_blocked st' ! p" for p
    proof -
      have "p \<notin> blocked_set E st" using p(2) st' by (simp add: blocked_set_def)
      then have "\<not> (\<exists>w \<in> set (ce_adj E ! (ce_scc E ! vp)). eligible E w = Some p)" using succ by auto
      with Bl(2) [OF n [OF p(1)]] I(4) [OF p(1)] p(2) st' show ?thesis by auto
    qed
    show "K \<subseteq> blocked_set E st'" using I(5) b by auto
    fix p w q assume p: "p \<in> blocked_set E st' - K" and w: "w \<in> set (ce_adj E ! (ce_scc E ! p))"
      and q: "eligible E w = Some q"
    have qn: "q < ?n" using q eligible_iff [OF ok] by simp
    have "w \<noteq> ce_s E \<and> q \<in> blocked_set E st \<and> p \<in> set (jn_blockers st' ! q)"
    proof (cases "p = vp")
      case True
      with succ w q Bl(2) [OF qn] show ?thesis by auto
    next
      case False
      with I(6) [of p w q] p w q b Bl(2) [OF qn] show ?thesis by auto
    qed
    then show "w \<noteq> ce_s E" "q \<in> blocked_set E st'" "p \<in> set (jn_blockers st' ! q)" using b by auto
  qed
  moreover have "block_grow E st0 st'"
    unfolding block_grow_def b
  proof (intro conjI ballI)
    show "blocked_set E st0 \<subseteq> blocked_set E st" using grow by (simp add: block_grow_def)
    show "set (jn_blockers st' ! p) \<subseteq> set (jn_blockers st0 ! p) \<union> - blocked_set E st0" if "p \<in> positions E" for p
      using Bl(2) [OF n [OF that]] grow that vp(2) by (auto simp: block_grow_def split: if_splits)
  qed
  moreover have "vp \<in> blocked_set E st'" using I(5) b by auto
  ultimately show ?thesis by blast
qed

section \<open>The search is exact\<close>

text \<open>
  \<open>exact E path Ws st st' N\<close>: the rings found are elementary, and they are all elementary rings that
  extend \<open>path\<close> by one of \<open>Ws\<close>, unless the cap was reached.
\<close>

definition elementary_from :: "cycle_env \<Rightarrow> nat list \<Rightarrow> nat set \<Rightarrow> nat list \<Rightarrow> bool" where
  "elementary_from E path Ws p \<longleftrightarrow>
     ring E p \<and> distinct p \<and> take (length path) p = path \<and> next_after E path p \<in> Ws"

definition exact :: "cycle_env \<Rightarrow> nat list \<Rightarrow> nat set \<Rightarrow> johnson \<Rightarrow> johnson \<Rightarrow> nat list list \<Rightarrow> bool" where
  "exact E path Ws st st' N \<longleftrightarrow>
     jn_detected st' = jn_detected st @ map (cycle_of E) N \<and>
     (\<forall>p \<in> set N. elementary_from E path Ws p) \<and>
     (length (jn_detected st') < max_cycles_per_scc (ce_cfg E) \<longrightarrow>
        block_inv E (stack_positions E path) st' \<and> block_grow E st st' \<and>
        (\<forall>p. elementary_from E path Ws p \<longrightarrow> p \<in> set N))"

lemma exact_append:
  assumes N: "exact E path {w} st st1 N" and cap: "length (jn_detected st1) < max_cycles_per_scc (ce_cfg E)"
    and M: "exact E path ws st1 st2 M"
  shows "exact E path (insert w ws) st st2 (N @ M)"
  unfolding exact_def
proof (intro conjI impI)
  have split: "elementary_from E path (insert w ws) p \<longleftrightarrow> elementary_from E path {w} p \<or> elementary_from E path ws p" for p
    by (auto simp: elementary_from_def)
  show "jn_detected st2 = jn_detected st @ map (cycle_of E) (N @ M)"
    using N M by (simp add: exact_def)
  show "\<forall>p \<in> set (N @ M). elementary_from E path (insert w ws) p"
    using N M unfolding split by (auto simp: exact_def)
  assume c: "length (jn_detected st2) < max_cycles_per_scc (ce_cfg E)"
  show "block_inv E (stack_positions E path) st2" using M c by (simp add: exact_def)
  show "block_grow E st st2" using N M c cap block_grow_trans unfolding exact_def by metis
  show "\<forall>p. elementary_from E path (insert w ws) p \<longrightarrow> p \<in> set (N @ M)"
    using N M c cap unfolding split exact_def by simp
qed

lemma open_path_short:
  assumes "env_ok E" "open_path E p" "distinct p"
  shows "length p \<le> length (ce_scc E)"
proof -
  have "card (set p) \<le> card (set (ce_scc E))"
    using assms(2) by (intro card_mono) (auto simp: open_path_def searched_def)
  then show ?thesis
    using assms(3) env_okD(2) [OF assms(1)] by (simp add: distinct_card)
qed

lemma elementary_from_decomp:
  assumes "elementary_from E path {w} p" "w \<noteq> ce_s E"
  obtains q where "p = path @ w # q"
proof (cases "length path < length p")
  case True
  with assms have "drop (length path) p = w # drop (Suc (length path)) p"
    by (simp add: elementary_from_def next_after_def Cons_nth_drop_Suc flip: Cons_nth_drop_Suc)
  with assms that show ?thesis
    by (metis append_take_drop_id elementary_from_def)
next
  case False
  with assms show ?thesis by (simp add: elementary_from_def next_after_def)
qed

lemma elementary_from_snoc:
  "w \<noteq> ce_s E \<Longrightarrow> elementary_from E path {w} p \<longleftrightarrow>
     ring E p \<and> distinct p \<and> take (Suc (length path)) p = path @ [w]"
  unfolding elementary_from_def using take_snoc next_after_snoc
  by (auto simp: next_after_def take_Suc_conv_app_nth split: if_splits)

lemma next_after_searched: "ring E p \<Longrightarrow> next_after E path p \<in> searched E"
proof -
  assume "ring E p"
  then have "set p \<subseteq> searched E" "ce_s E \<in> searched E"
    unfolding ring_def open_path_def by (auto intro: hd_in_set)
  then show ?thesis by (auto simp: next_after_def dest: nth_mem)
qed

lemma ring_next_after:
  assumes "ring E p" "take (length path) p = path" "path \<noteq> []"
  shows "next_after E path p \<in> set (ce_adj E ! last path)"
proof (cases "length path < length p")
  case True
  define q where "q = drop (length path) p"
  have p: "p = path @ q" using assms(2) append_take_drop_id [of "length path" p] by (simp add: q_def)
  with True have "q \<noteq> []" "p ! length path = hd q" by (auto simp: hd_conv_nth nth_append)
  with assms p True show ?thesis
    by (auto simp: ring_def open_path_def successively_append_iff next_after_def)
next
  case False
  then have "p = path" using assms(2) by simp
  with assms(1) False show ?thesis by (simp add: ring_def next_after_def)
qed

lemma elementary_closed:
  assumes "elementary_from E path {ce_s E} p" "path \<noteq> []"
  shows "p = path"
proof (cases "length path < length p")
  case True
  with assms have "p ! length path = ce_s E" "ce_s E \<notin> set (tl p)"
    by (auto simp: elementary_from_def next_after_def ring_def open_path_def)
  moreover have "p ! length path \<in> set (tl p)"
    using True assms(2) by (cases p; cases path) auto
  ultimately show ?thesis by simp
qed (use assms in \<open>auto simp: elementary_from_def\<close>)

lemma mark_blocked_inv:
  assumes ok: "env_ok E" and inv: "block_inv E (stack_positions E path) st" and v: "eligible E v = Some vp"
    and st1: "st1 = mark_blocked (pos_at (ce_scc_pos E) v) st"
  shows "block_inv E (insert vp (stack_positions E path)) st1" "block_grow E st st1"
    "jn_detected st1 = jn_detected st" "insert vp (stack_positions E path) = stack_positions E (path @ [v])"
proof -
  note I = block_invD [OF inv]
  have vp: "vp < length (ce_scc E)" "ce_scc E ! vp = v" "vp \<in> positions E"
    using eligible_iff [OF ok, of v vp] eligible_positions [OF ok v] v by simp_all
  have "st1 = st\<lparr>jn_blocked := (jn_blocked st)[vp := True]\<rparr>"
    using vp I(1) env_okD(3) [OF ok, of v vp] by (simp add: st1 mark_blocked_def)
  then have s1: "jn_blocked st1 = (jn_blocked st)[vp := True]" "jn_blockers st1 = jn_blockers st"
    and "jn_detected st1 = jn_detected st" by simp_all
  then show "jn_detected st1 = jn_detected st" by simp
  have b1: "blocked_set E st1 = insert vp (blocked_set E st)"
    using vp I(1) s1 by (auto simp: blocked_set_def nth_list_update)
  show "block_grow E st st1" using b1 s1 by (auto simp: block_grow_def)
  show "block_inv E (insert vp (stack_positions E path)) st1"
    unfolding block_inv_def
  proof (intro conjI ballI allI impI)
    show "jn_blockers st1 ! p = []" if "p \<in> positions E" "\<not> jn_blocked st1 ! p" for p
      using that I(1) I(4) [OF that(1)] s1 vp(1) by (cases "p = vp") simp_all
    fix p w q assume "p \<in> blocked_set E st1 - insert vp (stack_positions E path)"
      "w \<in> set (ce_adj E ! (ce_scc E ! p))" "eligible E w = Some q"
    with b1 s1 I(6) [of p w q] show "w \<noteq> ce_s E" "q \<in> blocked_set E st1" "p \<in> set (jn_blockers st1 ! q)"
      by auto
  qed (use I(1-5) s1 b1 in auto)
  show "insert vp (stack_positions E path) = stack_positions E (path @ [v])"
    using vp env_okD(2) [OF ok] by (auto simp: stack_positions_def positions_def nth_eq_iff_index_eq)
qed

lemma circuit_exact_aux:
  "open_path E (path @ [v]) \<Longrightarrow> distinct (path @ [v]) \<Longrightarrow> env_ok E \<Longrightarrow>
     length (ce_scc E) \<le> max_cycle_length (ce_cfg E) \<Longrightarrow>
     block_inv E (stack_positions E path) st \<Longrightarrow> eligible E v = Some vp \<Longrightarrow> vp \<notin> blocked_set E st \<Longrightarrow>
     length (jn_detected st) < max_cycles_per_scc (ce_cfg E) \<Longrightarrow>
     \<exists>N. jn_detected (snd (circuit E path v st)) = jn_detected st @ map (cycle_of E) N \<and>
       (\<forall>p \<in> set N. ring E p \<and> distinct p \<and> take (Suc (length path)) p = path @ [v]) \<and>
       (length (jn_detected (snd (circuit E path v st))) < max_cycles_per_scc (ce_cfg E) \<longrightarrow>
          block_inv E (stack_positions E path) (snd (circuit E path v st)) \<and>
          block_grow E st (snd (circuit E path v st)) \<and>
          (\<not> fst (circuit E path v st) \<longrightarrow> vp \<in> blocked_set E (snd (circuit E path v st))) \<and>
          (\<forall>p. ring E p \<and> distinct p \<and> take (Suc (length path)) p = path @ [v] \<longrightarrow> p \<in> set N))"
  "open_path E path \<Longrightarrow> distinct path \<Longrightarrow> env_ok E \<Longrightarrow>
     length (ce_scc E) \<le> max_cycle_length (ce_cfg E) \<Longrightarrow>
     block_inv E (stack_positions E path) st \<Longrightarrow> w \<in> set (ce_adj E ! last path) \<Longrightarrow> eligible E w = Some w_pos \<Longrightarrow>
     length (jn_detected st) < max_cycles_per_scc (ce_cfg E) \<Longrightarrow>
     \<exists>N. exact E path {w} st (snd (circuit_visit E path w w_pos found st)) N \<and>
       (length (jn_detected (snd (circuit_visit E path w w_pos found st))) < max_cycles_per_scc (ce_cfg E) \<longrightarrow>
        \<not> fst (circuit_visit E path w w_pos found st) \<longrightarrow>
          \<not> found \<and> w \<noteq> ce_s E \<and> w_pos \<in> blocked_set E (snd (circuit_visit E path w w_pos found st)))"
  "open_path E path \<Longrightarrow> distinct path \<Longrightarrow> env_ok E \<Longrightarrow>
     length (ce_scc E) \<le> max_cycle_length (ce_cfg E) \<Longrightarrow>
     block_inv E (stack_positions E path) st \<Longrightarrow> set ws \<subseteq> set (ce_adj E ! last path) \<Longrightarrow>
     length (jn_detected st) < max_cycles_per_scc (ce_cfg E) \<Longrightarrow>
     \<exists>N. exact E path (set ws) st (snd (circuit_edges E path ws found st)) N \<and>
       (length (jn_detected (snd (circuit_edges E path ws found st))) < max_cycles_per_scc (ce_cfg E) \<longrightarrow>
        \<not> fst (circuit_edges E path ws found st) \<longrightarrow>
          \<not> found \<and> (\<forall>w \<in> set ws. \<forall>q. eligible E w = Some q \<longrightarrow>
            w \<noteq> ce_s E \<and> q \<in> blocked_set E (snd (circuit_edges E path ws found st))))"
proof (induction E path v st and E path w w_pos found st and E path ws found st
    arbitrary: vp and and
    rule: circuit_circuit_visit_circuit_edges.induct)
  case (1 E path v st)
  define st1 where "st1 = mark_blocked (pos_at (ce_scc_pos E) v) st"
  define r where "r = circuit_edges E (path @ [v]) (ce_adj E ! v) False st1"
  define st' where "st' = snd (circuit E path v st)"
  note M = mark_blocked_inv [OF "1.prems"(3,5,6) st1_def]
  have len: "\<not> max_cycle_length (ce_cfg E) \<le> length path"
    using open_path_short [OF "1.prems"(3,1,2)] "1.prems"(4) by simp
  have cap: "\<not> max_cycles_per_scc (ce_cfg E) \<le> length (jn_detected st)" using "1.prems"(8) by simp
  have vp: "vp \<in> positions E" "ce_scc E ! vp = v" "pos_at (ce_scc_pos E) v = Some vp"
    using "1.prems"(3,6) eligible_positions eligible_iff [of E v vp] env_okD(3) [of E v vp] by auto
  have "\<exists>N. exact E (path @ [v]) (set (ce_adj E ! v)) st1 (snd r) N \<and>
      (length (jn_detected (snd r)) < max_cycles_per_scc (ce_cfg E) \<longrightarrow> \<not> fst r \<longrightarrow>
       \<not> False \<and> (\<forall>w \<in> set (ce_adj E ! v). \<forall>q. eligible E w = Some q \<longrightarrow> w \<noteq> ce_s E \<and> q \<in> blocked_set E (snd r)))"
    unfolding r_def st1_def
    by (rule "1.IH" [OF len cap refl]) (use "1.prems" M cap in \<open>simp_all add: st1_def\<close>)
  then obtain N where N: "exact E (path @ [v]) (set (ce_adj E ! v)) st1 (snd r) N"
    and succ: "length (jn_detected (snd r)) < max_cycles_per_scc (ce_cfg E) \<Longrightarrow> \<not> fst r \<Longrightarrow>
       \<forall>w \<in> set (ce_adj E ! v). \<forall>q. eligible E w = Some q \<longrightarrow> w \<noteq> ce_s E \<and> q \<in> blocked_set E (snd r)"
    by blast
  have el: "elementary_from E (path @ [v]) (set (ce_adj E ! v)) p \<longleftrightarrow>
      ring E p \<and> distinct p \<and> take (Suc (length path)) p = path @ [v]" for p
    using ring_next_after [of E p "path @ [v]"] by (auto simp: elementary_from_def)
  have det: "jn_detected st' = jn_detected (snd r)" and found: "fst (circuit E path v st) = fst r"
    using len cap vp(3) by (auto simp: st'_def circuit.simps r_def st1_def Let_def split: prod.splits)
  have res: "block_inv E (stack_positions E path) st' \<and> block_grow E st st' \<and> (\<not> fst r \<longrightarrow> vp \<in> blocked_set E st')"
    if c: "length (jn_detected (snd r)) < max_cycles_per_scc (ce_cfg E)"
  proof -
    have inv2: "block_inv E (insert vp (stack_positions E path)) (snd r)" "block_grow E st (snd r)"
      using N c M(2,4) block_grow_trans by (auto simp: exact_def)
    show ?thesis
    proof (cases "fst r")
      case True
      obtain bl Bl where u: "unblock (Some vp) (jn_blocked (snd r)) (jn_blockers (snd r)) = (bl, Bl)" by force
      have "jn_blocked st' = bl \<and> jn_blockers st' = Bl"
        using len cap vp(3) True u by (auto simp: st'_def circuit.simps r_def st1_def Let_def split: prod.splits)
      then show ?thesis
        using block_inv_found [OF "1.prems"(5) vp(1) "1.prems"(7) inv2 u] True by auto
    next
      case False
      have "jn_blocked st' = jn_blocked (snd r) \<and>
          jn_blockers st' = add_blockers E (Some vp) (ce_adj E ! (ce_scc E ! vp)) (jn_blockers (snd r))"
        using len cap vp False by (auto simp: st'_def circuit.simps r_def st1_def Let_def split: prod.splits)
      then show ?thesis
        using block_inv_not_found [OF "1.prems"(3,5) vp(1) "1.prems"(7) inv2] succ [OF c False] vp(2) by auto
    qed
  qed
  show ?case
    unfolding st'_def [symmetric] found det
  proof (intro exI [of _ N] conjI impI)
    show "jn_detected (snd r) = jn_detected st @ map (cycle_of E) N"
      using N M(3) by (simp add: exact_def)
    show "\<forall>p \<in> set N. ring E p \<and> distinct p \<and> take (Suc (length path)) p = path @ [v]"
      using N unfolding exact_def el by blast
    show "\<forall>p. ring E p \<and> distinct p \<and> take (Suc (length path)) p = path @ [v] \<longrightarrow> p \<in> set N"
      if "length (jn_detected (snd r)) < max_cycles_per_scc (ce_cfg E)"
      using N that unfolding exact_def el by blast
  qed (use res in blast)+
next
  case (2 E path w w_pos found st)
  note cv = circuit_visit.simps [of E path w w_pos found st]
  have path: "path \<noteq> []" using "2.prems"(1) by (simp add: open_path_def)
  have wp: "w_pos \<in> positions E" "ce_scc E ! w_pos = w" "w \<in> searched E"
    using eligible_positions [OF "2.prems"(3,7)] "2.prems"(3,7) by (auto simp: eligible_iff)
  show ?case
  proof (cases "w = ce_s E")
    case True
    show ?thesis
    proof (cases "2 \<le> length path")
      case len: True
      then have ring: "ring E path" using "2.prems" True by (auto simp: ring_def)
      have "build_cycle path (ce_s E) (ce_edges E) (ce_addrs E) = Some (cycle_of E path)"
        using build_cycle_ring(1) "2.prems" True by simp
      then have r: "circuit_visit E path w w_pos found st =
          (True, st\<lparr>jn_detected := jn_detected st @ [cycle_of E path]\<rparr>)"
        using cv True len by simp
      let ?st = "st\<lparr>jn_detected := jn_detected st @ [cycle_of E path]\<rparr>"
      have "elementary_from E path {w} p \<longleftrightarrow> p = path" for p
        using elementary_closed [of E path p] ring "2.prems"(2) True path
        by (auto simp: elementary_from_def next_after_def)
      moreover have "block_inv E (stack_positions E path) ?st" "block_grow E st ?st"
        using block_inv_detected [of ?st st E "stack_positions E path" st] "2.prems"(5) by simp_all
      ultimately have "exact E path {w} st ?st [path]" by (simp add: exact_def)
      then show ?thesis unfolding r by (intro exI [of _ "[path]"]) simp
    next
      case False
      then have r: "circuit_visit E path w w_pos found st = (True, st)" using cv True by simp
      have "\<not> elementary_from E path {w} p" for p
        using elementary_closed [of E path p] True path False
        by (auto simp: elementary_from_def ring_def)
      then have "exact E path {w} st st []" using "2.prems"(5) by (simp add: exact_def)
      then show ?thesis unfolding r by (intro exI [of _ "[]"]) simp
    qed
  next
    case False
    show ?thesis
    proof (cases "w_pos < length (jn_blocked st) \<and> \<not> jn_blocked st ! w_pos")
      case True
      define r where "r = circuit E path w st"
      have r: "circuit_visit E path w w_pos found st = (found \<or> fst r, snd r)"
        using cv False True by (simp add: r_def split: prod.splits)
      have nb: "w_pos \<notin> blocked_set E st" using True by (simp add: blocked_set_def)
      have "w \<notin> set path"
      proof
        assume "w \<in> set path"
        then have "w_pos \<in> stack_positions E path" using wp by (simp add: stack_positions_def)
        with block_invD(5) [OF "2.prems"(5)] nb show False by auto
      qed
      then have op: "open_path E (path @ [w])" "distinct (path @ [w])"
        using open_path_snoc [OF "2.prems"(1,6) wp(3) False] "2.prems"(2) by auto
      from "2.IH" [OF False True op "2.prems"(3,4,5,7) nb "2.prems"(8)] obtain N where
        N: "jn_detected (snd r) = jn_detected st @ map (cycle_of E) N"
          "\<forall>p \<in> set N. ring E p \<and> distinct p \<and> take (Suc (length path)) p = path @ [w]"
          "length (jn_detected (snd r)) < max_cycles_per_scc (ce_cfg E) \<Longrightarrow>
             block_inv E (stack_positions E path) (snd r) \<and> block_grow E st (snd r) \<and>
             (\<not> fst r \<longrightarrow> w_pos \<in> blocked_set E (snd r)) \<and>
             (\<forall>p. ring E p \<and> distinct p \<and> take (Suc (length path)) p = path @ [w] \<longrightarrow> p \<in> set N)"
        unfolding r_def by blast
      have "exact E path {w} st (snd r) N"
        unfolding exact_def elementary_from_snoc [OF False] using N by (intro conjI impI) blast+
      moreover have "\<not> found \<and> w \<noteq> ce_s E \<and> w_pos \<in> blocked_set E (snd r)"
        if "length (jn_detected (snd r)) < max_cycles_per_scc (ce_cfg E)" "\<not> (found \<or> fst r)"
        using N(3) [OF that(1)] that(2) False by blast
      ultimately show ?thesis
        unfolding r fst_conv snd_conv by blast
    next
      case blocked: False
      then have r: "circuit_visit E path w w_pos found st = (found, st)" using cv False by (auto split: if_splits)
      have b: "w_pos \<in> blocked_set E st"
        using blocked wp(1) block_invD(1) [OF "2.prems"(5)] by (auto simp: blocked_set_def positions_def)
      have "\<not> elementary_from E path {w} p" for p
      proof
        assume el: "elementary_from E path {w} p"
        with False obtain q where p: "p = path @ w # q" using elementary_from_decomp by metis
        have "ring E p" "distinct p" using el by (auto simp: elementary_from_def)
        then have "walk E (w # q)" "set (w # q) \<subseteq> searched E" "set (w # q) \<inter> set path = {}"
          "ce_s E \<in> set (ce_adj E ! last (w # q))"
          using path p unfolding ring_def open_path_def by (auto simp: successively_append_iff)
        moreover have "ce_s E \<in> searched E"
          using next_after_searched [OF \<open>ring E p\<close>, of p] by (simp add: next_after_def)
        ultimately show False using blocked_no_exit [OF "2.prems"(3,5) b wp(2), of q] by blast
      qed
      then have "exact E path {w} st st []" using "2.prems"(5) by (simp add: exact_def)
      then show ?thesis using False b unfolding r by (intro exI [of _ "[]"]) simp
    qed
  qed
next
  case (3 E path found st)
  then show ?case by (auto simp: circuit_edges.simps exact_def elementary_from_def)
next
  case (4 E path w ws found st)
  show ?case
  proof (cases "eligible E w")
    case None
    have "w \<notin> searched E" using None "4.prems"(3) eligible_None by simp
    then have "elementary_from E path (set (w # ws)) p = elementary_from E path (set ws) p" for p
      using next_after_searched [of E p path] by (auto simp: elementary_from_def)
    with "4.IH"(1) [OF None] "4.prems" None show ?thesis
      by (simp add: circuit_edges.simps exact_def)
  next
    case (Some w_pos)
    obtain f1 st1 where v: "circuit_visit E path w w_pos found st = (f1, st1)" by force
    from "4.IH"(2) [OF Some] "4.prems" Some v obtain N where
      N: "exact E path {w} st st1 N"
        "length (jn_detected st1) < max_cycles_per_scc (ce_cfg E) \<Longrightarrow> \<not> f1 \<Longrightarrow>
           \<not> found \<and> w \<noteq> ce_s E \<and> w_pos \<in> blocked_set E st1"
      by auto
    show ?thesis
    proof (cases "length (jn_detected st1) \<ge> max_cycles_per_scc (ce_cfg E)")
      case True
      then show ?thesis using N(1) Some v
        by (intro exI [of _ N]) (auto simp: circuit_edges.simps exact_def elementary_from_def)
    next
      case False
      let ?r = "circuit_edges E path ws f1 st1"
      from N(1) False have inv1: "block_inv E (stack_positions E path) st1" "block_grow E st st1"
        by (auto simp: exact_def)
      from "4.IH"(3) [OF Some v [symmetric] refl False] "4.prems" False inv1 obtain M where
        M: "exact E path (set ws) st1 (snd ?r) M"
          "length (jn_detected (snd ?r)) < max_cycles_per_scc (ce_cfg E) \<Longrightarrow> \<not> fst ?r \<Longrightarrow>
           \<not> f1 \<and> (\<forall>w \<in> set ws. \<forall>q. eligible E w = Some q \<longrightarrow> w \<noteq> ce_s E \<and> q \<in> blocked_set E (snd ?r))"
        by auto
      have "exact E path (set (w # ws)) st (snd ?r) (N @ M)"
        using exact_append [OF N(1) _ M(1)] False by simp
      moreover have "w_pos \<in> blocked_set E st1 \<Longrightarrow> length (jn_detected (snd ?r)) < max_cycles_per_scc (ce_cfg E) \<Longrightarrow>
          w_pos \<in> blocked_set E (snd ?r)"
        using M(1) unfolding exact_def block_grow_def by auto
      moreover have r: "circuit_edges E path (w # ws) found st = ?r"
        using False Some v by (simp add: circuit_edges.simps)
      moreover have "\<not> found \<and> (\<forall>w' \<in> set (w # ws). \<forall>q. eligible E w' = Some q \<longrightarrow>
            w' \<noteq> ce_s E \<and> q \<in> blocked_set E (snd ?r))"
        if c: "length (jn_detected (snd ?r)) < max_cycles_per_scc (ce_cfg E)" "\<not> fst ?r"
      proof -
        have "\<not> found" "w \<noteq> ce_s E" "w_pos \<in> blocked_set E (snd ?r)"
          using M(2) [OF c] N(2) False calculation(2) c(1) by auto
        then show ?thesis using M(2) [OF c] Some by auto
      qed
      ultimately show ?thesis unfolding r by blast
    qed
  qed
qed

end
