(* ===== verification/GraphBuild.thy ===== *)
theory GraphBuild
  imports GraphCycles
begin

text \<open>
  The graph that \<open>detect_cycles\<close> builds: one vertex per wallet, one edge per pair of distinct wallets
  with a transfer between them, carrying the saturated sum of the amounts and the first and last
  time stamps; and the adjacency lists, which do not depend on the iteration order of the hash map.
\<close>

section \<open>Aggregation\<close>

definition between :: "transfer_edge list \<Rightarrow> string \<Rightarrow> string \<Rightarrow> transfer_edge list" where
  "between ts a b = List.filter (\<lambda>te. te_from_address te = a \<and> te_to_address te = b) ts"

definition saturated_total :: "transfer_edge list \<Rightarrow> nat" where
  "saturated_total ts = min (2 ^ 128 - 1) (sum_list (map (\<lambda>te. unat (te_amount_raw te)) ts))"

definition aggregates :: "agg_edge \<Rightarrow> transfer_edge list \<Rightarrow> bool" where
  "aggregates e ts \<longleftrightarrow> ts \<noteq> [] \<and> unat (amount_raw_sum e) = saturated_total ts \<and>
     min_block_time e = Min (te_block_time ` set ts) \<and> max_block_time e = Max (te_block_time ` set ts)"

lemma unat_saturating_add128: "unat (saturating_add128 a b) = min (2 ^ 128 - 1) (unat a + unat b)"
proof (cases "unat a + unat b < 2 ^ 128")
  case True
  then have "a \<le> a + b" "unat (a + b) = unat a + unat b"
    using no_olen_add_nat [of a b] by (simp_all add: unat_plus_simple)
  with True show ?thesis by (simp add: saturating_add128_def not_less [symmetric])
next
  case False
  then have "a + b < a" using no_olen_add_nat [of a b] by (simp add: not_le [symmetric])
  with False show ?thesis by (simp add: saturating_add128_def unsigned_minus_1_eq_mask mask_eq_exp_minus_1)
qed

lemma aggregates_add:
  assumes "ts = [] \<and> e = \<lparr>amount_raw_sum = 0, min_block_time = te_block_time te, max_block_time = te_block_time te\<rparr> \<or>
    aggregates e ts"
  shows "aggregates (add_transfer te e) (ts @ [te])"
  using assms
proof
  assume "ts = [] \<and> e = \<lparr>amount_raw_sum = 0, min_block_time = te_block_time te, max_block_time = te_block_time te\<rparr>"
  moreover have "unat (te_amount_raw te) < 2 ^ 128" using unsigned_less [of "te_amount_raw te"] by simp
  ultimately show ?thesis
    by (simp add: aggregates_def add_transfer_def unat_saturating_add128 saturated_total_def)
next
  assume e: "aggregates e ts"
  then have ne: "te_block_time ` set ts \<noteq> {}" by (simp add: aggregates_def)
  have "Min (te_block_time ` set (ts @ [te])) = min (te_block_time te) (Min (te_block_time ` set ts))"
    "Max (te_block_time ` set (ts @ [te])) = max (te_block_time te) (Max (te_block_time ` set ts))"
    using ne by (simp_all del: Min_insert Max_insert add: Min_insert [OF _ ne] Max_insert [OF _ ne])
  moreover have "min_block_time (add_transfer te e) = min (te_block_time te) (min_block_time e)"
    "max_block_time (add_transfer te e) = max (te_block_time te) (max_block_time e)"
    by (auto simp: add_transfer_def)
  moreover have "unat (amount_raw_sum (add_transfer te e)) = saturated_total (ts @ [te])"
    using e by (simp add: aggregates_def add_transfer_def unat_saturating_add128 saturated_total_def)
  ultimately show ?thesis using e by (simp only: aggregates_def) simp
qed

section \<open>The vertex table and the edges\<close>

definition table_ok :: "graph_build \<Rightarrow> bool" where
  "table_ok g \<longleftrightarrow> distinct (id_to_addr g) \<and>
     (\<forall>a i. addr_to_id g a = Some i \<longleftrightarrow> i < length (id_to_addr g) \<and> id_to_addr g ! i = a)"

definition edges_ok :: "graph_build \<Rightarrow> transfer_edge list \<Rightarrow> bool" where
  "edges_ok g ts \<longleftrightarrow>
     (\<forall>i j e. map_of (edge_table g) (i, j) = Some e \<longrightarrow>
        i < length (id_to_addr g) \<and> j < length (id_to_addr g) \<and> i \<noteq> j \<and>
        aggregates e (between ts (id_to_addr g ! i) (id_to_addr g ! j))) \<and>
     (\<forall>te \<in> set ts. \<exists>i j. i < length (id_to_addr g) \<and> j < length (id_to_addr g) \<and>
        id_to_addr g ! i = te_from_address te \<and> id_to_addr g ! j = te_to_address te \<and>
        (i \<noteq> j \<longrightarrow> map_of (edge_table g) (i, j) \<noteq> None))"

lemma get_or_insert_result:
  assumes "table_ok g" "get_or_insert a g = (i, g')"
  shows "table_ok g'" "i < length (id_to_addr g')" "id_to_addr g' ! i = a" "edge_table g' = edge_table g"
    "\<exists>new. id_to_addr g' = id_to_addr g @ new"
proof -
  have "table_ok g' \<and> i < length (id_to_addr g') \<and> id_to_addr g' ! i = a \<and> edge_table g' = edge_table g \<and>
    (\<exists>new. id_to_addr g' = id_to_addr g @ new)"
  proof (cases "addr_to_id g a")
    case None
    have "\<forall>i. \<not> (i < length (id_to_addr g) \<and> id_to_addr g ! i = a)"
      using assms(1) None unfolding table_ok_def by (metis option.distinct(1))
    then have "a \<notin> set (id_to_addr g)" by (auto simp: in_set_conv_nth)
    with None assms show ?thesis
      by (auto simp: get_or_insert_def Let_def table_ok_def nth_append less_Suc_eq split: if_splits)
  next
    case (Some k)
    with assms show ?thesis by (auto simp: get_or_insert_def table_ok_def)
  qed
  then show "table_ok g'" "i < length (id_to_addr g')" "id_to_addr g' ! i = a" "edge_table g' = edge_table g"
    "\<exists>new. id_to_addr g' = id_to_addr g @ new" by blast+
qed

lemma edges_ok_extend:
  "edges_ok g ts \<Longrightarrow> id_to_addr g' = id_to_addr g @ new \<Longrightarrow> edge_table g' = edge_table g \<Longrightarrow> edges_ok g' ts"
proof -
  assume ok: "edges_ok g ts" and new: "id_to_addr g' = id_to_addr g @ new" and es: "edge_table g' = edge_table g"
  have n: "k < length (id_to_addr g) \<Longrightarrow> k < length (id_to_addr g') \<and> id_to_addr g' ! k = id_to_addr g ! k" for k
    by (simp add: new nth_append)
  show "edges_ok g' ts"
    unfolding edges_ok_def es
  proof (intro conjI allI impI ballI)
    fix i j e assume "map_of (edge_table g) (i, j) = Some e"
    with ok have "i < length (id_to_addr g)" "j < length (id_to_addr g)" "i \<noteq> j"
      "aggregates e (between ts (id_to_addr g ! i) (id_to_addr g ! j))" unfolding edges_ok_def by blast+
    with n show "i < length (id_to_addr g')" "j < length (id_to_addr g')" "i \<noteq> j"
      "aggregates e (between ts (id_to_addr g' ! i) (id_to_addr g' ! j))" by simp_all
  next
    fix te assume "te \<in> set ts"
    with ok obtain i j where "i < length (id_to_addr g)" "j < length (id_to_addr g)"
      "id_to_addr g ! i = te_from_address te" "id_to_addr g ! j = te_to_address te"
      "i \<noteq> j \<longrightarrow> map_of (edge_table g) (i, j) \<noteq> None" unfolding edges_ok_def by blast
    with n show "\<exists>i j. i < length (id_to_addr g') \<and> j < length (id_to_addr g') \<and>
        id_to_addr g' ! i = te_from_address te \<and> id_to_addr g' ! j = te_to_address te \<and>
        (i \<noteq> j \<longrightarrow> map_of (edge_table g) (i, j) \<noteq> None)"
      by (intro exI [of _ i] exI [of _ j]) simp
  qed
qed

lemma between_snoc:
  "between (ts @ [te]) a b = between ts a b @ (if te_from_address te = a \<and> te_to_address te = b then [te] else [])"
  by (simp add: between_def)

lemma ingest_ok:
  assumes "table_ok g" "edges_ok g ts" "distinct (map fst (edge_table g))"
  shows "table_ok (ingest g te)" "edges_ok (ingest g te) (ts @ [te])" "distinct (map fst (edge_table (ingest g te)))"
    "\<exists>new. id_to_addr (ingest g te) = id_to_addr g @ new"
proof -
  obtain i g1 where g1: "get_or_insert (te_from_address te) g = (i, g1)" by force
  obtain j g2 where g2: "get_or_insert (te_to_address te) g1 = (j, g2)" by force
  note R1 = get_or_insert_result [OF assms(1) g1]
  note R2 = get_or_insert_result [OF R1(1) g2]
  obtain new1 new2 where new: "id_to_addr g1 = id_to_addr g @ new1" "id_to_addr g2 = id_to_addr g1 @ new2"
    using R1(5) R2(5) by blast
  have ok2: "edges_ok g2 ts"
    using edges_ok_extend [OF edges_ok_extend [OF assms(2) new(1) R1(4)] new(2) R2(4)] .
  have i: "i < length (id_to_addr g2)" "id_to_addr g2 ! i = te_from_address te"
    using R1(2,3) by (simp_all add: new(2) nth_append)
  note j = R2(2,3)
  let ?es = "edge_table g2"
  define entry where "entry = (case map_of ?es (i, j) of
      Some e \<Rightarrow> e
    | None \<Rightarrow> \<lparr>amount_raw_sum = 0, min_block_time = te_block_time te, max_block_time = te_block_time te\<rparr>)"
  have ing: "ingest g te = (if i = j then g2 else g2\<lparr>edge_table := AList.update (i, j) (add_transfer te entry) ?es\<rparr>)"
    using g1 g2 by (simp add: ingest_def entry_def Let_def)
  show "table_ok (ingest g te)" "\<exists>new. id_to_addr (ingest g te) = id_to_addr g @ new"
    "distinct (map fst (edge_table (ingest g te)))"
    using R2(1,4) R1(4) new assms(3) unfolding ing by (auto simp: table_ok_def distinct_update)
  have addr_eq: "id_to_addr g2 ! a = id_to_addr g2 ! b \<longleftrightarrow> a = b"
    if "a < length (id_to_addr g2)" "b < length (id_to_addr g2)" for a b
    using R2(1) that by (simp add: table_ok_def nth_eq_iff_index_eq)
  show "edges_ok (ingest g te) (ts @ [te])"
  proof (cases "i = j")
    case True
    have "between (ts @ [te]) (id_to_addr g2 ! a) (id_to_addr g2 ! b) = between ts (id_to_addr g2 ! a) (id_to_addr g2 ! b)"
      if "a < length (id_to_addr g2)" "b < length (id_to_addr g2)" "a \<noteq> b" for a b
      using that True i j addr_eq by (auto simp: between_snoc)
    with True ok2 i j show ?thesis unfolding edges_ok_def ing by fastforce
  next
    case False
    let ?es' = "AList.update (i, j) (add_transfer te entry) ?es"
    have m: "map_of ?es' k = (if k = (i, j) then Some (add_transfer te entry) else map_of ?es k)" for k
      by (simp add: update_conv')
    have old: "between ts (id_to_addr g2 ! i) (id_to_addr g2 ! j) = []" if "map_of ?es (i, j) = None"
    proof (rule ccontr)
      assume "between ts (id_to_addr g2 ! i) (id_to_addr g2 ! j) \<noteq> []"
      then obtain t where "t \<in> set ts" "te_from_address t = id_to_addr g2 ! i" "te_to_address t = id_to_addr g2 ! j"
        by (auto simp: between_def filter_empty_conv)
      with ok2 obtain a b where "a < length (id_to_addr g2)" "b < length (id_to_addr g2)"
        "id_to_addr g2 ! a = id_to_addr g2 ! i" "id_to_addr g2 ! b = id_to_addr g2 ! j"
        "a \<noteq> b \<longrightarrow> map_of ?es (a, b) \<noteq> None" unfolding edges_ok_def by metis
      with addr_eq i(1) j(1) False that show False by metis
    qed
    have agg: "aggregates (add_transfer te entry) (between (ts @ [te]) (id_to_addr g2 ! i) (id_to_addr g2 ! j))"
    proof -
      have "between (ts @ [te]) (id_to_addr g2 ! i) (id_to_addr g2 ! j) =
          between ts (id_to_addr g2 ! i) (id_to_addr g2 ! j) @ [te]"
        using i j by (simp add: between_snoc)
      moreover have "between ts (id_to_addr g2 ! i) (id_to_addr g2 ! j) = [] \<and>
          entry = \<lparr>amount_raw_sum = 0, min_block_time = te_block_time te, max_block_time = te_block_time te\<rparr> \<or>
          aggregates entry (between ts (id_to_addr g2 ! i) (id_to_addr g2 ! j))"
      proof (cases "map_of ?es (i, j)")
        case None
        with old show ?thesis by (simp add: entry_def)
      next
        case (Some e)
        with ok2 show ?thesis unfolding edges_ok_def entry_def by simp
      qed
      ultimately show ?thesis using aggregates_add by simp
    qed
    have "edges_ok (g2\<lparr>edge_table := ?es'\<rparr>) (ts @ [te])"
      unfolding edges_ok_def
    proof (intro conjI allI impI ballI)
      fix a b e assume e: "map_of (edge_table (g2\<lparr>edge_table := ?es'\<rparr>)) (a, b) = Some e"
      have "a < length (id_to_addr g2) \<and> b < length (id_to_addr g2) \<and> a \<noteq> b \<and>
        aggregates e (between (ts @ [te]) (id_to_addr g2 ! a) (id_to_addr g2 ! b))"
      proof (cases "(a, b) = (i, j)")
        case True
        with e m agg i j False show ?thesis by auto
      next
        case ne: False
        with e m have "map_of ?es (a, b) = Some e" by auto
        with ok2 have ab: "a < length (id_to_addr g2)" "b < length (id_to_addr g2)" "a \<noteq> b"
          "aggregates e (between ts (id_to_addr g2 ! a) (id_to_addr g2 ! b))"
          unfolding edges_ok_def by blast+
        moreover have "\<not> (te_from_address te = id_to_addr g2 ! a \<and> te_to_address te = id_to_addr g2 ! b)"
          using ne ab addr_eq i j by auto
        ultimately show ?thesis by (auto simp: between_snoc)
      qed
      then show "a < length (id_to_addr (g2\<lparr>edge_table := ?es'\<rparr>))" "b < length (id_to_addr (g2\<lparr>edge_table := ?es'\<rparr>))" "a \<noteq> b"
        "aggregates e (between (ts @ [te]) (id_to_addr (g2\<lparr>edge_table := ?es'\<rparr>) ! a) (id_to_addr (g2\<lparr>edge_table := ?es'\<rparr>) ! b))"
        by simp_all
    next
      fix t assume t: "t \<in> set (ts @ [te])"
      show "\<exists>a b. a < length (id_to_addr (g2\<lparr>edge_table := ?es'\<rparr>)) \<and> b < length (id_to_addr (g2\<lparr>edge_table := ?es'\<rparr>)) \<and>
        id_to_addr (g2\<lparr>edge_table := ?es'\<rparr>) ! a = te_from_address t \<and> id_to_addr (g2\<lparr>edge_table := ?es'\<rparr>) ! b = te_to_address t \<and>
        (a \<noteq> b \<longrightarrow> map_of (edge_table (g2\<lparr>edge_table := ?es'\<rparr>)) (a, b) \<noteq> None)"
      proof (cases "t = te")
        case True
        with i j m show ?thesis by (intro exI [of _ i] exI [of _ j]) simp
      next
        case False
        with t have "t \<in> set ts" by simp
        with ok2 obtain a b where "a < length (id_to_addr g2)" "b < length (id_to_addr g2)"
          "id_to_addr g2 ! a = te_from_address t" "id_to_addr g2 ! b = te_to_address t"
          "a \<noteq> b \<longrightarrow> map_of ?es (a, b) \<noteq> None" unfolding edges_ok_def by blast
        with m show ?thesis by (intro exI [of _ a] exI [of _ b]) simp
      qed
    qed
    with False show ?thesis by (simp add: ing)
  qed
qed

lemma build_graph_ok:
  "table_ok (build_graph ts) \<and> edges_ok (build_graph ts) ts \<and> distinct (map fst (edge_table (build_graph ts)))"
proof (induction ts rule: rev_induct)
  case Nil
  then show ?case by (simp add: build_graph_def empty_build_def table_ok_def edges_ok_def)
next
  case (snoc te ts)
  then show ?case using ingest_ok [of "build_graph ts" ts te] by (simp add: build_graph_def)
qed

lemma build_graph_edge:
  assumes "map_of (edge_table (build_graph ts)) (i, j) = Some e"
  shows "i < length (id_to_addr (build_graph ts))" "j < length (id_to_addr (build_graph ts))" "i \<noteq> j"
    "aggregates e (between ts (id_to_addr (build_graph ts) ! i) (id_to_addr (build_graph ts) ! j))"
  using build_graph_ok [of ts] assms unfolding edges_ok_def by blast+

lemma build_graph_edge_iff:
  assumes "i < length (id_to_addr (build_graph ts))" "j < length (id_to_addr (build_graph ts))"
  shows "map_of (edge_table (build_graph ts)) (i, j) \<noteq> None \<longleftrightarrow>
    i \<noteq> j \<and> between ts (id_to_addr (build_graph ts) ! i) (id_to_addr (build_graph ts) ! j) \<noteq> []"
proof
  assume "map_of (edge_table (build_graph ts)) (i, j) \<noteq> None"
  then show "i \<noteq> j \<and> between ts (id_to_addr (build_graph ts) ! i) (id_to_addr (build_graph ts) ! j) \<noteq> []"
    using build_graph_edge [of ts i j] by (auto simp: aggregates_def)
next
  let ?g = "build_graph ts"
  assume ne: "i \<noteq> j \<and> between ts (id_to_addr ?g ! i) (id_to_addr ?g ! j) \<noteq> []"
  then obtain t where t: "t \<in> set ts" "te_from_address t = id_to_addr ?g ! i" "te_to_address t = id_to_addr ?g ! j"
    by (auto simp: between_def filter_empty_conv)
  with build_graph_ok [of ts] obtain a b where "a < length (id_to_addr ?g)" "b < length (id_to_addr ?g)"
    "id_to_addr ?g ! a = te_from_address t" "id_to_addr ?g ! b = te_to_address t"
    "a \<noteq> b \<longrightarrow> map_of (edge_table ?g) (a, b) \<noteq> None" unfolding edges_ok_def by blast
  moreover have "distinct (id_to_addr ?g)" using build_graph_ok [of ts] by (simp add: table_ok_def)
  ultimately have "a = i" "b = j" using assms t by (metis nth_eq_iff_index_eq)+
  with \<open>a \<noteq> b \<longrightarrow> _\<close> ne show "map_of (edge_table ?g) (i, j) \<noteq> None" by simp
qed

section \<open>Adjacency lists\<close>

lemma adj_fold:
  assumes "\<forall>(i, j) \<in> set ks. i < length adj"
  shows "length (foldl (\<lambda>adj (i, j). adj[i := adj ! i @ [j]]) adj ks) = length adj \<and>
    (\<forall>i < length adj. set (foldl (\<lambda>adj (i, j). adj[i := adj ! i @ [j]]) adj ks ! i) =
       set (adj ! i) \<union> {j. (i, j) \<in> set ks})"
  using assms
proof (induction ks arbitrary: adj)
  case (Cons k ks)
  obtain a b where k: "k = (a, b)" by force
  let ?adj = "adj[a := adj ! a @ [b]]"
  from Cons.IH [of ?adj] Cons.prems k have
    "length (foldl (\<lambda>adj (i, j). adj[i := adj ! i @ [j]]) ?adj ks) = length ?adj \<and>
     (\<forall>i < length ?adj. set (foldl (\<lambda>adj (i, j). adj[i := adj ! i @ [j]]) ?adj ks ! i) =
       set (?adj ! i) \<union> {j. (i, j) \<in> set ks})" by auto
  with Cons.prems k show ?case by (auto simp: nth_list_update split: if_splits)
qed simp

lemma sorted_remdups_adj_strict: "sorted (xs :: nat list) \<Longrightarrow> sorted_wrt (<) (remdups_adj xs)"
  by (induction xs rule: remdups_adj.induct) (auto simp: order_le_less)

lemma build_adj_props:
  assumes "\<forall>(i, j) \<in> set ks. i < n"
  shows "length (build_adj n ks) = n"
    "i < n \<Longrightarrow> set (build_adj n ks ! i) = {j. (i, j) \<in> set ks}"
    "i < n \<Longrightarrow> sorted_wrt (<) (build_adj n ks ! i)"
  using adj_fold [of ks "replicate n []"] assms
  by (simp_all add: build_adj_def sorted_remdups_adj_strict)

text \<open>Sorting removes the iteration order of the hash map.\<close>

lemma build_adj_cong:
  assumes "\<forall>(i, j) \<in> set ks. i < n" "set ks' = set ks"
  shows "build_adj n ks' = build_adj n ks"
proof (rule nth_equalityI)
  have ks': "\<forall>(i, j) \<in> set ks'. i < n" using assms by simp
  show "length (build_adj n ks') = length (build_adj n ks)"
    using build_adj_props(1) assms(1) ks' by simp
  fix i assume "i < length (build_adj n ks')"
  then have i: "i < n" using build_adj_props(1) [OF ks'] by simp
  show "build_adj n ks' ! i = build_adj n ks ! i"
    using build_adj_props(2,3) [OF assms(1) i] build_adj_props(2,3) [OF ks' i] assms(2)
    by (intro strict_sorted_equal) simp_all
qed

end
