(* ===== verification/GraphEnumerate.thy ===== *)
theory GraphEnumerate
  imports GraphBlocking GraphBuild
begin

text \<open>
  The enumeration over a whole component, from each start vertex in turn, and what a reported cycle
  says of the transfers.
\<close>

section \<open>Enumeration over a component\<close>

text \<open>A closed walk of the component, rooted at its smallest vertex.\<close>

definition rooted :: "cycle_env \<Rightarrow> nat list \<Rightarrow> cycle_env" where
  "rooted E p = E\<lparr>ce_s := hd p\<rparr>"

definition closed_walk :: "cycle_env \<Rightarrow> nat list \<Rightarrow> bool" where
  "closed_walk E p \<longleftrightarrow> ring (rooted E p) p"

definition walk_cycle :: "cycle_env \<Rightarrow> nat list \<Rightarrow> cycle" where
  "walk_cycle E p = cycle_of (rooted E p) p"

lemma env_ok_s [simp]: "env_ok (E\<lparr>ce_s := s\<rparr>) = env_ok E"
  by (simp add: env_ok_def)

lemma ring_rooted: "ring (E\<lparr>ce_s := s\<rparr>) p \<Longrightarrow> rooted E p = E\<lparr>ce_s := s\<rparr>"
  by (simp add: ring_def open_path_def rooted_def)

lemma ring_closed_walk: "ring (E\<lparr>ce_s := s\<rparr>) p \<longleftrightarrow> closed_walk E p \<and> hd p = s"
proof
  assume "ring (E\<lparr>ce_s := s\<rparr>) p"
  moreover from this have "hd p = s" by (simp add: ring_def open_path_def)
  ultimately show "closed_walk E p \<and> hd p = s" by (simp add: closed_walk_def rooted_def)
qed (auto simp: closed_walk_def rooted_def)

lemma foldl_set_all:
  "length (foldl (\<lambda>bs i. bs[i := c]) xs js) = length xs"
  "i < length xs \<Longrightarrow> foldl (\<lambda>bs i. bs[i := c]) xs js ! i = (if i \<in> set js then c else xs ! i)"
  by (induction js arbitrary: xs) (auto simp: nth_list_update)

lemma reset_from_inv:
  assumes ok: "env_ok E" and s: "s_pos < length (ce_scc E)" "E' = E\<lparr>ce_s := ce_scc E ! s_pos\<rparr>"
    and len: "length (jn_blocked st) = length (ce_scc E)" "length (jn_blockers st) = length (ce_scc E)"
  shows "block_inv E' (stack_positions E' []) (reset_from s_pos st)" "blocked_set E' (reset_from s_pos st) = {}"
proof -
  let ?st = "reset_from s_pos st" and ?n = "length (ce_scc E)"
  have l: "length (jn_blocked ?st) = ?n" "length (jn_blockers ?st) = ?n"
    using len by (simp_all add: reset_from_def foldl_set_all)
  have r: "\<not> jn_blocked ?st ! p \<and> jn_blockers ?st ! p = []" if "s_pos \<le> p" "p < ?n" for p
    using that len by (simp add: reset_from_def foldl_set_all)
  have pos: "s_pos \<le> p \<and> p < ?n" if "p \<in> positions E'" for p
    using that s env_okD(1) [OF ok] sorted_wrt_nth_less [of "(<)" "ce_scc E" p s_pos]
    by (auto simp: positions_def not_le [symmetric])
  show "blocked_set E' ?st = {}" using r pos by (auto simp: blocked_set_def)
  then show "block_inv E' (stack_positions E' []) ?st"
    using l r pos s(2) by (simp add: block_inv_def stack_positions_def)
qed

lemma circuit_start_outputs:
  assumes "env_ok E" "s_pos < length (ce_scc E)" "E' = E\<lparr>ce_s := ce_scc E ! s_pos\<rparr>"
  shows "\<exists>N. outputs E' [] st (snd (circuit E' [] (ce_scc E ! s_pos) (reset_from s_pos st))) N"
proof -
  have "open_path E' ([] @ [ce_scc E ! s_pos])"
    using open_path_start [of E'] assms by simp
  from circuit_outputs_aux(1) [OF this] assms obtain N where
    "outputs E' [ce_scc E ! s_pos] (reset_from s_pos st)
       (snd (circuit E' [] (ce_scc E ! s_pos) (reset_from s_pos st))) N"
    by auto
  then show ?thesis by (auto simp: outputs_def reset_from_def)
qed

text \<open>The cycles found from the start positions \<open>ps\<close> on.\<close>

lemma enumerate_outputs:
  assumes "env_ok E" "sorted_wrt (<) ps" "\<forall>p \<in> set ps. p < length (ce_scc E)"
    "length (jn_detected st) < max_cycles_per_scc (ce_cfg E)"
  shows "\<exists>N. jn_detected (enumerate_from E ps st) = jn_detected st @ map (walk_cycle E) N \<and> distinct N \<and>
    (\<forall>p \<in> set N. closed_walk E p \<and> length p \<le> max_cycle_length (ce_cfg E) \<and> hd p \<in> (!) (ce_scc E) ` set ps) \<and>
    length (jn_detected (enumerate_from E ps st)) \<le> max_cycles_per_scc (ce_cfg E)"
  using assms(2-)
proof (induction ps arbitrary: st)
  case Nil
  then show ?case by (intro exI [of _ "[]"]) simp
next
  case (Cons k ps)
  let ?E = "E\<lparr>ce_s := ce_scc E ! k\<rparr>"
  define st1 where "st1 = snd (circuit ?E [] (ce_scc E ! k) (reset_from k st))"
  obtain N where N: "outputs ?E [] st st1 N"
    using circuit_start_outputs [OF assms(1) _ refl, of k st] Cons.prems(2) st1_def by auto
  have cyc: "map (cycle_of ?E) N = map (walk_cycle E) N"
    using N ring_rooted by (auto simp: outputs_def walk_cycle_def)
  have Nr: "\<forall>p \<in> set N. closed_walk E p \<and> length p \<le> max_cycle_length (ce_cfg E) \<and> hd p = ce_scc E ! k"
    using N by (auto simp: outputs_def ring_closed_walk)
  show ?case
  proof (cases "length (jn_detected st1) \<ge> max_cycles_per_scc (ce_cfg E)")
    case True
    then have "enumerate_from E (k # ps) st = st1" by (simp add: st1_def Let_def)
    show ?thesis
      unfolding \<open>enumerate_from E (k # ps) st = st1\<close>
      using N Nr Cons.prems(3) cyc by (intro exI [of _ N]) (auto simp: outputs_def)
  next
    case False
    then have e: "enumerate_from E (k # ps) st = enumerate_from E ps st1" by (simp add: st1_def Let_def)
    from Cons.IH [of st1] Cons.prems False obtain M where
      M: "jn_detected (enumerate_from E ps st1) = jn_detected st1 @ map (walk_cycle E) M" "distinct M"
        "\<forall>p \<in> set M. closed_walk E p \<and> length p \<le> max_cycle_length (ce_cfg E) \<and> hd p \<in> (!) (ce_scc E) ` set ps"
        "length (jn_detected (enumerate_from E ps st1)) \<le> max_cycles_per_scc (ce_cfg E)" by auto
    have "ce_scc E ! k \<notin> (!) (ce_scc E) ` set ps"
      using Cons.prems(1,2) env_okD(2) [OF assms(1)] by (auto simp: nth_eq_iff_index_eq)
    then have "set N \<inter> set M = {}" using Nr M(3) by fastforce
    then show ?thesis
      unfolding e using N Nr M cyc by (intro exI [of _ "N @ M"]) (auto simp: outputs_def)
  qed
qed

lemma enumerate_exact:
  assumes ok: "env_ok E" and max: "length (ce_scc E) \<le> max_cycle_length (ce_cfg E)"
    and ps: "\<forall>p \<in> set ps. p < length (ce_scc E)"
    and cap: "length (jn_detected st) < max_cycles_per_scc (ce_cfg E)"
    and len: "length (jn_blocked st) = length (ce_scc E)" "length (jn_blockers st) = length (ce_scc E)"
  shows "\<exists>N. jn_detected (enumerate_from E ps st) = jn_detected st @ map (walk_cycle E) N \<and>
    (\<forall>p \<in> set N. closed_walk E p \<and> distinct p) \<and>
    (length (jn_detected (enumerate_from E ps st)) < max_cycles_per_scc (ce_cfg E) \<longrightarrow>
       (\<forall>p. closed_walk E p \<and> distinct p \<and> hd p \<in> (!) (ce_scc E) ` set ps \<longrightarrow> p \<in> set N))"
  using ps cap len
proof (induction ps arbitrary: st)
  case Nil
  then show ?case by (intro exI [of _ "[]"]) simp
next
  case (Cons k ps)
  let ?E = "E\<lparr>ce_s := ce_scc E ! k\<rparr>"
  define st1 where "st1 = snd (circuit ?E [] (ce_scc E ! k) (reset_from k st))"
  have k: "k < length (ce_scc E)" using Cons.prems by simp
  have ok': "env_ok ?E" using ok by simp
  note R = reset_from_inv [OF ok k refl Cons.prems(3,4)]
  have op: "open_path ?E ([] @ [ce_scc E ! k])" using open_path_start [of ?E] k by simp
  have el: "eligible ?E (ce_scc E ! k) = Some k"
    using eligible_iff [OF ok', of "ce_scc E ! k" k] k by (simp add: searched_def)
  have det: "jn_detected (reset_from k st) = jn_detected st" by (simp add: reset_from_def)
  have "\<exists>N. jn_detected st1 = jn_detected st @ map (cycle_of ?E) N \<and>
       (\<forall>p \<in> set N. ring ?E p \<and> distinct p) \<and>
       (length (jn_detected st1) < max_cycles_per_scc (ce_cfg E) \<longrightarrow>
          length (jn_blocked st1) = length (ce_scc E) \<and> length (jn_blockers st1) = length (ce_scc E) \<and>
          (\<forall>p. ring ?E p \<and> distinct p \<longrightarrow> p \<in> set N))"
  proof -
    have tk: "take (Suc 0) p = [ce_scc E ! k]" if "ring ?E p" for p
      using that by (cases p) (auto simp: ring_def open_path_def)
    have pre: "distinct ([] @ [ce_scc E ! k])" "length (ce_scc ?E) \<le> max_cycle_length (ce_cfg ?E)"
      "k \<notin> blocked_set ?E (reset_from k st)"
      "length (jn_detected (reset_from k st)) < max_cycles_per_scc (ce_cfg ?E)"
      using max Cons.prems(2) R(2) det by simp_all
    obtain N where N: "jn_detected st1 = jn_detected (reset_from k st) @ map (cycle_of ?E) N"
      "\<forall>p \<in> set N. ring ?E p \<and> distinct p \<and> take (Suc (length ([] :: nat list))) p = [] @ [ce_scc E ! k]"
      "length (jn_detected st1) < max_cycles_per_scc (ce_cfg ?E) \<longrightarrow>
         block_inv ?E (stack_positions ?E []) st1 \<and> block_grow ?E (reset_from k st) st1 \<and>
         (\<not> fst (circuit ?E [] (ce_scc E ! k) (reset_from k st)) \<longrightarrow> k \<in> blocked_set ?E st1) \<and>
         (\<forall>p. ring ?E p \<and> distinct p \<and> take (Suc (length ([] :: nat list))) p = [] @ [ce_scc E ! k] \<longrightarrow> p \<in> set N)"
      using circuit_exact_aux(1) [OF op pre(1) ok' pre(2) R(1) el pre(3,4)] unfolding st1_def by blast
    show ?thesis
    proof (intro exI [of _ N] conjI impI)
      show "jn_detected st1 = jn_detected st @ map (cycle_of ?E) N" using N(1) det by simp
      show "\<forall>p \<in> set N. ring ?E p \<and> distinct p" using N(2) by blast
      assume c: "length (jn_detected st1) < max_cycles_per_scc (ce_cfg E)"
      with N(3) have N3: "block_inv ?E (stack_positions ?E []) st1"
        "\<forall>p. ring ?E p \<and> distinct p \<and> take (Suc (length ([] :: nat list))) p = [] @ [ce_scc E ! k] \<longrightarrow> p \<in> set N" by simp_all
      show "length (jn_blocked st1) = length (ce_scc E)" "length (jn_blockers st1) = length (ce_scc E)"
        using block_invD(1,2) [OF N3(1)] by simp_all
      show "\<forall>p. ring ?E p \<and> distinct p \<longrightarrow> p \<in> set N" using N3(2) tk by simp
    qed
  qed
  then obtain N where N: "jn_detected st1 = jn_detected st @ map (cycle_of ?E) N"
    "\<forall>p \<in> set N. ring ?E p \<and> distinct p"
    "length (jn_detected st1) < max_cycles_per_scc (ce_cfg E) \<Longrightarrow>
       length (jn_blocked st1) = length (ce_scc E) \<and> length (jn_blockers st1) = length (ce_scc E) \<and>
       (\<forall>p. ring ?E p \<and> distinct p \<longrightarrow> p \<in> set N)" by blast
  have cyc: "map (cycle_of ?E) N = map (walk_cycle E) N"
    using N(2) ring_rooted by (auto simp: walk_cycle_def)
  show ?case
  proof (cases "length (jn_detected st1) \<ge> max_cycles_per_scc (ce_cfg E)")
    case True
    then have "enumerate_from E (k # ps) st = st1" by (simp add: st1_def Let_def)
    then show ?thesis using N(1,2) True cyc by (intro exI [of _ N]) (auto simp: ring_closed_walk)
  next
    case False
    then have e: "enumerate_from E (k # ps) st = enumerate_from E ps st1" by (simp add: st1_def Let_def)
    from Cons.IH [of st1] Cons.prems False N(3) obtain M where
      M: "jn_detected (enumerate_from E ps st1) = jn_detected st1 @ map (walk_cycle E) M"
        "\<forall>p \<in> set M. closed_walk E p \<and> distinct p"
        "length (jn_detected (enumerate_from E ps st1)) < max_cycles_per_scc (ce_cfg E) \<Longrightarrow>
          (\<forall>p. closed_walk E p \<and> distinct p \<and> hd p \<in> (!) (ce_scc E) ` set ps \<longrightarrow> p \<in> set M)" by auto
    show ?thesis
      unfolding e
    proof (intro exI [of _ "N @ M"] conjI impI allI)
      show "jn_detected (enumerate_from E ps st1) = jn_detected st @ map (walk_cycle E) (N @ M)"
        using N(1) M(1) cyc by simp
      show "\<forall>p \<in> set (N @ M). closed_walk E p \<and> distinct p"
        using N(2) M(2) by (auto simp: ring_closed_walk)
      fix p assume c: "length (jn_detected (enumerate_from E ps st1)) < max_cycles_per_scc (ce_cfg E)"
        and p: "closed_walk E p \<and> distinct p \<and> hd p \<in> (!) (ce_scc E) ` set (k # ps)"
      show "p \<in> set (N @ M)"
        using p M(3) [OF c] N(3) False ring_closed_walk [of "ce_scc E ! k" E] by auto
    qed
  qed
qed

section \<open>The positions of a component\<close>

lemma positions_fold:
  assumes "distinct xs" "\<forall>v \<in> set xs. v < length ps"
  shows "length (foldl (\<lambda>ps (pos, v). ps[v := Some pos]) ps (enumerate k xs)) = length ps"
    "\<And>i. i < length xs \<Longrightarrow> foldl (\<lambda>ps (pos, v). ps[v := Some pos]) ps (enumerate k xs) ! (xs ! i) = Some (k + i)"
    "\<And>w. w \<notin> set xs \<Longrightarrow> foldl (\<lambda>ps (pos, v). ps[v := Some pos]) ps (enumerate k xs) ! w = ps ! w"
  using assms
proof (induction xs arbitrary: k ps)
  case (Cons x xs)
  { case 1 then show ?case using Cons.IH(1) [of "ps[x := Some k]"] by simp }
  { case (2 i)
    then show ?case
      using Cons.IH(2) [of _ "ps[x := Some k]" "Suc k"] Cons.IH(3) [of x "ps[x := Some k]" "Suc k"]
      by (cases i) auto }
  { case (3 w) then show ?case using Cons.IH(3) [of w "ps[x := Some k]" "Suc k"] by auto }
qed simp_all

lemma pos_at_scc_positions:
  assumes "distinct scc"
  shows "pos_at (scc_positions scc) w = Some p \<longleftrightarrow> p < length scc \<and> scc ! p = w"
proof -
  define m where "m = Max (insert 0 (set scc)) + 1"
  have lt: "\<forall>v \<in> set scc. v < length (replicate m (None :: nat option))"
    by (simp add: m_def less_Suc_eq_le)
  note F = positions_fold [OF assms lt, where k = 0]
  have sp: "scc_positions scc = foldl (\<lambda>ps (pos, v). ps[v := Some pos]) (replicate m None) (enumerate 0 scc)"
    by (simp add: scc_positions_def m_def)
  show ?thesis
  proof (cases "w \<in> set scc")
    case True
    then obtain i where i: "i < length scc" "scc ! i = w" by (auto simp: in_set_conv_nth)
    then have "pos_at (scc_positions scc) w = Some i"
      using F(1) F(2) [OF i(1)] lt True by (simp add: pos_at_def sp)
    then show ?thesis using i assms by (auto simp: nth_eq_iff_index_eq)
  next
    case False
    then have "pos_at (scc_positions scc) w = None"
      using F(1) F(3) [OF False] by (simp add: pos_at_def sp)
    with False show ?thesis by auto
  qed
qed

definition scc_env :: "transfer_edge list \<Rightarrow> nat list list \<Rightarrow> cycle_config \<Rightarrow> nat list \<Rightarrow> cycle_env" where
  "scc_env ts adj cfg scc =
     \<lparr>ce_s = 0, ce_scc = scc, ce_scc_pos = scc_positions scc, ce_adj = adj,
      ce_edges = edge_table (build_graph ts), ce_addrs = id_to_addr (build_graph ts), ce_cfg = cfg\<rparr>"

lemma scc_env_ok:
  assumes "sorted_wrt (<) scc" "set scc \<subseteq> {..<length (id_to_addr (build_graph ts))}"
    and ks: "set ks = set (map fst (edge_table (build_graph ts)))"
  shows "env_ok (scc_env ts (build_adj (length (id_to_addr (build_graph ts))) ks) cfg scc)"
proof -
  let ?g = "build_graph ts"
  have lt: "\<forall>(i, j) \<in> set ks. i < length (id_to_addr ?g)"
    using build_graph_edge(1) [of ts] build_graph_ok [of ts] unfolding ks by (force simp: map_of_eq_Some_iff)
  have "map_of (edge_table ?g) (v, w) \<noteq> None" if "(v, w) \<in> set ks" for v w
    using that unfolding ks by (simp add: map_of_eq_None_iff)
  then show ?thesis
    using assms(1,2) build_adj_props(2,3) [OF lt] pos_at_scc_positions build_graph_ok [of ts]
    unfolding env_ok_def scc_env_def
    by (auto simp: strict_sorted_iff table_ok_def subset_eq)
qed

section \<open>The transfers along a ring\<close>

definition hop_transfers :: "transfer_edge list \<Rightarrow> string list \<Rightarrow> nat \<Rightarrow> transfer_edge list" where
  "hop_transfers ts vs i = between ts (vs ! i) (vs ! (Suc i mod length vs))"

definition ring_times :: "transfer_edge list \<Rightarrow> string list \<Rightarrow> int set" where
  "ring_times ts vs = te_block_time ` (\<Union>i < length vs. set (hop_transfers ts vs i))"

text \<open>What a reported cycle says of the transfers.\<close>

definition cycle_ok :: "transfer_edge list \<Rightarrow> cycle_config \<Rightarrow> cycle \<Rightarrow> bool" where
  "cycle_ok ts cfg c \<longleftrightarrow>
     (let vs = cy_vertices c; n = length vs
      in 2 \<le> n \<and> n \<le> max_cycle_length cfg \<and> length (cy_per_edge_amounts_raw c) = n \<and>
        (\<forall>i < n. vs ! i \<noteq> vs ! (Suc i mod n) \<and> hop_transfers ts vs i \<noteq> [] \<and>
           unat (cy_per_edge_amounts_raw c ! i) = saturated_total (hop_transfers ts vs i)) \<and>
        cy_block_time_span_minutes c =
          word_of_int ((Max (ring_times ts vs) - Min (ring_times ts vs)) div 1000000000) div 60)"

lemma ring_edges_nth:
  "p \<noteq> [] \<Longrightarrow> hd p = s \<Longrightarrow> i < length p \<Longrightarrow> ring_edges p s ! i = (p ! i, p ! (Suc i mod length p))"
  unfolding ring_edges_def
  by (cases "Suc i = length p") (auto simp: nth_append nth_tl hd_conv_nth)

lemma time_simps [simp]:
  "min_time None t = Some t" "min_time (Some u) t = Some (min t u)"
  "max_time None t = Some t" "max_time (Some u) t = Some (max t u)"
  by (auto simp: min_time_def max_time_def min_def max_def)

lemma fold_times:
  "xs \<noteq> [] \<Longrightarrow> foldl (\<lambda>acc x. min_time acc (f x)) None xs = Some (Min (f ` set xs))"
  "xs \<noteq> [] \<Longrightarrow> foldl (\<lambda>acc x. max_time acc (f x)) None xs = Some (Max (f ` set xs))"
  by (induction xs rule: rev_nonempty_induct) simp_all

lemma Min_Union:
  "finite I \<Longrightarrow> I \<noteq> {} \<Longrightarrow> (\<And>i. i \<in> I \<Longrightarrow> finite (A i) \<and> A i \<noteq> {}) \<Longrightarrow>
     Min (\<Union>i \<in> I. A i) = Min ((\<lambda>i. Min (A i) :: int) ` I)"
  "finite I \<Longrightarrow> I \<noteq> {} \<Longrightarrow> (\<And>i. i \<in> I \<Longrightarrow> finite (A i) \<and> A i \<noteq> {}) \<Longrightarrow>
     Max (\<Union>i \<in> I. A i) = Max ((\<lambda>i. Max (A i) :: int) ` I)"
  by (induction I rule: finite_ne_induct) (simp_all add: Min_Un Max_Un)

lemma walk_cycle_ok:
  assumes ks: "set ks = set (map fst (edge_table (build_graph ts)))"
    and scc: "sorted_wrt (<) scc" "set scc \<subseteq> {..<length (id_to_addr (build_graph ts))}"
    and E: "E = scc_env ts (build_adj (length (id_to_addr (build_graph ts))) ks) cfg scc"
    and p: "closed_walk E p" "length p \<le> max_cycle_length cfg"
  shows "cycle_ok ts cfg (walk_cycle E p)" "cy_vertices (walk_cycle E p) = map ((!) (id_to_addr (build_graph ts))) p"
proof -
  let ?g = "build_graph ts" and ?R = "rooted E p"
  let ?e = "\<lambda>i. (p ! i, p ! (Suc i mod length p))"
  let ?agg = "\<lambda>i. the (map_of (edge_table ?g) (?e i))"
  define vs where "vs = map ((!) (id_to_addr ?g)) p"
  have ok: "env_ok ?R" using scc_env_ok [OF scc ks] E by (simp add: rooted_def)
  have R: "ce_edges ?R = edge_table ?g" "ce_addrs ?R = id_to_addr ?g" "ce_scc ?R = scc" "ce_s ?R = hd p"
    by (simp_all add: rooted_def E scc_env_def)
  have ring: "ring ?R p" using p(1) by (simp add: closed_walk_def)
  then have op: "open_path ?R p" "ce_s ?R \<in> set (ce_adj ?R ! last p)" "2 \<le> length p"
    by (simp_all add: ring_def)
  have ne: "p \<noteq> []" using op(1) by (simp add: open_path_def)
  have hops: "ring_hops p (hd p) (edge_table ?g) (id_to_addr ?g) =
      Some (map (\<lambda>e. (id_to_addr ?g ! fst e, the (map_of (edge_table ?g) e))) (ring_edges p (hd p)))"
    using ring_hops_Some [OF ok ne, of "hd p"] op R by (simp add: open_path_def searched_def subset_eq)
  have re: "ring_edges p (hd p) = map ?e [0..<length p]"
    using ring_edges_nth [OF ne refl] by (intro nth_equalityI) (simp_all add: ring_edges_def ne)
  have c: "walk_cycle E p = \<lparr>cy_vertices = vs, cy_per_edge_amounts_raw = map (\<lambda>i. amount_raw_sum (?agg i)) [0..<length p],
      cy_block_time_span_minutes = span_minutes
        (Some (Min ((\<lambda>i. min_block_time (?agg i)) ` {..<length p})))
        (Some (Max ((\<lambda>i. max_block_time (?agg i)) ` {..<length p})))\<rparr>"
  proof -
    have "foldl (\<lambda>acc (_, e). min_time acc (min_block_time e)) None (map (\<lambda>i. (id_to_addr ?g ! (p ! i), ?agg i)) [0..<length p])
        = Some (Min ((\<lambda>i. min_block_time (?agg i)) ` {..<length p}))"
      "foldl (\<lambda>acc (_, e). max_time acc (max_block_time e)) None (map (\<lambda>i. (id_to_addr ?g ! (p ! i), ?agg i)) [0..<length p])
        = Some (Max ((\<lambda>i. max_block_time (?agg i)) ` {..<length p}))"
      using fold_times [of "[0..<length p]"] ne by (simp_all add: foldl_map atLeast0LessThan)
    moreover have "map (\<lambda>i. id_to_addr ?g ! (p ! i)) [0..<length p] = vs"
      by (rule nth_equalityI) (simp_all add: vs_def)
    ultimately show ?thesis
      unfolding walk_cycle_def cycle_of_def build_cycle_def R hops re by (simp add: comp_def)
  qed
  have edge: "map_of (edge_table ?g) (?e i) \<noteq> None" if i: "i < length p" for i
  proof -
    have pi: "p ! i \<in> set (ce_scc ?R)"
      using op(1) nth_mem [OF i] unfolding open_path_def searched_def by blast
    have "p ! (Suc i mod length p) \<in> set (ce_adj ?R ! (p ! i))"
    proof (cases "Suc i = length p")
      case True
      then have "p ! i = last p" using ne by (simp add: last_conv_nth flip: True)
      with True op(2) R(4) ne show ?thesis by (simp add: hd_conv_nth)
    next
      case False
      with i have "Suc i < length p" by simp
      with op(1) show ?thesis by (simp add: open_path_def successively_conv_nth)
    qed
    with env_okD(6) [OF ok pi] R(1) show ?thesis by simp
  qed
  show "cy_vertices (walk_cycle E p) = map ((!) (id_to_addr ?g)) p" by (simp add: c vs_def)
  have vs: "length vs = length p" "\<And>i. i < length p \<Longrightarrow> vs ! i = id_to_addr ?g ! (p ! i)"
    by (simp_all add: vs_def)
  have hop: "hop_transfers ts vs i = between ts (id_to_addr ?g ! fst (?e i)) (id_to_addr ?g ! snd (?e i))"
    if "i < length p" for i
    using vs that ne by (simp add: hop_transfers_def)
  have agg: "aggregates (?agg i) (hop_transfers ts vs i)" "vs ! i \<noteq> vs ! (Suc i mod length p)" if i: "i < length p" for i
  proof -
    obtain e where e: "map_of (edge_table ?g) (?e i) = Some e" using edge [OF i] by auto
    with build_graph_edge [OF e] hop [OF i] show "aggregates (?agg i) (hop_transfers ts vs i)" by simp
    have "distinct (id_to_addr ?g)" using build_graph_ok [of ts] by (simp add: table_ok_def)
    then show "vs ! i \<noteq> vs ! (Suc i mod length p)"
      using build_graph_edge [OF e] vs i ne by (simp add: nth_eq_iff_index_eq)
  qed
  have times: "ring_times ts vs = (\<Union>i < length p. te_block_time ` set (hop_transfers ts vs i))"
    by (auto simp: ring_times_def vs)
  have "Min (ring_times ts vs) = Min ((\<lambda>i. min_block_time (?agg i)) ` {..<length p})"
    "Max (ring_times ts vs) = Max ((\<lambda>i. max_block_time (?agg i)) ` {..<length p})"
  proof -
    have "(\<lambda>i. Min (te_block_time ` set (hop_transfers ts vs i))) ` {..<length p} = (\<lambda>i. min_block_time (?agg i)) ` {..<length p}"
      "(\<lambda>i. Max (te_block_time ` set (hop_transfers ts vs i))) ` {..<length p} = (\<lambda>i. max_block_time (?agg i)) ` {..<length p}"
      using agg(1) by (auto simp: aggregates_def intro!: image_cong)
    moreover have "finite (te_block_time ` set (hop_transfers ts vs i)) \<and> te_block_time ` set (hop_transfers ts vs i) \<noteq> {}"
      if "i \<in> {..<length p}" for i
      using agg(1) that by (auto simp: aggregates_def)
    moreover have "{..<length p} \<noteq> {}" using ne by auto
    ultimately show "Min (ring_times ts vs) = Min ((\<lambda>i. min_block_time (?agg i)) ` {..<length p})"
      "Max (ring_times ts vs) = Max ((\<lambda>i. max_block_time (?agg i)) ` {..<length p})"
      unfolding times using Min_Union [of "{..<length p}" "\<lambda>i. te_block_time ` set (hop_transfers ts vs i)"]
      by simp_all
  qed
  moreover have "Min (ring_times ts vs) \<le> Max (ring_times ts vs)"
  proof -
    have "finite (ring_times ts vs)" by (simp add: ring_times_def)
    moreover have "ring_times ts vs \<noteq> {}"
      using agg(1) [of 0] ne by (auto simp: times aggregates_def)
    ultimately show ?thesis by simp
  qed
  ultimately show "cycle_ok ts cfg (walk_cycle E p)"
    using agg op(3) p(2) vs(1) unfolding cycle_ok_def c
    by (auto simp: Let_def span_minutes_def aggregates_def)
qed

end
