(* ===== verification/GraphProps.thy ===== *)
theory GraphProps
  imports GraphEnumerate
begin

text \<open>The properties of \<open>detect_cycles\<close>, from the transfers to the reported cycles.\<close>

section \<open>Wallets and who pays whom\<close>

definition wallets :: "transfer_edge list \<Rightarrow> string set" where
  "wallets ts = te_from_address ` set ts \<union> te_to_address ` set ts"

definition pays :: "transfer_edge list \<Rightarrow> (string \<times> string) set" where
  "pays ts = {(a, b). a \<noteq> b \<and> between ts a b \<noteq> []}"

text \<open>The wallets that can send to \<open>a\<close> and receive from it, through others.\<close>

definition trading_group :: "transfer_edge list \<Rightarrow> string \<Rightarrow> string set" where
  "trading_group ts a = {b. (a, b) \<in> (pays ts)\<^sup>* \<and> (b, a) \<in> (pays ts)\<^sup>*}"

abbreviation addr :: "transfer_edge list \<Rightarrow> nat \<Rightarrow> string" where
  "addr ts i \<equiv> id_to_addr (build_graph ts) ! i"

abbreviation wallet_count :: "transfer_edge list \<Rightarrow> nat" where
  "wallet_count ts \<equiv> length (id_to_addr (build_graph ts))"

lemma addr_distinct: "distinct (id_to_addr (build_graph ts))"
  using build_graph_ok [of ts] by (simp add: table_ok_def)

lemma addr_eq: "i < wallet_count ts \<Longrightarrow> j < wallet_count ts \<Longrightarrow> addr ts i = addr ts j \<longleftrightarrow> i = j"
  using addr_distinct by (simp add: nth_eq_iff_index_eq)

lemma get_or_insert_set:
  "table_ok g \<Longrightarrow> get_or_insert a g = (i, g') \<Longrightarrow> set (id_to_addr g') = insert a (set (id_to_addr g))"
  by (auto simp: get_or_insert_def Let_def table_ok_def split: option.splits)

lemma set_addrs: "set (id_to_addr (build_graph ts)) = wallets ts"
proof (induction ts rule: rev_induct)
  case Nil
  then show ?case by (simp add: build_graph_def empty_build_def wallets_def)
next
  case (snoc te ts)
  obtain i g1 where g1: "get_or_insert (te_from_address te) (build_graph ts) = (i, g1)" by force
  obtain j g2 where g2: "get_or_insert (te_to_address te) g1 = (j, g2)" by force
  have ok: "table_ok (build_graph ts)" using build_graph_ok [of ts] by simp
  have "build_graph (ts @ [te]) = ingest (build_graph ts) te" by (simp add: build_graph_def)
  moreover have "id_to_addr (ingest (build_graph ts) te) = id_to_addr g2"
    using g1 g2 by (simp add: ingest_def Let_def)
  ultimately show ?case
    using get_or_insert_set [OF ok g1] get_or_insert_set [OF get_or_insert_result(1) [OF ok g1] g2] snoc
    by (auto simp: wallets_def)
qed

lemma wallet_count_card: "wallet_count ts = card (wallets ts)"
  using distinct_card [OF addr_distinct [of ts]] by (simp add: set_addrs)

section \<open>The id graph mirrors the transfers\<close>

locale keyed =
  fixes ts :: "transfer_edge list" and ks :: "(nat \<times> nat) list" and adj :: "nat list list"
  assumes ks: "set ks = set (map fst (edge_table (build_graph ts)))"
    and adj: "adj = build_adj (wallet_count ts) ks"
begin

lemma key_range: "\<forall>(i, j) \<in> set ks. i < wallet_count ts"
  using build_graph_edge(1) [of ts] build_graph_ok [of ts] unfolding ks by (force simp: map_of_eq_Some_iff)

lemma edge_pays:
  "(i, j) \<in> graph_edges adj \<longleftrightarrow> i < wallet_count ts \<and> j < wallet_count ts \<and> (addr ts i, addr ts j) \<in> pays ts"
proof -
  have "(i, j) \<in> set ks \<longleftrightarrow> map_of (edge_table (build_graph ts)) (i, j) \<noteq> None"
    unfolding ks by (simp add: map_of_eq_None_iff)
  moreover have "(i, j) \<in> graph_edges adj \<longleftrightarrow> i < wallet_count ts \<and> (i, j) \<in> set ks"
    using build_adj_props(1,2) [OF key_range] by (auto simp: graph_edges_def adj)
  moreover have "map_of (edge_table (build_graph ts)) (i, j) \<noteq> None \<Longrightarrow> j < wallet_count ts"
    using build_graph_edge(2) by blast
  moreover have "i < wallet_count ts \<Longrightarrow> j < wallet_count ts \<Longrightarrow>
      map_of (edge_table (build_graph ts)) (i, j) \<noteq> None \<longleftrightarrow> (addr ts i, addr ts j) \<in> pays ts"
    using build_graph_edge_iff addr_eq by (simp add: pays_def)
  ultimately show ?thesis by blast
qed

lemma graph_ok: "graph_ok adj (wallet_count ts)"
proof -
  have "w < wallet_count ts" if "vs \<in> set adj" "w \<in> set vs" for vs w
  proof -
    from that obtain i where "i < length adj" "w \<in> set (adj ! i)" by (auto simp: in_set_conv_nth)
    then have "(i, w) \<in> graph_edges adj" by (simp add: graph_edges_def)
    then show ?thesis using edge_pays by blast
  qed
  then show ?thesis using build_adj_props(1) [OF key_range] by (simp add: graph_ok_def adj)
qed

lemma reach_pays: "reach adj i j \<Longrightarrow> (addr ts i, addr ts j) \<in> (pays ts)\<^sup>*"
proof (induction rule: rtrancl_induct)
  case (step j k)
  then show ?case using edge_pays by (meson rtrancl.rtrancl_into_rtrancl)
qed simp

lemma pays_reach: "(addr ts i, b) \<in> (pays ts)\<^sup>* \<Longrightarrow> i < wallet_count ts \<Longrightarrow>
  \<exists>j < wallet_count ts. addr ts j = b \<and> reach adj i j"
proof (induction rule: rtrancl_induct)
  case (step b c)
  then obtain j where j: "j < wallet_count ts" "addr ts j = b" "reach adj i j" by blast
  have "c \<in> set (id_to_addr (build_graph ts))"
    using step.hyps(2) unfolding set_addrs by (auto simp: pays_def between_def wallets_def filter_empty_conv)
  then obtain k where k: "k < wallet_count ts" "addr ts k = c" by (auto simp: in_set_conv_nth)
  then have "(j, k) \<in> graph_edges adj" using j step.hyps(2) edge_pays by simp
  with j have "reach adj i k" by (meson rtrancl.rtrancl_into_rtrancl)
  with k show ?case by blast
qed auto

lemma reach_iff: "i < wallet_count ts \<Longrightarrow> j < wallet_count ts \<Longrightarrow> reach adj i j \<longleftrightarrow> (addr ts i, addr ts j) \<in> (pays ts)\<^sup>*"
  using reach_pays pays_reach addr_eq by metis

lemma component_bound: "i < wallet_count ts \<Longrightarrow> component_of adj i \<subseteq> {..<wallet_count ts}"
proof
  fix j assume "i < wallet_count ts" "j \<in> component_of adj i"
  then have "reach adj i j" "i < wallet_count ts" by (auto simp: component_of_def)
  then show "j \<in> {..<wallet_count ts}" by (induction rule: rtrancl_induct) (use edge_pays in auto)
qed

lemma component_group:
  assumes "i < wallet_count ts"
  shows "trading_group ts (addr ts i) = addr ts ` component_of adj i"
    "card (trading_group ts (addr ts i)) = card (component_of adj i)"
proof -
  show eq: "trading_group ts (addr ts i) = addr ts ` component_of adj i"
  proof (intro equalityI subsetI)
    fix b assume b: "b \<in> trading_group ts (addr ts i)"
    then obtain j where "j < wallet_count ts" "addr ts j = b" "reach adj i j"
      using pays_reach assms by (auto simp: trading_group_def)
    with b assms show "b \<in> addr ts ` component_of adj i"
      using reach_iff [of j i] by (auto simp: trading_group_def component_of_def)
  qed (use reach_pays in \<open>auto simp: trading_group_def component_of_def\<close>)
  have "inj_on (addr ts) (component_of adj i)"
    using component_bound [OF assms] addr_eq unfolding inj_on_def by blast
  then show "card (trading_group ts (addr ts i)) = card (component_of adj i)"
    by (simp add: eq card_image)
qed

end

interpretation cycle_keys: keyed ts "map fst (edge_table (build_graph ts))"
  "build_adj (wallet_count ts) (map fst (edge_table (build_graph ts)))" for ts
  by unfold_locales simp_all

abbreviation id_adj :: "transfer_edge list \<Rightarrow> nat list list" where
  "id_adj ts \<equiv> build_adj (wallet_count ts) (map fst (edge_table (build_graph ts)))"

section \<open>The composition\<close>

lemma detect_cycles_order:
  assumes "\<And>ks. set (key_order ks) = set ks"
  shows "detect_cycles key_order ts cfg = detect_cycles (\<lambda>ks. ks) ts cfg"
proof -
  have "build_adj (wallet_count ts) (key_order (map fst (edge_table (build_graph ts)))) = id_adj ts"
    by (rule build_adj_cong [OF cycle_keys.key_range assms])
  then show ?thesis by (simp add: detect_cycles_def Let_def)
qed

definition scc_cycles :: "transfer_edge list \<Rightarrow> cycle_config \<Rightarrow> nat list \<Rightarrow> cycle list" where
  "scc_cycles ts cfg scc =
     (if length scc < min_scc_size cfg then []
      else jn_detected (enumerate_from (scc_env ts (id_adj ts) cfg scc) [0..<length scc]
             \<lparr>jn_blocked = replicate (length scc) False, jn_blockers = replicate (length scc) [], jn_detected = []\<rparr>))"

lemma sccs_ok_sorted: "sccs_ok adj cs \<Longrightarrow> c \<in> set cs \<Longrightarrow> sorted_wrt (<) c \<and> c \<noteq> []"
  unfolding sccs_ok_def by (fastforce simp: strict_sorted_iff distinct_concat_iff)

lemma detect_cycles_sccs:
  assumes "\<And>ks. set (key_order ks) = set ks" "card (wallets ts) < 2 ^ 32"
  shows "\<exists>sccs. detect_cycles key_order ts cfg = Some (concat (map (scc_cycles ts cfg) sccs)) \<and>
    sccs_ok (id_adj ts) sccs \<and> set (concat sccs) = {..<wallet_count ts}"
proof -
  obtain sccs where sccs: "tarjan_scc (id_adj ts) (wallet_count ts) = Some sccs" "sccs_ok (id_adj ts) sccs"
    "set (concat sccs) = {..<wallet_count ts}"
    using tarjan_scc_result [OF cycle_keys.graph_ok [of ts]] assms(2) unfolding wallet_count_card by blast
  have "detect_cycles (\<lambda>ks. ks) ts cfg = Some (concat (map (scc_cycles ts cfg) sccs))"
  proof (cases "wallet_count ts = 0")
    case True
    then have "sccs = []" using sccs(2,3) sccs_ok_sorted [of "id_adj ts" sccs] by (cases sccs) auto
    then show ?thesis using True by (simp add: detect_cycles_def)
  next
    case False
    then have "ts \<noteq> []" by (auto simp: build_graph_def empty_build_def)
    with False sccs(1) show ?thesis
      by (auto simp: detect_cycles_def Let_def scc_cycles_def enumerate_cycles_in_scc_def scc_env_def
          intro!: arg_cong [of _ _ concat])
  qed
  with sccs detect_cycles_order [OF assms(1)] show ?thesis by metis
qed

lemma scc_bound: "set (concat sccs) = {..<n} \<Longrightarrow> c \<in> set sccs \<Longrightarrow> set c \<subseteq> {..<n}"
  by auto

lemma scc_cycles_outputs:
  assumes "sccs_ok (id_adj ts) sccs" "set (concat sccs) = {..<wallet_count ts}" "scc \<in> set sccs"
  shows "\<exists>N. scc_cycles ts cfg scc = map (walk_cycle (scc_env ts (id_adj ts) cfg scc)) N \<and> distinct N \<and>
    (\<forall>p \<in> set N. closed_walk (scc_env ts (id_adj ts) cfg scc) p \<and> length p \<le> max_cycle_length cfg) \<and>
    length (scc_cycles ts cfg scc) \<le> max_cycles_per_scc cfg"
proof (cases "length scc < min_scc_size cfg")
  case True
  then show ?thesis by (intro exI [of _ "[]"]) (simp add: scc_cycles_def)
next
  case False
  let ?E = "scc_env ts (id_adj ts) cfg scc"
  let ?st = "\<lparr>jn_blocked = replicate (length scc) False, jn_blockers = replicate (length scc) [], jn_detected = []\<rparr>"
  have sorted: "sorted_wrt (<) scc" "set scc \<subseteq> {..<wallet_count ts}"
    using sccs_ok_sorted [OF assms(1,3)] scc_bound [OF assms(2,3)] by blast+
  have ok: "env_ok ?E" by (rule scc_env_ok [OF sorted refl])
  have E: "ce_scc ?E = scc" "ce_cfg ?E = cfg" by (simp_all add: scc_env_def)
  show ?thesis
  proof (cases "max_cycles_per_scc cfg = 0")
    case True
    have "jn_detected (enumerate_from ?E [0..<length scc] ?st) = []"
      using True E by (cases "[0..<length scc]") (simp_all add: circuit.simps reset_from_def Let_def)
    then show ?thesis using False by (intro exI [of _ "[]"]) (simp add: scc_cycles_def)
  next
    case cap: False
    show ?thesis
      using enumerate_outputs [OF ok, of "[0..<length scc]" ?st] cap False E by (auto simp: scc_cycles_def)
  qed
qed

lemma closed_walk_scc:
  "closed_walk (scc_env ts adj cfg scc) p \<Longrightarrow> set p \<subseteq> set scc \<and> p \<noteq> [] \<and> (\<forall>v \<in> set p. hd p \<le> v)"
  by (auto simp: closed_walk_def ring_def open_path_def rooted_def searched_def scc_env_def)

lemma walk_cycle_facts:
  assumes "sccs_ok (id_adj ts) sccs" "set (concat sccs) = {..<wallet_count ts}" "scc \<in> set sccs"
    "closed_walk (scc_env ts (id_adj ts) cfg scc) p" "length p \<le> max_cycle_length cfg"
  shows "cycle_ok ts cfg (walk_cycle (scc_env ts (id_adj ts) cfg scc) p)"
    "cy_vertices (walk_cycle (scc_env ts (id_adj ts) cfg scc) p) = map (addr ts) p"
    "set p \<subseteq> set scc" "p \<noteq> []" "\<forall>v \<in> set p. hd p \<le> v"
proof -
  have sorted: "sorted_wrt (<) scc" "set scc \<subseteq> {..<wallet_count ts}"
    using sccs_ok_sorted [OF assms(1,3)] scc_bound [OF assms(2,3)] by blast+
  show "cycle_ok ts cfg (walk_cycle (scc_env ts (id_adj ts) cfg scc) p)"
    "cy_vertices (walk_cycle (scc_env ts (id_adj ts) cfg scc) p) = map (addr ts) p"
    by (rule walk_cycle_ok [OF refl sorted refl assms(4,5)])+
  show "set p \<subseteq> set scc" "p \<noteq> []" "\<forall>v \<in> set p. hd p \<le> v"
    using closed_walk_scc [OF assms(4)] by blast+
qed

lemma distinct_concat_map:
  assumes "distinct (concat cs)" "\<And>c. c \<in> set cs \<Longrightarrow> distinct (G c) \<and> (\<forall>v \<in> set (G c). f v \<in> set c)"
  shows "distinct (concat (map G cs))"
  using assms
proof (induction cs)
  case (Cons c cs)
  have "set (G c) \<inter> set (concat (map G cs)) = {}"
  proof (rule ccontr)
    assume "set (G c) \<inter> set (concat (map G cs)) \<noteq> {}"
    then obtain v d where "v \<in> set (G c)" "d \<in> set cs" "v \<in> set (G d)" by auto
    with Cons.prems(2) have "f v \<in> set c" "f v \<in> set d" by auto
    with Cons.prems(1) \<open>d \<in> set cs\<close> show False by auto
  qed
  with Cons show ?case by simp
qed simp

lemma detected_vertices_distinct:
  assumes sccs: "sccs_ok (id_adj ts) sccs" "set (concat sccs) = {..<wallet_count ts}"
  shows "distinct (map cy_vertices (concat (map (scc_cycles ts cfg) sccs)))"
proof -
  let ?n = "wallet_count ts"
  define f where "f v = (THE i. i < ?n \<and> addr ts i = hd v)" for v :: "string list"
  have f: "f (map (addr ts) p) = hd p" if "p \<noteq> []" "set p \<subseteq> {..<?n}" for p
    unfolding f_def by (rule the_equality) (use that addr_eq in \<open>auto simp: hd_map subset_eq\<close>)
  have "distinct (concat (map (\<lambda>scc. map cy_vertices (scc_cycles ts cfg scc)) sccs))"
  proof (rule distinct_concat_map [where f = f])
    show "distinct (concat sccs)" using sccs(1) by (simp add: sccs_ok_def)
    fix scc assume scc: "scc \<in> set sccs"
    let ?E = "scc_env ts (id_adj ts) cfg scc"
    obtain N where N: "scc_cycles ts cfg scc = map (walk_cycle ?E) N" "distinct N"
      "\<forall>p \<in> set N. closed_walk ?E p \<and> length p \<le> max_cycle_length cfg"
      using scc_cycles_outputs [OF sccs scc, of cfg] by blast
    have p: "cy_vertices (walk_cycle ?E p) = map (addr ts) p" "set p \<subseteq> set scc" "p \<noteq> []" "set p \<subseteq> {..<?n}"
      if "p \<in> set N" for p
      using walk_cycle_facts [OF sccs scc, of cfg p] N(3) that scc_bound [OF sccs(2) scc] by auto
    have vs: "map cy_vertices (scc_cycles ts cfg scc) = map (map (addr ts)) N"
      using N(1) p(1) by simp
    have "inj_on (map (addr ts)) (set N)"
    proof (rule inj_onI)
      fix p q assume pq: "p \<in> set N" "q \<in> set N" "map (addr ts) p = map (addr ts) q"
      have "inj_on (addr ts) (set p \<union> set q)"
        using p(4) [OF pq(1)] p(4) [OF pq(2)] addr_eq unfolding inj_on_def by blast
      with pq(3) show "p = q" by (rule map_inj_on)
    qed
    moreover have "f v \<in> set scc" if "v \<in> set (map (map (addr ts)) N)" for v
    proof -
      from that obtain q where q: "q \<in> set N" "v = map (addr ts) q" by auto
      with f [of q] p(2,3,4) [OF q(1)] show ?thesis by (auto intro: hd_in_set)
    qed
    ultimately show "distinct (map cy_vertices (scc_cycles ts cfg scc)) \<and>
        (\<forall>v \<in> set (map cy_vertices (scc_cycles ts cfg scc)). f v \<in> set scc)"
      unfolding vs using N(2) by (simp add: distinct_map)
  qed
  then show ?thesis by (simp add: map_concat comp_def)
qed

section \<open>Completeness\<close>

definition transfer_ring :: "transfer_edge list \<Rightarrow> string list \<Rightarrow> bool" where
  "transfer_ring ts vs \<longleftrightarrow> 2 \<le> length vs \<and> distinct vs \<and> (\<forall>i < length vs. hop_transfers ts vs i \<noteq> [])"

lemma transfer_ring_ids:
  assumes "transfer_ring ts vs"
  shows "\<exists>p. vs = map (addr ts) p \<and> distinct p \<and> set p \<subseteq> {..<wallet_count ts} \<and> 2 \<le> length p \<and>
    (\<forall>i < length p. (p ! i, p ! (Suc i mod length p)) \<in> graph_edges (id_adj ts))"
proof -
  have "vs ! i \<in> wallets ts" if "i < length vs" for i
  proof -
    from assms that obtain t where "t \<in> set ts" "te_from_address t = vs ! i"
      by (auto simp: transfer_ring_def hop_transfers_def between_def filter_empty_conv)
    then show ?thesis unfolding wallets_def by (metis UnI1 image_eqI)
  qed
  then have "set vs \<subseteq> addr ts ` {..<wallet_count ts}"
    unfolding set_addrs [symmetric] by (force simp: in_set_conv_nth)
  then have "vs \<in> map (addr ts) ` lists {..<wallet_count ts}"
    by (simp only: lists_image [symmetric] in_lists_conv_set subset_eq)
  then obtain p where p: "vs = map (addr ts) p" "set p \<subseteq> {..<wallet_count ts}" by auto
  have dist: "distinct p" using assms p(1) by (auto simp: transfer_ring_def distinct_map)
  moreover have "(p ! i, p ! (Suc i mod length p)) \<in> graph_edges (id_adj ts)" if i: "i < length p" for i
  proof -
    have ne: "Suc i mod length p \<noteq> i" "Suc i mod length p < length p"
      using i assms p(1) by (cases "Suc i = length p"; auto simp: transfer_ring_def)+
    moreover have "p ! i < wallet_count ts" "p ! (Suc i mod length p) < wallet_count ts"
      using p(2) i ne(2) nth_mem by blast+
    moreover have "between ts (addr ts (p ! i)) (addr ts (p ! (Suc i mod length p))) \<noteq> []"
      using assms i ne(2) p(1) by (auto simp: transfer_ring_def hop_transfers_def)
    moreover have "p ! i \<noteq> p ! (Suc i mod length p)" using dist i ne by (simp add: nth_eq_iff_index_eq)
    ultimately show ?thesis
      using cycle_keys.edge_pays [of "p ! i" "p ! (Suc i mod length p)" ts] addr_eq by (simp add: pays_def)
  qed
  ultimately show ?thesis using assms p by (auto simp: transfer_ring_def)
qed

definition id_ring :: "nat list list \<Rightarrow> nat list \<Rightarrow> bool" where
  "id_ring adj p \<longleftrightarrow> 2 \<le> length p \<and> distinct p \<and>
     (\<forall>i < length p. (p ! i, p ! (Suc i mod length p)) \<in> graph_edges adj)"

lemma id_ring_rotate: "id_ring adj p \<Longrightarrow> id_ring adj (rotate k p)"
proof -
  assume r: "id_ring adj p"
  have "(rotate k p ! i, rotate k p ! (Suc i mod length p)) \<in> graph_edges adj" if i: "i < length p" for i
  proof -
    have "Suc i mod length p < length p" using i by (intro mod_less_divisor) linarith
    then have "rotate k p ! (Suc i mod length p) = p ! (Suc ((k + i) mod length p) mod length p)"
      by (simp add: nth_rotate mod_simps)
    moreover have "rotate k p ! i = p ! ((k + i) mod length p)" using i by (simp add: nth_rotate)
    moreover have "(k + i) mod length p < length p" using i by (intro mod_less_divisor) linarith
    ultimately show ?thesis using r by (simp add: id_ring_def)
  qed
  with r show ?thesis by (simp add: id_ring_def)
qed

lemma id_ring_reach:
  assumes "id_ring adj p" "v \<in> set p"
  shows "v \<in> component_of adj (hd p)"
proof -
  have ne: "p \<noteq> []" using assms by auto
  have step: "(p ! i, p ! Suc i) \<in> graph_edges adj" if "Suc i < length p" for i
    using assms(1) that unfolding id_ring_def by (metis Suc_lessD mod_less)
  have closing: "(p ! (length p - 1), p ! 0) \<in> graph_edges adj"
    using assms(1) ne unfolding id_ring_def by (metis Suc_diff_1 diff_less length_greater_0_conv mod_self zero_less_one)
  have up: "i + k < length p \<Longrightarrow> reach adj (p ! i) (p ! (i + k))" for i k
    by (induction k) (auto intro: step rtrancl.rtrancl_into_rtrancl)
  from assms(2) obtain i where i: "i < length p" "v = p ! i" by (auto simp: in_set_conv_nth)
  have "reach adj (p ! 0) v" using up [of 0 i] i by simp
  moreover have "reach adj v (p ! (length p - 1))" using up [of i "length p - 1 - i"] i by simp
  with closing have "reach adj v (p ! 0)" by (meson rtrancl.rtrancl_into_rtrancl)
  ultimately show ?thesis using ne by (simp add: component_of_def hd_conv_nth)
qed

lemma id_ring_closed_walk:
  assumes "id_ring (id_adj ts) p" "\<forall>v \<in> set p. hd p \<le> v" "set scc = component_of (id_adj ts) (hd p)"
  shows "closed_walk (scc_env ts (id_adj ts) cfg scc) p"
proof -
  have ne: "p \<noteq> []" "2 \<le> length p" and dist: "distinct p" using assms(1) by (auto simp: id_ring_def)
  have adj: "p ! (Suc i mod length p) \<in> set (id_adj ts ! (p ! i))" if "i < length p" for i
    using assms(1) that by (auto simp: id_ring_def graph_edges_def)
  have "p ! Suc i \<in> set (id_adj ts ! (p ! i))" if "Suc i < length p" for i
    using adj [of i] that by simp
  then have "successively (\<lambda>a b. b \<in> set (id_adj ts ! a)) p" by (simp add: successively_conv_nth)
  moreover have "hd p \<in> set (id_adj ts ! last p)"
    using adj [of "length p - 1"] ne by (simp add: last_conv_nth hd_conv_nth)
  moreover have "hd p \<notin> set (tl p)" using dist ne(1) by (cases p) auto
  moreover have "set p \<subseteq> set scc" using id_ring_reach [OF assms(1)] assms(3) by auto
  ultimately show ?thesis
    using ne assms(2) by (auto simp: closed_walk_def ring_def open_path_def rooted_def searched_def scc_env_def)
qed

lemma id_ring_min_rotation:
  assumes "id_ring adj p"
  shows "\<exists>k. \<forall>v \<in> set p. hd (rotate k p) \<le> v"
proof -
  have ne: "p \<noteq> []" using assms by (auto simp: id_ring_def)
  then obtain k where "k < length p" "p ! k = Min (set p)"
    using Min_in [of "set p"] by (auto simp: in_set_conv_nth)
  then have "hd (rotate k p) = Min (set p)" using ne by (simp add: hd_rotate_conv_nth)
  then have "\<forall>v \<in> set p. hd (rotate k p) \<le> v" by simp
  then show ?thesis ..
qed

lemma scc_cycles_exact:
  assumes sccs: "sccs_ok (id_adj ts) sccs" "set (concat sccs) = {..<wallet_count ts}" "scc \<in> set sccs"
    and max: "length scc \<le> max_cycle_length cfg" and cap: "length (scc_cycles ts cfg scc) < max_cycles_per_scc cfg"
    and min: "min_scc_size cfg \<le> length scc"
  shows "\<exists>N. scc_cycles ts cfg scc = map (walk_cycle (scc_env ts (id_adj ts) cfg scc)) N \<and>
    (\<forall>p. p \<in> set N \<longleftrightarrow> closed_walk (scc_env ts (id_adj ts) cfg scc) p \<and> distinct p)"
proof -
  let ?E = "scc_env ts (id_adj ts) cfg scc"
  let ?st = "\<lparr>jn_blocked = replicate (length scc) False, jn_blockers = replicate (length scc) [], jn_detected = []\<rparr>"
  have sorted: "sorted_wrt (<) scc" "set scc \<subseteq> {..<wallet_count ts}"
    using sccs_ok_sorted [OF sccs(1,3)] scc_bound [OF sccs(2,3)] by blast+
  have ok: "env_ok ?E" by (rule scc_env_ok [OF sorted refl])
  have E: "ce_scc ?E = scc" "ce_cfg ?E = cfg" by (simp_all add: scc_env_def)
  have sc: "scc_cycles ts cfg scc = jn_detected (enumerate_from ?E [0..<length scc] ?st)"
    using min by (simp add: scc_cycles_def)
  have pre: "length (ce_scc ?E) \<le> max_cycle_length (ce_cfg ?E)" "\<forall>p \<in> set [0..<length scc]. p < length (ce_scc ?E)"
    "length (jn_detected ?st) < max_cycles_per_scc (ce_cfg ?E)"
    "length (jn_blocked ?st) = length (ce_scc ?E)" "length (jn_blockers ?st) = length (ce_scc ?E)"
    using max cap E by simp_all
  obtain N where N: "jn_detected (enumerate_from ?E [0..<length scc] ?st) = jn_detected ?st @ map (walk_cycle ?E) N"
    "\<forall>p \<in> set N. closed_walk ?E p \<and> distinct p"
    "\<forall>p. closed_walk ?E p \<and> distinct p \<and> hd p \<in> (!) (ce_scc ?E) ` set [0..<length scc] \<longrightarrow> p \<in> set N"
    using enumerate_exact [OF ok pre] cap unfolding sc E by auto
  have "hd p \<in> (!) (ce_scc ?E) ` set [0..<length scc]" if "closed_walk ?E p" for p
  proof -
    have "set p \<subseteq> set scc" "p \<noteq> []" using closed_walk_scc [OF that] by blast+
    then have "hd p \<in> set scc" by (meson hd_in_set subsetD)
    then obtain i where "i < length scc" "hd p = scc ! i" by (metis in_set_conv_nth)
    then show ?thesis unfolding E by (intro image_eqI [of _ _ i]) simp_all
  qed
  with N(2,3) have "\<forall>p. p \<in> set N \<longleftrightarrow> closed_walk ?E p \<and> distinct p" by blast
  with N(1) show ?thesis unfolding sc by (intro exI [of _ N]) simp
qed

text \<open>A component is the trading group of each of its wallets.\<close>

lemma scc_group:
  assumes "sccs_ok (id_adj ts) sccs" "set (concat sccs) = {..<wallet_count ts}" "scc \<in> set sccs" "v \<in> set scc"
  shows "set scc = component_of (id_adj ts) v" "length scc = card (trading_group ts (addr ts v))"
    "addr ts v \<in> wallets ts"
proof -
  have v: "v < wallet_count ts" using scc_bound [OF assms(2,3)] assms(4) by auto
  obtain w where "w \<in> set scc" "set scc = component_of (id_adj ts) w"
    using assms(1,3) unfolding sccs_ok_def by blast
  with assms(4) show eq: "set scc = component_of (id_adj ts) v" using component_of_sym by blast
  have "distinct scc" using sccs_ok_sorted [OF assms(1,3)] by (simp add: strict_sorted_iff)
  then show "length scc = card (trading_group ts (addr ts v))"
    using cycle_keys.component_group(2) [OF v] eq distinct_card by metis
  show "addr ts v \<in> wallets ts" using v nth_mem set_addrs by metis
qed

lemma rotate_same_hd:
  assumes "distinct vs" "vs \<noteq> []" "hd (rotate k vs) = hd (rotate l vs)"
  shows "rotate k vs = rotate l vs"
proof -
  have "vs ! (k mod length vs) = vs ! (l mod length vs)"
    using assms(2,3) by (simp add: hd_rotate_conv_nth)
  then have "k mod length vs = l mod length vs"
    using assms(1,2) by (simp add: nth_eq_iff_index_eq)
  then show ?thesis by (metis rotate_conv_mod)
qed

lemma min_rooted_same_hd:
  assumes "set p = set q" "p \<noteq> []" "q \<noteq> []" "\<forall>v \<in> set p. hd p \<le> v" "\<forall>v \<in> set q. hd q \<le> v"
  shows "hd p = (hd q :: nat)"
  using assms by (metis hd_in_set le_antisym)

text \<open>The components when the bounds do not cut the enumeration off.\<close>

definition uncut :: "transfer_edge list \<Rightarrow> cycle_config \<Rightarrow> nat list list \<Rightarrow> bool" where
  "uncut ts cfg sccs \<longleftrightarrow> sccs_ok (id_adj ts) sccs \<and> set (concat sccs) = {..<wallet_count ts} \<and>
     (\<forall>scc \<in> set sccs. length scc \<le> max_cycle_length cfg \<and>
        length (scc_cycles ts cfg scc) < max_cycles_per_scc cfg)"

lemma uncutI:
  assumes "sccs_ok (id_adj ts) sccs" "set (concat sccs) = {..<wallet_count ts}"
    "\<forall>a \<in> wallets ts. card (trading_group ts a) \<le> max_cycle_length cfg"
    "length (concat (map (scc_cycles ts cfg) sccs)) < max_cycles_per_scc cfg"
  shows "uncut ts cfg sccs"
  unfolding uncut_def
proof (intro conjI ballI)
  fix scc assume scc: "scc \<in> set sccs"
  then have "scc \<noteq> []" using sccs_ok_sorted [OF assms(1)] by blast
  then obtain v where "v \<in> set scc" by (cases scc) auto
  with scc_group [OF assms(1,2) scc] assms(3) show "length scc \<le> max_cycle_length cfg" by auto
  have "length (scc_cycles ts cfg scc) \<le> length (concat (map (scc_cycles ts cfg) sccs))"
    using scc by (induction sccs) auto
  with assms(4) show "length (scc_cycles ts cfg scc) < max_cycles_per_scc cfg" by simp
qed (use assms in blast)+

lemma uncut_cycles:
  assumes "uncut ts cfg sccs" "scc \<in> set sccs" "min_scc_size cfg \<le> length scc"
  shows "\<exists>N. scc_cycles ts cfg scc = map (walk_cycle (scc_env ts (id_adj ts) cfg scc)) N \<and>
    (\<forall>p. p \<in> set N \<longleftrightarrow> closed_walk (scc_env ts (id_adj ts) cfg scc) p \<and> distinct p) \<and>
    (\<forall>p \<in> set N. cy_vertices (walk_cycle (scc_env ts (id_adj ts) cfg scc) p) = map (addr ts) p)"
proof -
  let ?E = "scc_env ts (id_adj ts) cfg scc"
  have sccs: "sccs_ok (id_adj ts) sccs" "set (concat sccs) = {..<wallet_count ts}"
    and len: "length scc \<le> max_cycle_length cfg" "length (scc_cycles ts cfg scc) < max_cycles_per_scc cfg"
    using assms unfolding uncut_def by blast+
  obtain N where N: "scc_cycles ts cfg scc = map (walk_cycle ?E) N"
    "\<forall>p. p \<in> set N \<longleftrightarrow> closed_walk ?E p \<and> distinct p"
    using scc_cycles_exact [OF sccs assms(2) len assms(3)] by blast
  have "cy_vertices (walk_cycle ?E p) = map (addr ts) p" if "p \<in> set N" for p
  proof (rule walk_cycle_facts(2) [OF sccs assms(2)])
    show p: "closed_walk ?E p" using N(2) that by blast
    show "length p \<le> max_cycle_length cfg"
      using closed_walk_scc [OF p] N(2) that len(1) card_mono [of "set scc" "set p"] card_length [of scc]
        distinct_card [of p] by force
  qed
  with N show ?thesis by blast
qed

lemma uncut_reported:
  assumes u: "uncut ts cfg sccs" and c: "c \<in> set (concat (map (scc_cycles ts cfg) sccs))"
  shows "\<exists>p. cy_vertices c = map (addr ts) p \<and> distinct p \<and> p \<noteq> [] \<and> set p \<subseteq> {..<wallet_count ts} \<and>
    (\<forall>v \<in> set p. hd p \<le> v)"
proof -
  from c obtain scc where scc: "scc \<in> set sccs" "c \<in> set (scc_cycles ts cfg scc)" by auto
  then have "min_scc_size cfg \<le> length scc" by (auto simp: scc_cycles_def split: if_splits)
  from uncut_cycles [OF u scc(1) this] scc(2) obtain p where
    p: "closed_walk (scc_env ts (id_adj ts) cfg scc) p" "distinct p" "cy_vertices c = map (addr ts) p" by auto
  have "set scc \<subseteq> {..<wallet_count ts}" using u scc(1) unfolding uncut_def by auto
  then show ?thesis using closed_walk_scc [OF p(1)] p(2,3) by blast
qed

lemma uncut_complete:
  assumes u: "uncut ts cfg sccs" and vs: "transfer_ring ts vs" "min_scc_size cfg \<le> card (trading_group ts (hd vs))"
  shows "\<exists>c \<in> set (concat (map (scc_cycles ts cfg) sccs)). \<exists>k. cy_vertices c = rotate k vs"
proof -
  have sccs: "sccs_ok (id_adj ts) sccs" "set (concat sccs) = {..<wallet_count ts}"
    using u unfolding uncut_def by blast+
  obtain p0 where p0: "vs = map (addr ts) p0" "set p0 \<subseteq> {..<wallet_count ts}" "id_ring (id_adj ts) p0"
    using transfer_ring_ids [OF vs(1)] by (auto simp: id_ring_def)
  obtain k where k: "\<forall>v \<in> set p0. hd (rotate k p0) \<le> v" using id_ring_min_rotation [OF p0(3)] by blast
  let ?p = "rotate k p0"
  have r: "id_ring (id_adj ts) ?p" using id_ring_rotate p0(3) by blast
  have ne: "p0 \<noteq> []" using p0(3) by (auto simp: id_ring_def)
  then have hd: "hd p0 \<in> set p0" "hd ?p \<in> set p0" using hd_in_set [of ?p] by auto
  then have "hd ?p \<in> set (concat sccs)" using p0(2) sccs(2) by auto
  then obtain scc where scc: "scc \<in> set sccs" "hd ?p \<in> set scc" by auto
  note G = scc_group [OF sccs scc(1)]
  have "hd p0 \<in> set scc"
    using id_ring_reach [OF r, of "hd p0"] hd(1) G(1) [OF scc(2)] by simp
  from G(2) [OF this] have "min_scc_size cfg \<le> length scc" using vs(2) p0(1) ne by (simp add: hd_map)
  then obtain N where N: "scc_cycles ts cfg scc = map (walk_cycle (scc_env ts (id_adj ts) cfg scc)) N"
    "\<forall>p. p \<in> set N \<longleftrightarrow> closed_walk (scc_env ts (id_adj ts) cfg scc) p \<and> distinct p"
    "\<forall>p \<in> set N. cy_vertices (walk_cycle (scc_env ts (id_adj ts) cfg scc) p) = map (addr ts) p"
    using uncut_cycles [OF u scc(1)] by blast
  have "closed_walk (scc_env ts (id_adj ts) cfg scc) ?p" "distinct ?p"
    using id_ring_closed_walk [OF r _ G(1) [OF scc(2)]] k r by (auto simp: id_ring_def)
  then have "?p \<in> set N" using N(2) by blast
  then have "walk_cycle (scc_env ts (id_adj ts) cfg scc) ?p \<in> set (scc_cycles ts cfg scc)"
    "cy_vertices (walk_cycle (scc_env ts (id_adj ts) cfg scc) ?p) = rotate k vs"
    using N(1,3) p0(1) by (simp_all add: rotate_map)
  with scc(1) show ?thesis by (simp only: set_concat set_map) blast
qed

section \<open>Properties\<close>

text \<open>
  C37: for every list of transfers among fewer than \<open>2 ^ 32\<close> wallets, \<open>detect_cycles\<close> returns, no ring of
  wallets is reported twice, and every reported cycle is a closed walk of transfers between
  different wallets of 2 to \<open>max_cycle_length\<close> hops: there is a transfer for each hop, the amount
  of a hop is the saturated sum of the transfers between its two wallets, and the span is the
  number of whole minutes between the first and the last of the transfers of all its hops.
\<close>

theorem detect_cycles_sound:
  assumes "\<And>ks. set (key_order ks) = set ks" "card (wallets ts) < 2 ^ 32"
  shows "\<exists>cs. detect_cycles key_order ts cfg = Some cs \<and> distinct (map cy_vertices cs) \<and>
    (\<forall>c \<in> set cs. cycle_ok ts cfg c)"
proof -
  obtain sccs where sccs: "detect_cycles key_order ts cfg = Some (concat (map (scc_cycles ts cfg) sccs))"
    "sccs_ok (id_adj ts) sccs" "set (concat sccs) = {..<wallet_count ts}"
    using detect_cycles_sccs [OF assms, of cfg] by blast
  have "cycle_ok ts cfg c" if c: "c \<in> set (concat (map (scc_cycles ts cfg) sccs))" for c
  proof -
    from c obtain scc where scc: "scc \<in> set sccs" "c \<in> set (scc_cycles ts cfg scc)" by auto
    obtain N where N: "scc_cycles ts cfg scc = map (walk_cycle (scc_env ts (id_adj ts) cfg scc)) N"
      "\<forall>p \<in> set N. closed_walk (scc_env ts (id_adj ts) cfg scc) p \<and> length p \<le> max_cycle_length cfg"
      using scc_cycles_outputs [OF sccs(2,3) scc(1), of cfg] by blast
    from N(1) scc(2) obtain p where "p \<in> set N" "c = walk_cycle (scc_env ts (id_adj ts) cfg scc) p" by auto
    then show ?thesis using walk_cycle_facts(1) [OF sccs(2,3) scc(1)] N(2) by blast
  qed
  with sccs(1) detected_vertices_distinct [OF sccs(2,3)] show ?thesis by blast
qed

definition example_transfer :: "string \<Rightarrow> string \<Rightarrow> nat \<Rightarrow> int \<Rightarrow> transfer_edge" where
  "example_transfer a b m t = \<lparr>te_from_address = a, te_to_address = b, te_amount_raw = word_of_nat m,
     te_block_time = t, te_block_height = 0\<rparr>"

definition example_ring :: "transfer_edge list" where
  "example_ring = [example_transfer ''A'' ''B'' 10 0, example_transfer ''B'' ''C'' 7 60000000000,
     example_transfer ''C'' ''A'' 3 180000000000]"

lemma example_wallets: "wallets example_ring = {''A'', ''B'', ''C''}"
  by (auto simp: wallets_def example_ring_def example_transfer_def)

lemma detect_cycles_sound_witness:
  "\<exists>cs. detect_cycles (\<lambda>ks. ks) example_ring default_cycle_config = Some cs \<and>
     (\<forall>c \<in> set cs. cycle_ok example_ring default_cycle_config c)"
  using detect_cycles_sound [of "\<lambda>ks. ks" example_ring default_cycle_config] by (auto simp: example_wallets)

text \<open>
  C36: the length bound and the cap are the only reasons for which \<open>detect_cycles\<close> misses a cycle. When
  no trading group (wallets that reach each other through transfers) is larger than
  \<open>max_cycle_length\<close> and fewer than \<open>max_cycles_per_scc\<close> cycles come out, then every reported cycle is
  elementary (no wallet twice), and every ring of different wallets in a group of at least
  \<open>min_scc_size\<close> wallets is reported exactly once, starting at one of its wallets.
\<close>

theorem detect_cycles_complete:
  assumes "\<And>ks. set (key_order ks) = set ks" "card (wallets ts) < 2 ^ 32"
    and small: "\<forall>a \<in> wallets ts. card (trading_group ts a) \<le> max_cycle_length cfg"
    and detected: "detect_cycles key_order ts cfg = Some cs" and cap: "length cs < max_cycles_per_scc cfg"
  shows "(\<forall>c \<in> set cs. distinct (cy_vertices c)) \<and>
    (\<forall>vs. transfer_ring ts vs \<and> min_scc_size cfg \<le> card (trading_group ts (hd vs)) \<longrightarrow>
       (\<exists>!c. c \<in> set cs \<and> (\<exists>k. cy_vertices c = rotate k vs)))"
proof -
  obtain sccs where sccs: "cs = concat (map (scc_cycles ts cfg) sccs)" "sccs_ok (id_adj ts) sccs"
    "set (concat sccs) = {..<wallet_count ts}"
    using detect_cycles_sccs [OF assms(1,2), of cfg] detected by auto
  have u: "uncut ts cfg sccs" using uncutI [OF sccs(2,3) small] cap sccs(1) by simp
  note found = uncut_reported [OF u, folded sccs(1)]
  have inj: "inj_on (addr ts) {..<wallet_count ts}" using addr_eq by (auto simp: inj_on_def)
  have "c = d" if vs: "transfer_ring ts vs" and c: "c \<in> set cs" "cy_vertices c = rotate k vs"
    and d: "d \<in> set cs" "cy_vertices d = rotate l vs" for vs c d k l
  proof -
    from found [OF c(1)] obtain p where p: "cy_vertices c = map (addr ts) p" "p \<noteq> []" "set p \<subseteq> {..<wallet_count ts}"
      "\<forall>v \<in> set p. hd p \<le> v" by blast
    from found [OF d(1)] obtain q where q: "cy_vertices d = map (addr ts) q" "q \<noteq> []" "set q \<subseteq> {..<wallet_count ts}"
      "\<forall>v \<in> set q. hd q \<le> v" by blast
    have "addr ts ` set p = addr ts ` set q"
      using c(2) d(2) p(1) q(1) by (metis set_map set_rotate)
    with p(3) q(3) inj have "set p = set q" by (meson inj_on_image_eq_iff)
    then have "hd p = hd q" using min_rooted_same_hd p(2,4) q(2,4) by blast
    then have "hd (rotate k vs) = hd (rotate l vs)"
      using c(2) d(2) p(1,2) q(1,2) by (metis hd_map)
    moreover have "distinct vs" "vs \<noteq> []" using vs by (auto simp: transfer_ring_def)
    ultimately have "cy_vertices c = cy_vertices d" using c(2) d(2) rotate_same_hd by simp
    moreover have "inj_on cy_vertices (set cs)"
      using detected_vertices_distinct [OF sccs(2,3), of cfg] unfolding sccs(1) by (simp add: distinct_map)
    ultimately show "c = d" using c(1) d(1) by (meson inj_onD)
  qed
  moreover have "distinct (cy_vertices c)" if "c \<in> set cs" for c
    using found [OF that] inj_on_subset [OF inj] by (auto simp: distinct_map)
  ultimately show ?thesis
    using uncut_complete [OF u, folded sccs(1)] by blast
qed

lemma detect_cycles_complete_witness:
  "\<exists>!c. c \<in> set [\<lparr>cy_vertices = [''A'', ''B'', ''C''], cy_per_edge_amounts_raw = [10, 7, 3],
       cy_block_time_span_minutes = 3\<rparr>] \<and> (\<exists>k. cy_vertices c = rotate k [''B'', ''C'', ''A''])"
proof -
  have run: "detect_cycles (\<lambda>ks. ks) example_ring default_cycle_config =
      Some [\<lparr>cy_vertices = [''A'', ''B'', ''C''], cy_per_edge_amounts_raw = [10, 7, 3],
        cy_block_time_span_minutes = 3\<rparr>]"
    by code_simp
  have group: "trading_group example_ring a \<subseteq> {''A'', ''B'', ''C''}" if "a \<in> {''A'', ''B'', ''C''}" for a
  proof
    fix b assume "b \<in> trading_group example_ring a"
    then have "(a, b) \<in> (pays example_ring)\<^sup>*" by (simp add: trading_group_def)
    then show "b \<in> {''A'', ''B'', ''C''}"
      by (induction rule: rtrancl_induct)
        (use that in \<open>auto simp: pays_def between_def example_ring_def example_transfer_def split: if_splits\<close>)
  qed
  have step: "(''A'', ''B'') \<in> pays example_ring" "(''B'', ''C'') \<in> pays example_ring" "(''C'', ''A'') \<in> pays example_ring"
    by (simp_all add: pays_def between_def example_ring_def example_transfer_def)
  have "trading_group example_ring ''B'' = {''A'', ''B'', ''C''}"
    using step group [of "''B''"] unfolding trading_group_def
    by (auto intro: rtrancl_trans [OF r_into_rtrancl r_into_rtrancl])
  then have size: "min_scc_size default_cycle_config \<le> card (trading_group example_ring (hd [''B'', ''C'', ''A'']))"
    by (simp add: default_cycle_config_def)
  have ring: "transfer_ring example_ring [''B'', ''C'', ''A'']"
    using step by (simp add: transfer_ring_def hop_transfers_def pays_def All_less_Suc2)
  have small: "\<forall>a \<in> wallets example_ring. card (trading_group example_ring a) \<le> max_cycle_length default_cycle_config"
  proof
    fix a assume "a \<in> wallets example_ring"
    then have "card (trading_group example_ring a) \<le> card {''A'', ''B'', ''C''}"
      by (intro card_mono group) (simp_all add: example_wallets)
    then show "card (trading_group example_ring a) \<le> max_cycle_length default_cycle_config"
      by (simp add: default_cycle_config_def)
  qed
  have n: "card (wallets example_ring) < 2 ^ 32" by (simp add: example_wallets)
  have cap: "length [\<lparr>cy_vertices = [''A'', ''B'', ''C''], cy_per_edge_amounts_raw = [10, 7, 3],
      cy_block_time_span_minutes = 3\<rparr>] < max_cycles_per_scc default_cycle_config"
    by (simp add: default_cycle_config_def)
  show ?thesis
    using detect_cycles_complete [OF refl n small run cap] ring size by blast
qed

text \<open>
  C40: the result of \<open>detect_cycles\<close> does not depend on the order in which the hash map of the edges
  yields its keys.
\<close>

theorem detect_cycles_deterministic:
  assumes "\<And>ks. set (key_order ks) = set ks" "\<And>ks. set (key_order' ks) = set ks"
  shows "detect_cycles key_order ts cfg = detect_cycles key_order' ts cfg"
  using detect_cycles_order [OF assms(1)] detect_cycles_order [OF assms(2)] by simp

lemma detect_cycles_deterministic_witness:
  "detect_cycles rev example_ring default_cycle_config = detect_cycles (\<lambda>ks. ks) example_ring default_cycle_config"
  by (rule detect_cycles_deterministic) simp_all


end
