(* ===== verification/Spec2Isabelle.thy ===== *)
theory Spec2Isabelle
  imports EthDecoderProps ReorgBuffer Reconnect DexProps IndexerProps GraphProps
begin

text \<open>
  A verification library for the on-chain analysis platform: a Rust workspace that follows
  Solana and EVM chains, turns what it reads into typed events, stores them in batches, and runs
  detectors over the stored data. All paths below are under \<open>src/crates\<close>.

  \<^bold>\<open>The program and the theories that model it.\<close>

  Events enter through \<open>chain-adapter\<close>, which uses the in-tree primitive crates \<open>evm-types\<close>,
  \<open>evm-types-macros\<close> and \<open>solana-types\<close> and speaks the vocabulary of \<open>common\<close>; \<open>indexer\<close> moves
  them from the adapter to the sink; \<open>dex-adapter\<close> decodes and builds DEX instructions and fetches
  pool accounts; \<open>graph\<close> looks for rings of transfers in what was stored.

  \<^item> \<open>Prelude\<close>: machine integers, byte strings, results as sums, decimal printing, the string
    operations of the Rust standard library. Shared lemmas and the \<open>named_theorems\<close> collections.
  \<^item> \<open>Codecs\<close>: the text codecs and hash functions the code imports (hex, base 58, Keccak-256), as
    arguments with their documented laws as locales, and reference codecs that satisfy the laws.
  \<^item> \<open>Chain\<close> (\<open>common/src/chain.rs\<close>, \<open>error.rs\<close>, the streaming part of \<open>event.rs\<close>): chains,
    addresses, transaction hashes, block references, and the events the adapters deliver.
  \<^item> \<open>EvmTypes\<close>, \<open>AbiDecode\<close> (\<open>evm-types/src\<close>): 256-bit integers, checksummed addresses, hashes,
    logs, the ABI slot readers and dynamic readers.
  \<^item> \<open>EventSignature\<close> (\<open>evm-types-macros/src\<close>): the parser of event declarations and the code the
    macro generates, as an interpreter over the parsed declaration.
  \<^item> \<open>EthDecoder\<close>, \<open>EthDecoderProps\<close> (\<open>chain-adapter/src/ethereum/decoder.rs\<close>): the event decoders.
  \<^item> \<open>ReorgBuffer\<close> (\<open>chain-adapter/src/ethereum/reorg.rs\<close>): the window of recent headers.
  \<^item> \<open>Reconnect\<close> (\<open>chain-adapter/src/solana/reconnect.rs\<close>): delays and the retry loop.
  \<^item> \<open>SolWire\<close>, \<open>SolPubkey\<close>, \<open>SolTransaction\<close> (\<open>solana-types/src\<close>): compact-u16 prefixes, keys and
    derived addresses, the transaction wire format, message compilation and signing.
  \<^item> \<open>Batcher\<close>, \<open>Indexer\<close>, \<open>IndexerProps\<close> (\<open>indexer/src\<close>): the per-table buffers, routing, the reorg
    protocol and the run loop with its checkpoints.
  \<^item> \<open>DexCommon\<close>, \<open>RaydiumV4\<close>, \<open>RaydiumCpmm\<close>, \<open>PoolStates\<close>, \<open>DexSimulation\<close>, \<open>PoolAccounts\<close>, \<open>DexAdapter\<close>,
    \<open>DexProps\<close> (\<open>dex-adapter/src\<close>): instruction decoders and builders, account layouts, providers
    of swap accounts, simulated swaps.
  \<^item> \<open>GraphTarjan\<close>, \<open>GraphCycles\<close>, \<open>GraphJohnson\<close>, \<open>GraphBlocking\<close>, \<open>GraphBuild\<close>, \<open>GraphEnumerate\<close>,
    \<open>GraphProps\<close> (\<open>graph/src/cycles.rs\<close>): strongly connected components and bounded enumeration of
    elementary cycles.

  \<^bold>\<open>How state and operations correspond to the code.\<close>

  A struct is a \<open>record\<close> with the source's field names (prefixed, since record fields are global), an
  enum a \<open>datatype\<close> with its variants, an integer of width \<open>w\<close> a \<open>w word\<close> and \<open>usize\<close> a \<open>nat\<close>. A
  \<open>String\<close> or \<open>&str\<close> is its UTF-8 byte sequence. \<open>Result\<close> is a sum with the error on the left, and a
  panic is \<open>None\<close> where the code can panic. A function keeps the name it has in the source, with a
  prefix where two modules use the same name. A loop over an index is a structural recursion over
  what is left of the list; a loop that is not structural is a \<open>function\<close> with a measure
  (\<open>tarjan_loop\<close>, the Johnson search, which runs on the depth that the length bound leaves). Async
  calls to a database, an RPC node or a clock are arguments: a function of the position in the log
  of calls, or of the client's state, that decides the answer.

  \<^bold>\<open>What the lemmas show.\<close>

  Every parser and printer pair is inverse on the right domain, with the errors characterised
  (addresses, checksums, base 58, compact-u16, event declarations, event logs, transactions).
  Decoders accept exactly the documented layouts and are disjoint. The reorg window refines the
  chain that an unbounded observer keeps. The indexer's effects are verified with a small Hoare
  logic: events are delivered once and in order whatever calls fail, buffers stay bounded, and the
  reorg handler keeps its protocol. Compiled messages mean the instructions they were compiled from,
  and a swap that is built, signed and serialized is decoded as the swap asked for. Tarjan's loop
  ends and returns the strongly connected components; the bounded Johnson search reports closed
  walks, each once, and all elementary cycles when its bounds do not cut it off. Where the code does
  not do what a comment says, a theorem states what it does.

  \<^bold>\<open>Bounds and fuel.\<close>

  No definition that models code takes fuel. \<open>with_reconnect\<close> recurses on the number of attempts the
  strategy has left, \<open>try_find_program_address\<close> on the nonce, and the Johnson search on the length
  bound minus the path; each recursion ends because the loop of the code does.

  \<^bold>\<open>Not modelled, and why.\<close>

  Transport (\<open>ethereum/http.rs\<close>, \<open>subscribe.rs\<close>, \<open>backfill.rs\<close>), the binaries of \<open>server\<close> and the SQL
  of \<open>storage\<close> are I/O around the modelled code. The detectors compute with \<open>f64\<close> and with the
  \<open>Decimal\<close> type of a crate that is not in the repository. Third-party crates (hex, bs58, sha2,
  ed25519-dalek, tiny-keccak, tokio-retry, serde) are arguments of the definitions that use them.
\<close>

end
